(* ===== verification/Zeos_Prelude.thy ===== *)
theory Zeos_Prelude
  imports Main "HOL-Library.Word" "HOL-Library.Monad_Syntax"
begin

text \<open>
  Shared vocabulary of the ZeOS development: the C integer types of
  \<^verbatim>\<open>include/types.h\<close> as words, C arrays as lists with checked accesses, and
  the generic lemmas on lists and words that the component theories use.

  Conventions.
  \<^item> \<open>Byte\<close>, \<open>Word\<close> and \<open>DWord\<close> are \<^typ>\<open>8 word\<close>, \<^typ>\<open>16 word\<close>
    and \<^typ>\<open>32 word\<close>; a \<open>char\<close> is a \<^typ>\<open>8 word\<close> as well.
  \<^item> A C \<open>int\<close> whose arithmetic never leaves its range is an \<^typ>\<open>int\<close>;
    \<open>int_range\<close> is the range. An \<open>int\<close> that is allowed to wrap stays a
    \<^typ>\<open>32 word\<close>.
  \<^item> An operation of result type \<open>option\<close> returns \<^const>\<open>None\<close> where the C code
    would access memory outside an object, dereference \<open>NULL\<close>, or trap.
\<close>

unbundle bit_operations_syntax

type_synonym byte = "8 word"
type_synonym word16 = "16 word"
type_synonym dword = "32 word"

named_theorems zeos_mem \<open>reads over writes of the byte memory\<close>
named_theorems zeos_bits \<open>bit-level facts on packed fields\<close>
named_theorems zeos_inv \<open>operations keep the component invariants\<close>

definition int_range :: "int \<Rightarrow> bool" where
  "int_range v \<longleftrightarrow> - (2 ^ 31) \<le> v \<and> v < 2 ^ 31"

lemma int_range_sint [simp]: "int_range (sint (w :: dword))"
  using sint_range_size [of w] by (simp add: int_range_def word_size)

lemma sint_word_of_int [simp]: "int_range v \<Longrightarrow> sint (word_of_int v :: dword) = v"
  by (simp add: int_range_def sint_sbintrunc' signed_take_bit_int_eq_self)

lemma uint_of_small: "0 \<le> v \<Longrightarrow> v < 2 ^ 32 \<Longrightarrow> uint (word_of_int v :: dword) = v"
  by (simp add: uint_word_of_int_eq take_bit_int_eq_self)

lemma sint_eq_1_iff: "sint (w :: dword) = 1 \<longleftrightarrow> w = 1"
proof
  assume "sint w = 1"
  then have "(of_int (sint w) :: dword) = of_int 1" by simp
  then show "w = 1" by simp
qed simp

lemma sint_eq_uint_low: "w < 0x80000000 \<Longrightarrow> sint (w :: dword) = uint w"
  using sint_word_of_int [of "uint w"] order_trans [of "- 2147483648" 0 "uint w"]
  by (simp add: int_range_def word_less_def)

lemma sint_high:
  assumes "\<not> w < 0x80000000"
  shows "sint (w :: dword) < 0"
proof -
  have "uint w div 2 ^ 31 = 1"
    using assms unsigned_less [of w, where ?'a = int] by (simp add: word_less_def)
  then have "bit (uint w) 31" by (simp add: bit_iff_odd)
  then show ?thesis by (simp add: sint_uint signed_take_bit_negative_iff)
qed

subsection \<open>Checked array accesses\<close>

text \<open>A C array object is a list; accesses outside it have no result.\<close>

definition rd :: "'a list \<Rightarrow> nat \<Rightarrow> 'a option" where
  "rd b i = (if i < length b then Some (b ! i) else None)"

definition wr :: "'a list \<Rightarrow> nat \<Rightarrow> 'a \<Rightarrow> 'a list option" where
  "wr b i v = (if i < length b then Some (b[i := v]) else None)"

lemma rd_Some [simp]: "i < length b \<Longrightarrow> rd b i = Some (b ! i)"
  by (simp add: rd_def)

lemma rd_None [simp]: "length b \<le> i \<Longrightarrow> rd b i = None"
  by (simp add: rd_def)

lemma wr_Some [simp]: "i < length b \<Longrightarrow> wr b i v = Some (b[i := v])"
  by (simp add: wr_def)

lemma wr_None [simp]: "length b \<le> i \<Longrightarrow> wr b i v = None"
  by (simp add: wr_def)

lemma wr_length: "wr b i v = Some b' \<Longrightarrow> length b' = length b"
  by (auto simp: wr_def split: if_splits)

subsection \<open>Counting loops\<close>

text \<open>
  \<open>for (i = lo; i < hi; i++)\<close> with a body that changes a state and may have no result.
\<close>

function for_loop :: "nat \<Rightarrow> nat \<Rightarrow> (nat \<Rightarrow> 's \<Rightarrow> 's option) \<Rightarrow> 's \<Rightarrow> 's option" where
  "for_loop i hi body s =
     (if i < hi then do { s \<leftarrow> body i s; for_loop (i + 1) hi body s } else Some s)"
  by pat_completeness auto
termination
  by (relation "measure (\<lambda>(i, hi, body, s). hi - i)") auto

declare for_loop.simps [simp del]

text \<open>Total correctness: an invariant that every iteration establishes for the next one.\<close>

lemma for_loop_rule:
  assumes "lo \<le> hi" "I lo s"
    and "\<And>i s. lo \<le> i \<Longrightarrow> i < hi \<Longrightarrow> I i s \<Longrightarrow> \<exists>s'. body i s = Some s' \<and> I (Suc i) s'"
  shows "\<exists>s'. for_loop lo hi body s = Some s' \<and> I hi s'"
  using assms
proof (induction lo hi body s rule: for_loop.induct)
  case (1 lo hi body s)
  show ?case
  proof (cases "lo < hi")
    case True
    with 1(3,4) obtain s1 where s1: "body lo s = Some s1" "I (Suc lo) s1" by blast
    have "\<exists>s'. for_loop (lo + 1) hi body s1 = Some s' \<and> I hi s'"
      using True s1 1(4) by (intro 1(1)) auto
    with True s1 show ?thesis by (simp add: for_loop.simps [of lo hi])
  next
    case False
    with 1(2,3) show ?thesis by (subst for_loop.simps) simp
  qed
qed

subsection \<open>Lists\<close>

lemma last_not_in_butlast: "distinct xs \<Longrightarrow> xs \<noteq> [] \<Longrightarrow> last xs \<notin> set (butlast xs)"
  by (metis append_butlast_last_id distinct_append disjoint_iff list.set_intros(1))

lemma nth_update_if: "b[i := v] ! j = (if i = j \<and> j < length b then v else b ! j)"
  by (cases "i < length b") (auto simp: nth_list_update list_update_beyond)

lemma in_tl_snocD: "p \<in> set (tl (xs @ [x])) \<Longrightarrow> p = x \<or> p \<in> set xs"
  by (cases xs) auto

end
