(* ===== verification/Zeos_List.thy ===== *)
theory Zeos_List
  imports Zeos_Prelude
begin

text \<open>
  The intrusive circular list of \<^verbatim>\<open>list.c\<close> and \<^verbatim>\<open>include/list.h\<close>.
  The store maps the address of a \<open>struct list_head\<close> to its two links; an access
  through \<open>NULL\<close> has no result. Every operation is the sequence of loads and stores
  of the source, so that aliasing (a list of one element, an empty list) is covered.
  The abstraction \<open>ring\<close> relates a store and a head to the list of the linked nodes.
\<close>

type_synonym ptr = dword

abbreviation NULL :: ptr where
  "NULL \<equiv> 0"

record list_head =
  lnext :: ptr
  lprev :: ptr

type_synonym list_heap = "ptr \<Rightarrow> list_head"

subsection \<open>Field accesses\<close>

definition get_next :: "list_heap \<Rightarrow> ptr \<Rightarrow> ptr option" where
  "get_next h p = (if p = NULL then None else Some (lnext (h p)))"

definition get_prev :: "list_heap \<Rightarrow> ptr \<Rightarrow> ptr option" where
  "get_prev h p = (if p = NULL then None else Some (lprev (h p)))"

definition set_next :: "list_heap \<Rightarrow> ptr \<Rightarrow> ptr \<Rightarrow> list_heap option" where
  "set_next h p v = (if p = NULL then None else Some (h(p := (h p)\<lparr>lnext := v\<rparr>)))"

definition set_prev :: "list_heap \<Rightarrow> ptr \<Rightarrow> ptr \<Rightarrow> list_heap option" where
  "set_prev h p v = (if p = NULL then None else Some (h(p := (h p)\<lparr>lprev := v\<rparr>)))"

subsection \<open>The operations of list.c\<close>

definition INIT_LIST_HEAD :: "list_heap \<Rightarrow> ptr \<Rightarrow> list_heap option" where
  "INIT_LIST_HEAD h list = do {
     h \<leftarrow> set_next h list list;
     set_prev h list list }"

definition list_add_between :: "list_heap \<Rightarrow> ptr \<Rightarrow> ptr \<Rightarrow> ptr \<Rightarrow> list_heap option" where
  "list_add_between h new prv nxt = do {
     h \<leftarrow> set_prev h nxt new;
     h \<leftarrow> set_next h new nxt;
     h \<leftarrow> set_prev h new prv;
     set_next h prv new }"

definition list_add :: "list_heap \<Rightarrow> ptr \<Rightarrow> ptr \<Rightarrow> list_heap option" where
  "list_add h new head = do {
     n \<leftarrow> get_next h head;
     list_add_between h new head n }"

definition list_add_tail :: "list_heap \<Rightarrow> ptr \<Rightarrow> ptr \<Rightarrow> list_heap option" where
  "list_add_tail h new head = do {
     p \<leftarrow> get_prev h head;
     list_add_between h new p head }"

definition list_del_between :: "list_heap \<Rightarrow> ptr \<Rightarrow> ptr \<Rightarrow> list_heap option" where
  "list_del_between h prv nxt = do {
     h \<leftarrow> set_prev h nxt prv;
     set_next h prv nxt }"

definition list_del :: "list_heap \<Rightarrow> ptr \<Rightarrow> list_heap option" where
  "list_del h entry = do {
     p \<leftarrow> get_prev h entry;
     n \<leftarrow> get_next h entry;
     h \<leftarrow> list_del_between h p n;
     h \<leftarrow> set_next h entry NULL;
     set_prev h entry NULL }"

definition list_is_last :: "list_heap \<Rightarrow> ptr \<Rightarrow> ptr \<Rightarrow> bool option" where
  "list_is_last h list head = do {
     n \<leftarrow> get_next h list;
     Some (n = head) }"

definition list_empty :: "list_heap \<Rightarrow> ptr \<Rightarrow> bool option" where
  "list_empty h head = do {
     n \<leftarrow> get_next h head;
     Some (n = head) }"

subsection \<open>The macros of list.h\<close>

definition list_first :: "list_heap \<Rightarrow> ptr \<Rightarrow> ptr option" where
  "list_first h head = get_next h head"

definition list_entry :: "ptr \<Rightarrow> dword \<Rightarrow> ptr" where
  "list_entry p offset_of_member = p - offset_of_member"

text \<open>
  The two iteration macros run a body on each node. The body may change the store and
  carries a state of its own; a body without a result aborts the loop. The loops need not
  end on an ill-formed list, so a result that does not come is \<^const>\<open>None\<close>.
\<close>

type_synonym 'a loop_body = "ptr \<Rightarrow> list_heap \<times> 'a \<Rightarrow> (list_heap \<times> 'a) option"

partial_function (option) for_each_from ::
  "'a loop_body \<Rightarrow> ptr \<Rightarrow> ptr \<Rightarrow> list_heap \<times> 'a \<Rightarrow> (list_heap \<times> 'a) option" where
  "for_each_from body head pos s =
     (if pos = head then Some s
      else do {
        s \<leftarrow> body pos s;
        pos \<leftarrow> get_next (fst s) pos;
        for_each_from body head pos s })"

definition list_for_each ::
  "'a loop_body \<Rightarrow> ptr \<Rightarrow> list_heap \<times> 'a \<Rightarrow> (list_heap \<times> 'a) option" where
  "list_for_each body head s = do {
     pos \<leftarrow> get_next (fst s) head;
     for_each_from body head pos s }"

partial_function (option) for_each_safe_from ::
  "'a loop_body \<Rightarrow> ptr \<Rightarrow> ptr \<Rightarrow> ptr \<Rightarrow> list_heap \<times> 'a \<Rightarrow> (list_heap \<times> 'a) option" where
  "for_each_safe_from body head pos n s =
     (if pos = head then Some s
      else do {
        s \<leftarrow> body pos s;
        n' \<leftarrow> get_next (fst s) n;
        for_each_safe_from body head n n' s })"

definition list_for_each_safe ::
  "'a loop_body \<Rightarrow> ptr \<Rightarrow> list_heap \<times> 'a \<Rightarrow> (list_heap \<times> 'a) option" where
  "list_for_each_safe body head s = do {
     pos \<leftarrow> get_next (fst s) head;
     n \<leftarrow> get_next (fst s) pos;
     for_each_safe_from body head pos n s }"

subsection \<open>Abstraction: the ring of nodes\<close>

fun links :: "list_heap \<Rightarrow> ptr list \<Rightarrow> bool" where
  "links h (a # b # r) \<longleftrightarrow> lnext (h a) = b \<and> lprev (h b) = a \<and> links h (b # r)"
| "links h _ \<longleftrightarrow> True"

definition ring :: "list_heap \<Rightarrow> ptr \<Rightarrow> ptr list \<Rightarrow> bool" where
  "ring h head xs \<longleftrightarrow>
     distinct (head # xs) \<and> NULL \<notin> set (head # xs) \<and> links h (head # xs @ [head])"

lemmas list_ops =
  INIT_LIST_HEAD_def list_add_between_def list_add_def list_add_tail_def list_del_between_def
  list_del_def list_is_last_def list_empty_def list_first_def
  get_next_def get_prev_def set_next_def set_prev_def

lemma links_cong:
  assumes "\<And>p. p \<in> set (butlast xs) \<Longrightarrow> lnext (h' p) = lnext (h p)"
    and "\<And>p. p \<in> set (tl xs) \<Longrightarrow> lprev (h' p) = lprev (h p)"
  shows "links h' xs = links h xs"
  using assms by (induction h xs rule: links.induct) auto

lemma links_join:
  "L \<noteq> [] \<Longrightarrow> R \<noteq> [] \<Longrightarrow> links h (L @ R) \<longleftrightarrow>
     links h L \<and> links h R \<and> lnext (h (last L)) = hd R \<and> lprev (h (hd R)) = last L"
proof (induction L)
  case Nil
  then show ?case by simp
next
  case (Cons a L)
  then show ?case by (cases L; cases R) auto
qed

lemma ring_first: "ring h head xs \<Longrightarrow> lnext (h head) = hd (xs @ [head])"
  using links_join [of "[head]" "xs @ [head]" h] by (simp add: ring_def)

lemma ring_last: "ring h head xs \<Longrightarrow> lprev (h head) = last (head # xs)"
  using links_join [of "head # xs" "[head]" h] by (simp add: ring_def)

lemma ring_split:
  assumes "ring h head (as @ bs)"
  shows "links h (head # as)" and "links h (bs @ [head])"
    and "lnext (h (last (head # as))) = hd (bs @ [head])"
    and "lprev (h (hd (bs @ [head]))) = last (head # as)"
  using assms links_join [of "head # as" "bs @ [head]" h] by (simp_all add: ring_def)

lemma list_add_between_run:
  assumes "a \<noteq> NULL" "b \<noteq> NULL" "new \<noteq> NULL" "new \<noteq> a" "new \<noteq> b"
  obtains h' where "list_add_between h new a b = Some h'"
    and "\<And>p. lnext (h' p) = (if p = a then new else if p = new then b else lnext (h p))"
    and "\<And>p. lprev (h' p) = (if p = new then a else if p = b then new else lprev (h p))"
  using assms by (auto simp: list_ops intro: that)

lemma list_del_run:
  assumes "e \<noteq> NULL" "lprev (h e) = a" "lnext (h e) = b" "a \<noteq> NULL" "b \<noteq> NULL" "a \<noteq> e" "b \<noteq> e"
  obtains h' where "list_del h e = Some h'"
    and "\<And>p. lnext (h' p) = (if p = e then NULL else if p = a then b else lnext (h p))"
    and "\<And>p. lprev (h' p) = (if p = e then NULL else if p = b then a else lprev (h p))"
  using assms by (auto simp: list_ops intro: that)

text \<open>The neighbours of a position of the ring.\<close>

lemma ring_nodes:
  assumes "ring h head (as @ bs)"
  shows "last (head # as) \<noteq> NULL" and "hd (bs @ [head]) \<noteq> NULL"
    and "last (head # as) \<notin> set (butlast (head # as)) \<union> set bs"
    and "hd (bs @ [head]) \<notin> set as \<union> set (tl (bs @ [head]))"
proof -
  have d: "distinct (head # as @ bs)" and n: "NULL \<notin> set (head # as @ bs)"
    using assms by (auto simp: ring_def)
  have l: "last (head # as) \<in> set (head # as)" by (rule last_in_set) simp
  show "last (head # as) \<noteq> NULL" using n l by auto
  show "hd (bs @ [head]) \<noteq> NULL" using n by (cases bs) auto
  have "distinct (head # as)" using d by simp
  then have "last (head # as) \<notin> set (butlast (head # as))"
    by (rule last_not_in_butlast) simp
  then show "last (head # as) \<notin> set (butlast (head # as)) \<union> set bs" using d l by auto
  show "hd (bs @ [head]) \<notin> set as \<union> set (tl (bs @ [head]))" using d by (cases bs) auto
qed

lemma list_add_between_ring:
  assumes r: "ring h head (as @ bs)" and new: "new \<notin> set (head # as @ bs)" "new \<noteq> NULL"
  obtains h' where "list_add_between h new (last (head # as)) (hd (bs @ [head])) = Some h'"
    and "ring h' head (as @ new # bs)"
    and "\<And>p. p \<notin> set (head # as @ new # bs) \<Longrightarrow> h' p = h p"
proof -
  let ?a = "last (head # as)" and ?b = "hd (bs @ [head])"
  have ab: "?a \<in> set (head # as)" "?b \<in> set (bs @ [head])"
    by (rule last_in_set, simp, rule hd_in_set, simp)
  then have "new \<noteq> ?a" "new \<noteq> ?b" using new by auto
  with ring_nodes(1,2) [OF r] new(2) obtain h' where
    run: "list_add_between h new ?a ?b = Some h'" and
    n: "\<And>p. lnext (h' p) = (if p = ?a then new else if p = new then ?b else lnext (h p))" and
    q: "\<And>p. lprev (h' p) = (if p = new then ?a else if p = ?b then new else lprev (h p))"
    by (rule list_add_between_run [where h = h]) (rule that)
  have L: "links h' (head # as)"
    using ring_split(1) [OF r] ring_nodes(3,4) [OF r] new
    by (subst links_cong [of _ h' h]) (auto simp: n q dest: in_set_butlastD split: if_splits)
  have R: "links h' (bs @ [head])"
    using ring_split(2) [OF r] ring_nodes(3,4) [OF r] new
    by (subst links_cong [of _ h' h]) (auto simp: n q dest: in_tl_snocD split: if_splits)
  have "links h' ((head # as) @ [new] @ bs @ [head])"
    using L R \<open>new \<noteq> ?a\<close> \<open>new \<noteq> ?b\<close>
    by (subst links_join, simp, simp, subst links_join) (auto simp: n q)
  then have "ring h' head (as @ new # bs)"
    using r new by (auto simp: ring_def)
  moreover have "h' p = h p" if "p \<notin> set (head # as @ new # bs)" for p
    using that ab by (intro list_head.equality) (auto simp: n q)
  ultimately show thesis using run that by blast
qed

lemma list_del_ring:
  assumes r: "ring h head (as @ e # bs)"
  obtains h' where "list_del h e = Some h'" and "ring h' head (as @ bs)"
    and "lnext (h' e) = NULL" and "lprev (h' e) = NULL"
    and "\<And>p. p \<notin> set (head # as @ e # bs) \<Longrightarrow> h' p = h p"
proof -
  let ?a = "last (head # as)" and ?b = "hd (bs @ [head])"
  have ab: "?a \<in> set (head # as)" "?b \<in> set (bs @ [head])"
    by (rule last_in_set, simp, rule hd_in_set, simp)
  have d: "distinct (head # as @ e # bs)" "e \<noteq> NULL" using r by (auto simp: ring_def)
  have ne: "?a \<noteq> e" "?b \<noteq> e" using ab d by auto
  have pe: "lprev (h e) = ?a" using ring_split(4) [OF r] by simp
  have r': "ring h head ((as @ [e]) @ bs)" using r by simp
  have nexte: "lnext (h e) = ?b" using ring_split(3) [OF r'] by simp
  have b0: "?b \<noteq> NULL" using ring_nodes(2) [OF r'] .
  obtain h' where run: "list_del h e = Some h'" and
    n: "\<And>p. lnext (h' p) = (if p = e then NULL else if p = ?a then ?b else lnext (h p))" and
    q: "\<And>p. lprev (h' p) = (if p = e then NULL else if p = ?b then ?a else lprev (h p))"
    by (rule list_del_run [where h = h, OF d(2) pe nexte ring_nodes(1) [OF r] b0 ne]) (rule that)
  have L: "links h' (head # as)"
    using ring_split(1) [OF r] ring_nodes(3) [OF r] ring_nodes(4) [OF r'] d
    by (subst links_cong [of _ h' h]) (auto simp: n q dest: in_set_butlastD split: if_splits)
  have R: "links h' (bs @ [head])"
    using ring_split(2) [OF r'] ring_nodes(3) [OF r] ring_nodes(4) [OF r'] d
    by (subst links_cong [of _ h' h]) (auto simp: n q dest: in_tl_snocD split: if_splits)
  have "links h' ((head # as) @ bs @ [head])"
    using L R ne by (subst links_join) (auto simp: n q)
  then have "ring h' head (as @ bs)" using r by (auto simp: ring_def)
  moreover have "h' p = h p" if "p \<notin> set (head # as @ e # bs)" for p
    using that ab by (intro list_head.equality) (auto simp: n q)
  ultimately show thesis using run that n q by (metis (full_types))
qed

lemma INIT_LIST_HEAD_ring:
  assumes "head \<noteq> NULL"
  obtains h' where "INIT_LIST_HEAD h head = Some h'" and "ring h' head []"
    and "\<And>p. p \<noteq> head \<Longrightarrow> h' p = h p"
  using assms by (auto simp: list_ops ring_def intro: that)

lemma list_add_ring:
  assumes r: "ring h head xs" and new: "new \<notin> set (head # xs)" "new \<noteq> NULL"
  obtains h' where "list_add h new head = Some h'" and "ring h' head (new # xs)"
    and "\<And>p. p \<notin> set (head # new # xs) \<Longrightarrow> h' p = h p"
proof -
  have r0: "ring h head ([] @ xs)" and n0: "new \<notin> set (head # [] @ xs)" using r new by simp_all
  obtain h' where "list_add_between h new head (hd (xs @ [head])) = Some h'"
    "ring h' head (new # xs)" "\<And>p. p \<notin> set (head # new # xs) \<Longrightarrow> h' p = h p"
    using list_add_between_ring [OF r0 n0 new(2)] by auto
  moreover have "list_add h new head = list_add_between h new head (hd (xs @ [head]))"
    using r ring_first [OF r] by (simp add: list_add_def get_next_def ring_def)
  ultimately show thesis using that by simp
qed

lemma list_add_tail_ring:
  assumes r: "ring h head xs" and new: "new \<notin> set (head # xs)" "new \<noteq> NULL"
  obtains h' where "list_add_tail h new head = Some h'" and "ring h' head (xs @ [new])"
    and "\<And>p. p \<notin> set (head # new # xs) \<Longrightarrow> h' p = h p"
proof -
  have r0: "ring h head (xs @ [])" and n0: "new \<notin> set (head # xs @ [])" using r new by simp_all
  obtain h' where "list_add_between h new (last (head # xs)) head = Some h'"
    "ring h' head (xs @ [new])" "\<And>p. p \<notin> set (head # xs @ [new]) \<Longrightarrow> h' p = h p"
    using list_add_between_ring [OF r0 n0 new(2)] by auto
  moreover have "list_add_tail h new head = list_add_between h new (last (head # xs)) head"
    using r ring_last [OF r] by (simp add: list_add_tail_def get_prev_def ring_def)
  ultimately show thesis using that by simp
qed

lemma ring_empty: "ring h head xs \<Longrightarrow> list_empty h head = Some (xs = [])"
  using ring_first [of h head xs] by (cases xs) (auto simp: list_ops ring_def)

lemma ring_list_first: "ring h head (x # xs) \<Longrightarrow> list_first h head = Some x"
  using ring_first [of h head "x # xs"] by (simp add: list_ops ring_def)

lemma ring_is_last:
  assumes "ring h head (as @ e # bs)"
  shows "list_is_last h e head = Some (bs = [])"
proof -
  have "ring h head ((as @ [e]) @ bs)" using assms by simp
  from ring_split(3) [OF this] have "lnext (h e) = hd (bs @ [head])" by simp
  with assms show ?thesis by (cases bs) (auto simp: list_ops ring_def)
qed

lemma ring_get_next: "ring h head (x # xs) \<Longrightarrow> get_next h x = Some (hd (xs @ [head]))"
  using ring_split(3) [of h head "[x]" xs] by (simp add: get_next_def ring_def)

lemma ring_cong: "ring h head xs \<Longrightarrow> (\<And>p. p \<in> set (head # xs) \<Longrightarrow> h' p = h p) \<Longrightarrow> ring h' head xs"
  unfolding ring_def by (subst links_cong [of _ h' h]) (auto dest: in_set_butlastD)

subsection \<open>Interface of an intrusive queue\<close>

text \<open>
  What a client of the list relies on: an operation on a represented queue has a result
  and changes the represented list as named, and nothing but the nodes of that queue.
\<close>

fun insert_all :: "('h \<Rightarrow> 'p \<Rightarrow> 'p \<Rightarrow> 'h option) \<Rightarrow> 'p \<Rightarrow> 'p list \<Rightarrow> 'h \<Rightarrow> 'h option" where
  "insert_all ins q [] h = Some h"
| "insert_all ins q (n # ns) h = do { h \<leftarrow> ins h n q; insert_all ins q ns h }"

fun take_first :: "('h \<Rightarrow> 'p \<Rightarrow> 'p option) \<Rightarrow> ('h \<Rightarrow> 'p \<Rightarrow> 'h option) \<Rightarrow> 'p \<Rightarrow> nat \<Rightarrow> 'h
    \<Rightarrow> ('h \<times> 'p list) option" where
  "take_first fst_of del q 0 h = Some (h, [])"
| "take_first fst_of del q (Suc n) h = do {
     x \<leftarrow> fst_of h q;
     h \<leftarrow> del h x;
     (h, xs) \<leftarrow> take_first fst_of del q n h;
     Some (h, x # xs) }"

locale intrusive_queue =
  fixes rep :: "'h \<Rightarrow> 'p \<Rightarrow> 'p list \<Rightarrow> bool"
    and valid :: "'p \<Rightarrow> bool"
    and push :: "'h \<Rightarrow> 'p \<Rightarrow> 'p \<Rightarrow> 'h option"
    and enqueue :: "'h \<Rightarrow> 'p \<Rightarrow> 'p \<Rightarrow> 'h option"
    and remove :: "'h \<Rightarrow> 'p \<Rightarrow> 'h option"
    and first :: "'h \<Rightarrow> 'p \<Rightarrow> 'p option"
  assumes push_rep: "rep h q xs \<Longrightarrow> valid n \<Longrightarrow> n \<notin> set (q # xs) \<Longrightarrow>
      \<exists>h'. push h n q = Some h' \<and> rep h' q (n # xs)"
    and enqueue_rep: "rep h q xs \<Longrightarrow> valid n \<Longrightarrow> n \<notin> set (q # xs) \<Longrightarrow>
      \<exists>h'. enqueue h n q = Some h' \<and> rep h' q (xs @ [n])"
    and remove_rep: "rep h q (x # xs) \<Longrightarrow> \<exists>h'. remove h x = Some h' \<and> rep h' q xs"
    and first_rep: "rep h q (x # xs) \<Longrightarrow> first h q = Some x"
begin

lemma enqueue_all_rep:
  assumes "rep h q xs" "list_all valid ns" "distinct ns" "set ns \<inter> set (q # xs) = {}"
  shows "\<exists>h'. insert_all enqueue q ns h = Some h' \<and> rep h' q (xs @ ns)"
  using assms
proof (induction ns arbitrary: h xs)
  case Nil
  then show ?case by simp
next
  case (Cons n ns)
  then obtain h' where h': "enqueue h n q = Some h'" "rep h' q (xs @ [n])"
    using enqueue_rep [of h q xs n] by auto
  have "\<exists>h''. insert_all enqueue q ns h' = Some h'' \<and> rep h'' q ((xs @ [n]) @ ns)"
    using Cons.prems h'(2) by (intro Cons.IH) auto
  with h'(1) show ?case by auto
qed

lemma push_all_rep:
  assumes "rep h q xs" "list_all valid ns" "distinct ns" "set ns \<inter> set (q # xs) = {}"
  shows "\<exists>h'. insert_all push q ns h = Some h' \<and> rep h' q (rev ns @ xs)"
  using assms
proof (induction ns arbitrary: h xs)
  case Nil
  then show ?case by simp
next
  case (Cons n ns)
  then obtain h' where h': "push h n q = Some h'" "rep h' q (n # xs)"
    using push_rep [of h q xs n] by auto
  have "\<exists>h''. insert_all push q ns h' = Some h'' \<and> rep h'' q (rev ns @ n # xs)"
    using Cons.prems h'(2) by (intro Cons.IH) auto
  with h'(1) show ?case by auto
qed

lemma take_first_rep:
  "rep h q (xs @ ys) \<Longrightarrow>
     \<exists>h'. take_first first remove q (length xs) h = Some (h', xs) \<and> rep h' q ys"
proof (induction xs arbitrary: h)
  case Nil
  then show ?case by simp
next
  case (Cons x xs)
  then obtain h1 where h1: "remove h x = Some h1" "rep h1 q (xs @ ys)"
    using remove_rep [of h q x "xs @ ys"] by auto
  from Cons.IH [OF h1(2)] obtain h' where
    "take_first first remove q (length xs) h1 = Some (h', xs)" "rep h' q ys" by auto
  with h1(1) Cons.prems show ?case by (simp add: first_rep [of h q x "xs @ ys"])
qed

lemma fifo:
  assumes "rep h q []" "list_all valid ns" "distinct ns" "q \<notin> set ns"
  shows "\<exists>h' h''. insert_all enqueue q ns h = Some h'
      \<and> take_first first remove q (length ns) h' = Some (h'', ns) \<and> rep h'' q []"
  using enqueue_all_rep [OF assms(1-3)] assms(4) take_first_rep [where xs = ns and ys = "[]"]
  by fastforce

lemma lifo:
  assumes "rep h q []" "list_all valid ns" "distinct ns" "q \<notin> set ns"
  shows "\<exists>h' h''. insert_all push q ns h = Some h'
      \<and> take_first first remove q (length ns) h' = Some (h'', rev ns) \<and> rep h'' q []"
  using push_all_rep [OF assms(1-3)] assms(4) take_first_rep [where xs = "rev ns" and ys = "[]"]
  by fastforce

end

interpretation lq: intrusive_queue ring "\<lambda>p. p \<noteq> NULL" list_add list_add_tail list_del list_first
proof unfold_locales
  fix h q n and xs :: "ptr list"
  assume r: "ring h q xs" "n \<noteq> NULL" "n \<notin> set (q # xs)"
  show "\<exists>h'. list_add h n q = Some h' \<and> ring h' q (n # xs)"
    using list_add_ring [OF r(1,3,2)] by metis
  show "\<exists>h'. list_add_tail h n q = Some h' \<and> ring h' q (xs @ [n])"
    using list_add_tail_ring [OF r(1,3,2)] by metis
next
  fix h q x and xs :: "ptr list"
  assume r: "ring h q (x # xs)"
  then have "ring h q ([] @ x # xs)" by simp
  then show "\<exists>h'. list_del h x = Some h' \<and> ring h' q xs"
    by (metis list_del_ring append_Nil)
  show "list_first h q = Some x" using r by (rule ring_list_first)
qed

subsection \<open>Iteration\<close>

text \<open>Bodies: record the visited node, and remove the visited node as well.\<close>

definition visit :: "ptr list loop_body" where
  "visit p s = Some (fst s, snd s @ [p])"

definition visit_and_del :: "ptr list loop_body" where
  "visit_and_del p s = do { h \<leftarrow> list_del (fst s) p; Some (h, snd s @ [p]) }"

lemma for_each_from_keep:
  assumes "\<And>p a. p \<in> set bs \<Longrightarrow> body p (h, a) = Some (h, f p a)" and "ring h head (as @ bs)"
  shows "for_each_from body head (hd (bs @ [head])) (h, a) = Some (h, fold f bs a)"
  using assms
proof (induction bs arbitrary: as a)
  case Nil
  then show ?case by (subst for_each_from.simps) simp
next
  case (Cons b bs)
  have "ring h head ((as @ [b]) @ bs)" using Cons.prems(2) by simp
  from ring_split(3) [OF this] have "get_next h b = Some (hd (bs @ [head]))"
    using Cons.prems(2) by (simp add: get_next_def ring_def)
  moreover have "b \<noteq> head" using Cons.prems(2) by (auto simp: ring_def)
  moreover have "for_each_from body head (hd (bs @ [head])) (h, f b a) = Some (h, fold f bs (f b a))"
    using Cons.prems by (intro Cons.IH [of "as @ [b]"]) auto
  ultimately show ?case
    using Cons.prems(1) by (subst for_each_from.simps) simp
qed

lemma list_for_each_keep:
  assumes "\<And>p a. p \<in> set xs \<Longrightarrow> body p (h, a) = Some (h, f p a)" and r: "ring h head xs"
  shows "list_for_each body head (h, a) = Some (h, fold f xs a)"
proof -
  have "get_next h head = Some (hd (xs @ [head]))"
    using ring_first [OF r] r by (simp add: get_next_def ring_def)
  then show ?thesis
    using for_each_from_keep [of xs body h f head "[]" a] assms by (simp add: list_for_each_def)
qed

lemma for_each_safe_del:
  "ring h head (x # xs) \<Longrightarrow>
     \<exists>h'. for_each_safe_from visit_and_del head x (hd (xs @ [head])) (h, a) = Some (h', a @ x # xs)
        \<and> ring h' head []"
proof (induction xs arbitrary: h x a)
  case Nil
  then have "ring h head ([] @ x # [])" by simp
  then obtain h' where h': "list_del h x = Some h'" "ring h' head []"
    by (rule list_del_ring) simp
  then have "get_next h' head = Some head"
    using ring_first [OF h'(2)] by (simp add: get_next_def ring_def)
  with h' Nil show ?case
    by (subst for_each_safe_from.simps, subst for_each_safe_from.simps)
      (auto simp: visit_and_del_def ring_def)
next
  case (Cons y xs)
  then have "ring h head ([] @ x # y # xs)" by simp
  then obtain h1 where h1: "list_del h x = Some h1" "ring h1 head (y # xs)"
    by (rule list_del_ring) simp
  from Cons.IH [OF h1(2), of "a @ [x]"] obtain h' where
    "for_each_safe_from visit_and_del head y (hd (xs @ [head])) (h1, a @ [x]) = Some (h', (a @ [x]) @ y # xs)"
    "ring h' head []" by auto
  moreover have "x \<noteq> head" using Cons.prems by (auto simp: ring_def)
  ultimately show ?case
    using h1 ring_get_next [OF h1(2)]
    by (subst for_each_safe_from.simps) (auto simp: visit_and_del_def)
qed

lemma list_del_NULL: "list_del h NULL = None"
  by (simp add: list_ops)

subsection \<open>Properties of the list\<close>



text \<open>
  The same head used with \<open>list_add\<close> is a stack: the nodes come out in reverse
  order of insertion.
\<close>

theorem list_stack_lifo:
  assumes "head \<noteq> NULL" "list_all (\<lambda>p. p \<noteq> NULL) ns" "distinct ns" "head \<notin> set ns"
  shows "\<exists>h0 h1 h2. INIT_LIST_HEAD h head = Some h0
      \<and> insert_all list_add head ns h0 = Some h1
      \<and> take_first list_first list_del head (length ns) h1 = Some (h2, rev ns)
      \<and> list_empty h2 head = Some True"
proof -
  obtain h0 where h0: "INIT_LIST_HEAD h head = Some h0" "ring h0 head []"
    by (rule INIT_LIST_HEAD_ring [OF assms(1)])
  from lq.lifo [OF h0(2) assms(2-4)] show ?thesis
    using h0(1) by (fastforce dest: ring_empty)
qed

theorem list_stack_lifo_witness:
  "\<exists>h0 h1 h2. INIT_LIST_HEAD (\<lambda>_. \<lparr>lnext = 7, lprev = 0\<rparr>) 4 = Some h0
      \<and> insert_all list_add 4 [8, 16, 12] h0 = Some h1
      \<and> take_first list_first list_del 4 (length [8, 16, 12 :: dword]) h1
          = Some (h2, rev [8, 16, 12])
      \<and> list_empty h2 4 = Some True"
  by (rule list_stack_lifo) simp_all


definition ring_1_2_3 :: list_heap where
  "ring_1_2_3 = (\<lambda>_. \<lparr>lnext = 0, lprev = 0\<rparr>)
     (4 := \<lparr>lnext = 8, lprev = 16\<rparr>, 8 := \<lparr>lnext = 12, lprev = 4\<rparr>,
      12 := \<lparr>lnext = 16, lprev = 8\<rparr>, 16 := \<lparr>lnext = 4, lprev = 12\<rparr>)"

lemma ring_1_2_3_ring: "ring ring_1_2_3 4 [8, 12, 16]"
  by (simp add: ring_def ring_1_2_3_def)


text \<open>
  C35. \<open>list_for_each\<close> ends on every well-formed list and visits its nodes once each, in
  order. With a body that removes the visited node, \<open>list_for_each_safe\<close> still visits
  every node and empties the list, whereas \<open>list_for_each\<close> on a non-empty list follows
  the cleared link of the removed node and faults.
\<close>

theorem list_iteration:
  assumes r: "ring h head xs"
  shows "list_for_each visit head (h, []) = Some (h, xs)
      \<and> (\<exists>h'. list_for_each_safe visit_and_del head (h, []) = Some (h', xs) \<and> ring h' head [])
      \<and> (xs \<noteq> [] \<longrightarrow> list_for_each visit_and_del head (h, []) = None)"
proof (intro conjI impI)
  have "fold (\<lambda>p a. a @ [p]) xs [] = xs" by (induction xs rule: rev_induct) auto
  then show "list_for_each visit head (h, []) = Some (h, xs)"
    using list_for_each_keep [of xs visit h "\<lambda>p a. a @ [p]" head "[]"] r by (simp add: visit_def)
  have first: "get_next h head = Some (hd (xs @ [head]))"
    using ring_first [OF r] r by (simp add: get_next_def ring_def)
  show "\<exists>h'. list_for_each_safe visit_and_del head (h, []) = Some (h', xs) \<and> ring h' head []"
  proof (cases xs)
    case Nil
    with first r show ?thesis
      by (auto simp: list_for_each_safe_def for_each_safe_from.simps)
  next
    case (Cons x ys)
    with first r for_each_safe_del [of h head x ys "[]"] ring_get_next [of h head x ys] show ?thesis
      by (simp add: list_for_each_safe_def)
  qed
  assume "xs \<noteq> []"
  then obtain x ys where xs: "xs = [] @ x # ys" by (cases xs) auto
  obtain h' where "list_del h x = Some h'" "lnext (h' x) = NULL"
    by (rule list_del_ring [OF r [unfolded xs]])
  then show "list_for_each visit_and_del head (h, []) = None"
    using first r xs
    by (auto simp: list_for_each_def visit_and_del_def for_each_from.simps [of _ head]
        get_next_def list_del_NULL ring_def)
qed

theorem list_iteration_witness:
  "list_for_each visit 4 (ring_1_2_3, []) = Some (ring_1_2_3, [8, 12, 16])
      \<and> list_for_each visit_and_del 4 (ring_1_2_3, []) = None"
  using list_iteration [OF ring_1_2_3_ring] by simp

end
