(* ===== verification/Zeos_Types.thy ===== *)
theory Zeos_Types
  imports Zeos_Prelude
begin

text \<open>
  The data of \<^verbatim>\<open>include/types.h\<close>, \<^verbatim>\<open>include/mm_address.h\<close>,
  \<^verbatim>\<open>include/segment.h\<close> and \<^verbatim>\<open>include/sched.h\<close>: the byte and word
  extraction macros, the descriptor, gate, register and task-state structures, the page
  table entry with its bit fields, and the constants of the address map.
\<close>

subsection \<open>Address map (mm\_address.h, sched.h)\<close>

definition TOTAL_PAGES :: nat where [simp]: "TOTAL_PAGES = 1024"
definition NUM_PAG_KERNEL :: nat where [simp]: "NUM_PAG_KERNEL = 256"
definition NUM_PAG_CODE :: nat where [simp]: "NUM_PAG_CODE = 8"
definition NUM_PAG_DATA :: nat where [simp]: "NUM_PAG_DATA = 20"
definition PAGE_SIZE :: nat where [simp]: "PAGE_SIZE = 0x1000"
definition ENTRY_DIR_PAGES :: nat where [simp]: "ENTRY_DIR_PAGES = 0"
definition NR_TASKS :: nat where [simp]: "NR_TASKS = 10"
definition KERNEL_STACK_SIZE :: nat where [simp]: "KERNEL_STACK_SIZE = 1024"
definition KERNEL_START :: dword where [simp]: "KERNEL_START = 0x10000"
definition L_USER_START :: dword where [simp]: "L_USER_START = 0x100000"
definition USER_ESP :: dword where [simp]: "USER_ESP = 0x100000 + 20 * 0x1000 - 16"
definition USER_FIRST_PAGE :: dword where [simp]: "USER_FIRST_PAGE = drop_bit 12 0x100000"
definition PAG_LOG_INIT_DATA :: nat where [simp]: "PAG_LOG_INIT_DATA = 0x100000 div 2 ^ 12"
definition PAG_LOG_INIT_CODE :: nat where [simp]: "PAG_LOG_INIT_CODE = PAG_LOG_INIT_DATA + NUM_PAG_DATA"

subsection \<open>Segment selectors (segment.h)\<close>

definition KERNEL_CS :: word16 where [simp]: "KERNEL_CS = 0x10"
definition KERNEL_DS :: word16 where [simp]: "KERNEL_DS = 0x18"
definition USER_CS :: word16 where [simp]: "USER_CS = 0x23"
definition USER_DS :: word16 where [simp]: "USER_DS = 0x2B"
definition KERNEL_TSS :: word16 where [simp]: "KERNEL_TSS = 0x30"
definition GDT_START :: dword where [simp]: "GDT_START = 0x901b3"

subsection \<open>Parts of a double word\<close>

definition highWord :: "dword \<Rightarrow> word16" where
  "highWord address = ucast (drop_bit 16 address AND 0xFFFF)"

definition lowWord :: "dword \<Rightarrow> word16" where
  "lowWord address = ucast (address AND 0xFFFF)"

definition midByte :: "dword \<Rightarrow> byte" where
  "midByte address = ucast (drop_bit 16 address AND 0xFF)"

definition highByte :: "dword \<Rightarrow> byte" where
  "highByte address = ucast (drop_bit (16 + 8) address AND 0xFF)"

definition high4Bits :: "dword \<Rightarrow> byte" where
  "high4Bits limit = ucast (drop_bit 16 limit AND 0x0F)"

subsection \<open>Processor structures\<close>

record Descriptor =
  d_limit :: word16
  lowBase :: word16
  midBase :: byte
  flags1 :: byte
  flags2 :: byte
  highBase :: byte

record Gate =
  lowOffset :: word16
  segmentSelector :: word16
  g_flags :: word16
  highOffset :: word16

record Register =
  r_limit :: word16
  r_base :: dword

record TSS =
  PreviousTaskLink :: word16
  esp0 :: dword
  ss0 :: word16
  esp1 :: dword
  ss1 :: word16
  esp2 :: dword
  ss2 :: word16
  tss_cr3 :: dword
  tss_eip :: dword
  eFlags :: dword
  tss_eax :: dword
  tss_ecx :: dword
  tss_edx :: dword
  tss_ebx :: dword
  tss_esp :: dword
  tss_ebp :: dword
  tss_esi :: dword
  tss_edi :: dword
  tss_es :: word16
  tss_cs :: word16
  tss_ss :: word16
  tss_ds :: word16
  tss_fs :: word16
  tss_gs :: word16
  LDTSegmentSelector :: word16
  debugTrap :: word16
  IOMapBaseAddress :: word16

definition INITIAL_EFLAGS :: dword where [simp]: "INITIAL_EFLAGS = 0x200"

text \<open>What the processor reads back from the split fields.\<close>

definition gate_offset :: "Gate \<Rightarrow> dword" where
  "gate_offset g = push_bit 16 (ucast (highOffset g)) OR ucast (lowOffset g)"

definition descriptor_base :: "Descriptor \<Rightarrow> dword" where
  "descriptor_base d =
     push_bit 24 (ucast (highBase d)) OR push_bit 16 (ucast (midBase d)) OR ucast (lowBase d)"

definition gate_dpl :: "Gate \<Rightarrow> word16" where
  "gate_dpl g = take_bit 2 (drop_bit 13 (g_flags g))"

lemma numeral_masks [zeos_bits]:
  "(0xFFFF :: dword) = mask 16" "(0xFF :: dword) = mask 8" "(0x0F :: dword) = mask 4"
  by (simp_all add: mask_eq_exp_minus_1)

lemma high_low_Word [zeos_bits]:
  "push_bit 16 (ucast (highWord a)) OR ucast (lowWord a) = a"
  unfolding highWord_def lowWord_def numeral_masks
  by (rule bit_word_eqI) (auto simp: bit_simps)

lemma high_mid_low [zeos_bits]:
  "push_bit 24 (ucast (highByte a)) OR push_bit 16 (ucast (midByte a)) OR ucast (lowWord a) = a"
  unfolding highByte_def midByte_def lowWord_def numeral_masks
  by (rule bit_word_eqI, rename_tac n, case_tac "n < 24") (auto simp: bit_simps)

subsection \<open>Page table entries\<close>

text \<open>
  The union \<open>page_table_entry\<close> is a double word whose bit fields are allocated from
  the least significant bit on. Assigning to a field keeps the low bits of the value that
  fit, and every other field.
\<close>

type_synonym page_table_entry = dword

definition get_field :: "nat \<Rightarrow> nat \<Rightarrow> page_table_entry \<Rightarrow> dword" where
  "get_field lo w e = take_bit w (drop_bit lo e)"

definition set_field :: "nat \<Rightarrow> nat \<Rightarrow> dword \<Rightarrow> page_table_entry \<Rightarrow> page_table_entry" where
  "set_field lo w v e = (e AND NOT (push_bit lo (mask w))) OR push_bit lo (take_bit w v)"

definition pte_present :: "page_table_entry \<Rightarrow> dword" where "pte_present = get_field 0 1"
definition pte_rw :: "page_table_entry \<Rightarrow> dword" where "pte_rw = get_field 1 1"
definition pte_user :: "page_table_entry \<Rightarrow> dword" where "pte_user = get_field 2 1"
definition pte_pbase_addr :: "page_table_entry \<Rightarrow> dword" where "pte_pbase_addr = get_field 12 20"

definition set_present :: "dword \<Rightarrow> page_table_entry \<Rightarrow> page_table_entry" where
  "set_present = set_field 0 1"
definition set_rw :: "dword \<Rightarrow> page_table_entry \<Rightarrow> page_table_entry" where
  "set_rw = set_field 1 1"
definition set_user :: "dword \<Rightarrow> page_table_entry \<Rightarrow> page_table_entry" where
  "set_user = set_field 2 1"
definition set_pbase_addr :: "dword \<Rightarrow> page_table_entry \<Rightarrow> page_table_entry" where
  "set_pbase_addr = set_field 12 20"

lemmas pte_get_defs = pte_present_def pte_rw_def pte_user_def pte_pbase_addr_def
lemmas pte_set_defs = set_present_def set_rw_def set_user_def set_pbase_addr_def

lemma bit_set_field:
  "bit (set_field lo w v e) n \<longleftrightarrow>
     (if lo \<le> n \<and> n < lo + w then n < 32 \<and> bit v (n - lo) else bit e n)"
  by (cases "n < 32") (auto simp: set_field_def bit_simps not_less dest: bit_imp_le_length)

lemma bit_get_field: "bit (get_field lo w e) n \<longleftrightarrow> n < w \<and> bit e (lo + n)"
  by (auto simp: get_field_def bit_simps add.commute)

lemma get_set_field_same: "lo + w \<le> 32 \<Longrightarrow> get_field lo w (set_field lo w v e) = take_bit w v"
  by (rule bit_word_eqI) (auto simp: bit_get_field bit_set_field bit_simps)

lemma get_set_field_other:
  "lo + w \<le> lo' \<or> lo' + w' \<le> lo \<Longrightarrow> get_field lo w (set_field lo' w' v e) = get_field lo w e"
  by (rule bit_word_eqI) (auto simp: bit_get_field bit_set_field)

lemma get_field_zero: "get_field lo w 0 = 0"
  by (simp add: get_field_def)

lemma pte_get_set [simp]:
  "pte_present (set_present v e) = take_bit 1 v" "pte_present (set_rw v e) = pte_present e"
  "pte_present (set_user v e) = pte_present e" "pte_present (set_pbase_addr v e) = pte_present e"
  "pte_rw (set_present v e) = pte_rw e" "pte_rw (set_rw v e) = take_bit 1 v"
  "pte_rw (set_user v e) = pte_rw e" "pte_rw (set_pbase_addr v e) = pte_rw e"
  "pte_user (set_present v e) = pte_user e" "pte_user (set_rw v e) = pte_user e"
  "pte_user (set_user v e) = take_bit 1 v" "pte_user (set_pbase_addr v e) = pte_user e"
  "pte_pbase_addr (set_present v e) = pte_pbase_addr e"
  "pte_pbase_addr (set_rw v e) = pte_pbase_addr e"
  "pte_pbase_addr (set_user v e) = pte_pbase_addr e"
  "pte_pbase_addr (set_pbase_addr v e) = take_bit 20 v"
  by (simp_all add: pte_get_defs pte_set_defs get_set_field_same get_set_field_other)

lemma pte_get_zero [simp]:
  "pte_present 0 = 0" "pte_rw 0 = 0" "pte_user 0 = 0" "pte_pbase_addr 0 = 0"
  by (simp_all add: pte_get_defs get_field_zero)

lemma pte_pbase_addr_shift: "push_bit 12 (pte_pbase_addr e) = e AND NOT (mask 12)"
  by (rule bit_word_eqI) (auto simp: pte_pbase_addr_def get_field_def bit_simps)

end
