(* ===== verification/Zeos_Memory.thy ===== *)
theory Zeos_Memory
  imports Zeos_Prelude
begin

text \<open>
  The byte-addressed memory that pointers of the kernel reach: a total map from 32-bit
  logical addresses to bytes, with little-endian double-word accesses. Address arithmetic
  wraps around, as the processor's does. Accesses to pages that are not mapped are not
  represented here: the theorems that use the memory say which addresses are touched.
\<close>

type_synonym mem = "dword \<Rightarrow> byte"

definition load32 :: "mem \<Rightarrow> dword \<Rightarrow> dword" where
  "load32 m a =
     ucast (m a) OR push_bit 8 (ucast (m (a + 1)))
       OR push_bit 16 (ucast (m (a + 2))) OR push_bit 24 (ucast (m (a + 3)))"

definition store32 :: "mem \<Rightarrow> dword \<Rightarrow> dword \<Rightarrow> mem" where
  "store32 m a v = m(a := ucast v, a + 1 := ucast (drop_bit 8 v),
     a + 2 := ucast (drop_bit 16 v), a + 3 := ucast (drop_bit 24 v))"

definition aligned4 :: "dword \<Rightarrow> bool" where
  "aligned4 a \<longleftrightarrow> unat a mod 4 = 0"

fun write_bytes :: "mem \<Rightarrow> dword \<Rightarrow> byte list \<Rightarrow> mem" where
  "write_bytes m a [] = m"
| "write_bytes m a (b # bs) = write_bytes (m(a := b)) (a + 1) bs"

definition read_bytes :: "mem \<Rightarrow> dword \<Rightarrow> nat \<Rightarrow> byte list" where
  "read_bytes m a n = map (\<lambda>i. m (a + of_nat i)) [0..<n]"

subsection \<open>Double words\<close>

lemma split32: "ucast (ucast v :: byte) OR push_bit 8 (ucast (ucast (drop_bit 8 v) :: byte))
    OR push_bit 16 (ucast (ucast (drop_bit 16 v) :: byte))
    OR push_bit 24 (ucast (ucast (drop_bit 24 v) :: byte)) = (v :: dword)" (is "?l = v")
proof (rule bit_word_eqI)
  fix n assume "n < LENGTH(32)"
  then consider "n < 8" | "8 \<le> n" "n < 16" | "16 \<le> n" "n < 24" | "24 \<le> n" "n < 32"
    by fastforce
  then show "bit ?l n = bit v n" by cases (auto simp: bit_simps)
qed

lemma load32_store32_same [simp, zeos_mem]: "load32 (store32 m a v) a = v"
  using split32 [of v] by (simp add: load32_def store32_def)

lemma unat_add_small: "unat (a :: dword) + n < 2 ^ 32 \<Longrightarrow> unat (a + of_nat n) = unat a + n"
  by (simp add: unat_word_ariths unat_of_nat)

lemma aligned4_bound: "aligned4 a \<Longrightarrow> unat a \<le> 2 ^ 32 - 4"
  using unsigned_less [of a, where ?'a = nat] unfolding aligned4_def by (simp, presburger)

lemma aligned4_offsets:
  assumes "aligned4 a"
  shows "unat (a + 1) = unat a + 1" "unat (a + 2) = unat a + 2" "unat (a + 3) = unat a + 3"
  using unat_add_small [of a 1] unat_add_small [of a 2] unat_add_small [of a 3]
    aligned4_bound [OF assms] by simp_all

lemma aligned4_disjoint:
  assumes "aligned4 a" "aligned4 b" "a \<noteq> b" "i \<in> {0, 1, 2, 3}" "j \<in> {0, 1, 2, 3}"
  shows "b + i \<noteq> a + (j :: dword)"
proof -
  have "unat a \<noteq> unat b" using assms(3) by (simp add: word_unat_eq_iff)
  moreover have "unat a mod 4 = 0" "unat b mod 4 = 0" using assms by (simp_all add: aligned4_def)
  ultimately have ne: "unat b + k \<noteq> unat a + l" if "k < 4" "l < 4" for k l
    using that by presburger
  have "unat (b + i) = unat b + unat i" "unat (a + j) = unat a + unat j" "unat i < 4" "unat j < 4"
    using assms(4,5) aligned4_offsets [OF assms(1)] aligned4_offsets [OF assms(2)] by auto
  with ne [of "unat i" "unat j"] show ?thesis by metis
qed

text \<open>The bytes of a double word, and what a memory that agrees on them has in common.\<close>

definition entry_bytes :: "dword \<Rightarrow> dword set" where
  "entry_bytes a = {a, a + 1, a + 2, a + 3}"

lemma entry_bytes_offset: "x \<in> entry_bytes a \<Longrightarrow> \<exists>i\<in>{0, 1, 2, 3}. x = a + i"
  by (auto simp: entry_bytes_def)

lemma entry_bytes_disjoint:
  "aligned4 a \<Longrightarrow> aligned4 b \<Longrightarrow> a \<noteq> b \<Longrightarrow> entry_bytes a \<inter> entry_bytes b = {}"
  using aligned4_disjoint [of a b] entry_bytes_offset [of _ a] entry_bytes_offset [of _ b]
  by (metis disjoint_iff)

lemma load32_cong: "(\<And>b. b \<in> entry_bytes a \<Longrightarrow> m' b = m b) \<Longrightarrow> load32 m' a = load32 m a"
  by (simp add: load32_def entry_bytes_def)

lemma store32_outside: "b \<notin> entry_bytes a \<Longrightarrow> store32 m a v b = m b"
  by (auto simp: store32_def entry_bytes_def)

lemma load32_store32_other [zeos_mem]:
  "aligned4 a \<Longrightarrow> aligned4 b \<Longrightarrow> a \<noteq> b \<Longrightarrow> load32 (store32 m a v) b = load32 m b"
  using entry_bytes_disjoint [of a b] by (intro load32_cong store32_outside) auto

subsection \<open>Updates of a set of entries\<close>

text \<open>\<open>m'\<close> is \<open>m\<close> with the double words at the addresses \<open>S\<close> set to \<open>v\<close>.\<close>

definition updates :: "mem \<Rightarrow> dword set \<Rightarrow> (dword \<Rightarrow> dword) \<Rightarrow> mem \<Rightarrow> bool" where
  "updates m S v m' \<longleftrightarrow> (\<forall>a\<in>S. load32 m' a = v a) \<and> (\<forall>b. b \<notin> (\<Union>a\<in>S. entry_bytes a) \<longrightarrow> m' b = m b)"

lemma updates_empty: "updates m {} v m"
  by (simp add: updates_def)

lemma updates_value: "updates m S v m' \<Longrightarrow> a \<in> S \<Longrightarrow> load32 m' a = v a"
  by (simp add: updates_def)

lemma updates_frame:
  assumes "updates m S v m'" "\<And>a. a \<in> S \<Longrightarrow> aligned4 a" "aligned4 c" "c \<notin> S"
  shows "load32 m' c = load32 m c"
  using assms entry_bytes_disjoint by (intro load32_cong) (fastforce simp: updates_def)

lemma updates_store32: "updates m {a} (\<lambda>_. c) (store32 m a c)"
  by (simp add: updates_def store32_outside)

lemma updates_trans:
  assumes "updates m S v m1" "updates m1 T w m2"
    and "\<And>a. a \<in> S \<union> T \<Longrightarrow> aligned4 a"
  shows "updates m (S \<union> T) (\<lambda>a. if a \<in> T then w a else v a) m2"
proof -
  have "load32 m2 a = v a" if "a \<in> S" "a \<notin> T" for a
    using updates_frame [OF assms(2), of a] updates_value [OF assms(1), of a] assms(3) that by simp
  then show ?thesis using assms(1,2) by (auto simp: updates_def)
qed

lemma updates_cong: "updates m S v m' \<Longrightarrow> (\<And>a. a \<in> S \<Longrightarrow> v a = w a) \<Longrightarrow> updates m S w m'"
  by (simp add: updates_def)

text \<open>
  A loop whose iterations write disjoint sets of entries: every iteration still finds the
  entries it writes as they were before the loop.
\<close>

lemma for_loop_updates:
  assumes "lo \<le> hi"
    and al: "\<And>i a. lo \<le> i \<Longrightarrow> i < hi \<Longrightarrow> a \<in> S i \<Longrightarrow> aligned4 a"
    and disj: "\<And>i j. lo \<le> i \<Longrightarrow> i < j \<Longrightarrow> j < hi \<Longrightarrow> S i \<inter> S j = {}"
    and step: "\<And>i m1. lo \<le> i \<Longrightarrow> i < hi \<Longrightarrow> \<forall>a\<in>S i. load32 m1 a = load32 m a \<Longrightarrow>
      \<exists>m'. body i m1 = Some m' \<and> updates m1 (S i) v m'"
  shows "\<exists>m'. for_loop lo hi body m = Some m' \<and> updates m (\<Union>i\<in>{lo..<hi}. S i) v m'"
proof (rule for_loop_rule [OF assms(1)])
  show "updates m (\<Union>i\<in>{lo..<lo}. S i) v m" by (simp add: updates_empty)
next
  fix i m1 assume i: "lo \<le> i" "i < hi" and I: "updates m (\<Union>i\<in>{lo..<i}. S i) v m1"
  have "\<forall>a\<in>S i. load32 m1 a = load32 m a"
  proof
    fix a assume a: "a \<in> S i"
    have "a \<notin> S k" if "lo \<le> k" "k < i" for k using disj [OF that i(2)] a by blast
    then have "a \<notin> (\<Union>i\<in>{lo..<i}. S i)" by auto
    moreover have "aligned4 c" if "c \<in> (\<Union>i\<in>{lo..<i}. S i)" for c using that al i by auto
    ultimately show "load32 m1 a = load32 m a" using al [OF i a] by (intro updates_frame [OF I]) blast+
  qed
  from step [OF i this] obtain m2 where m2: "body i m1 = Some m2" "updates m1 (S i) v m2" by blast
  have "updates m ((\<Union>i\<in>{lo..<i}. S i) \<union> S i) (\<lambda>a. if a \<in> S i then v a else v a) m2"
    using al i by (intro updates_trans [OF I m2(2)]) auto
  moreover have "(\<Union>i\<in>{lo..<i}. S i) \<union> S i = (\<Union>i\<in>{lo..<Suc i}. S i)"
    using i by (auto simp: atLeastLessThanSuc)
  ultimately show "\<exists>m'. body i m1 = Some m' \<and> updates m (\<Union>i\<in>{lo..<Suc i}. S i) v m'"
    using m2(1) by simp
qed

lemma store32_store32 [simp]: "store32 (store32 m a u) a v = store32 m a v"
  by (rule ext) (simp add: store32_def)

lemma store32_other:
  assumes "\<And>i. i < 4 \<Longrightarrow> b \<noteq> a + of_nat i"
  shows "store32 m a v b = m b"
  using assms [of 0] assms [of 1] assms [of 2] assms [of 3] by (simp add: store32_def)

subsection \<open>Ranges of bytes\<close>

lemma read_bytes_0 [simp]: "read_bytes m a 0 = []"
  by (simp add: read_bytes_def)

lemma length_read_bytes [simp]: "length (read_bytes m a n) = n"
  by (simp add: read_bytes_def)

lemma nth_read_bytes [simp]: "i < n \<Longrightarrow> read_bytes m a n ! i = m (a + of_nat i)"
  by (simp add: read_bytes_def)

lemma take_read_bytes: "k \<le> n \<Longrightarrow> take k (read_bytes m a n) = read_bytes m a k"
  by (rule nth_equalityI) simp_all

lemma read_bytes_Suc: "read_bytes m a (Suc n) = m a # read_bytes m (a + 1) n"
proof -
  have "[0..<Suc n] = 0 # map Suc [0..<n]" by (simp add: upt_conv_Cons map_Suc_upt)
  then show ?thesis by (simp add: read_bytes_def o_def add.assoc)
qed

lemma read_bytes_add:
  "read_bytes m a (k + n) = read_bytes m a k @ read_bytes m (a + of_nat k) n"
  by (induction k arbitrary: a) (simp_all add: read_bytes_Suc add.assoc)

lemma read_bytes_cong:
  "(\<And>i. i < n \<Longrightarrow> m' (a + of_nat i) = m (a + of_nat i)) \<Longrightarrow> read_bytes m' a n = read_bytes m a n"
  by (simp add: read_bytes_def)

lemma write_bytes_append:
  "write_bytes m a (bs @ cs) = write_bytes (write_bytes m a bs) (a + of_nat (length bs)) cs"
  by (induction bs arbitrary: m a) (simp_all add: add.assoc)

lemma write_bytes_other [zeos_mem]:
  "(\<And>i. i < length bs \<Longrightarrow> b \<noteq> a + of_nat i) \<Longrightarrow> write_bytes m a bs b = m b"
proof (induction bs arbitrary: m a)
  case Nil
  then show ?case by simp
next
  case (Cons c bs)
  have "b \<noteq> a + 1 + of_nat i" if "i < length bs" for i
    using Cons.prems [of "Suc i"] that by (simp add: add.assoc)
  then show ?case using Cons.IH Cons.prems [of 0] by simp
qed

lemma of_nat_inj32: "i < 2 ^ 32 \<Longrightarrow> j < 2 ^ 32 \<Longrightarrow> (of_nat i :: dword) = of_nat j \<longleftrightarrow> i = j"
  by (simp add: word_unat_eq_iff unat_of_nat)

lemma write_bytes_at [zeos_mem]:
  "i < length bs \<Longrightarrow> length bs \<le> 2 ^ 32 \<Longrightarrow> write_bytes m a bs (a + of_nat i) = bs ! i"
proof (induction bs arbitrary: m a i)
  case Nil
  then show ?case by simp
next
  case (Cons b bs)
  show ?case
  proof (cases i)
    case 0
    have "a \<noteq> a + 1 + of_nat j" if "j < length bs" for j
      using that Cons.prems(2) of_nat_inj32 [of 0 "Suc j"] by (auto simp: add.assoc)
    then show ?thesis using 0 by (simp add: write_bytes_other)
  next
    case (Suc j)
    then show ?thesis
      using Cons.IH [where m = "m(a := b)" and a = "a + 1" and i = j] Cons.prems
      by (simp add: add.assoc del: fun_upd_apply)
  qed
qed

lemma read_write_bytes [zeos_mem]:
  "length bs \<le> 2 ^ 32 \<Longrightarrow> read_bytes (write_bytes m a bs) a (length bs) = bs"
  by (rule nth_equalityI) (simp_all add: read_bytes_def write_bytes_at)

lemma read_write_bytes_part:
  assumes "k + n \<le> length bs" "length bs \<le> 2 ^ 32"
  shows "read_bytes (write_bytes m a bs) (a + of_nat k) n = take n (drop k bs)"
proof (rule nth_equalityI)
  show "length (read_bytes (write_bytes m a bs) (a + of_nat k) n) = length (take n (drop k bs))"
    using assms(1) by simp
  fix i assume "i < length (read_bytes (write_bytes m a bs) (a + of_nat k) n)"
  then have "i < n" by simp
  then show "read_bytes (write_bytes m a bs) (a + of_nat k) n ! i = take n (drop k bs) ! i"
    using write_bytes_at [of "k + i" bs m a] assms by (simp add: add.assoc)
qed

lemma store32_write_bytes:
  "store32 m a v = write_bytes m a
     [ucast v, ucast (drop_bit 8 v), ucast (drop_bit 16 v), ucast (drop_bit 24 v)]"
  by (simp add: store32_def add.assoc)

lemma load32_bytes:
  "[ucast (load32 m a), ucast (drop_bit 8 (load32 m a)), ucast (drop_bit 16 (load32 m a)),
    ucast (drop_bit 24 (load32 m a))] = read_bytes m a 4"
proof -
  have "ucast (load32 m a) = m a" "ucast (drop_bit 8 (load32 m a)) = m (a + 1)"
    "ucast (drop_bit 16 (load32 m a)) = m (a + 2)" "ucast (drop_bit 24 (load32 m a)) = m (a + 3)"
    by (rule bit_word_eqI; auto simp: load32_def bit_simps dest: bit_imp_le_length)+
  then show ?thesis by (simp add: numeral_eq_Suc read_bytes_Suc add.assoc)
qed

end
