(* ===== verification/Zeos_Utils.thy ===== *)
theory Zeos_Utils
  imports Zeos_Types Zeos_Memory
begin

text \<open>
  The helpers of \<^verbatim>\<open>utils.c\<close>: the three copy routines between user and kernel
  space, the check of a user pointer and the 64-by-32 bit division behind \<open>get_ticks\<close>.
  (\<open>itox\<close> is with the other number printers.)
\<close>

subsection \<open>Copying\<close>

text \<open>
  The three routines share their two loops: double words while more than four bytes are
  left, then single bytes. A state of the loops is the memory, the two pointers and the
  remaining size.
\<close>

function copy_dwords :: "mem \<Rightarrow> dword \<Rightarrow> dword \<Rightarrow> int \<Rightarrow> mem \<times> dword \<times> dword \<times> int" where
  "copy_dwords m p q sz =
     (if sz > 4 then copy_dwords (store32 m q (load32 m p)) (p + 4) (q + 4) (sz - 4)
      else (m, p, q, sz))"
  by pat_completeness auto
termination
  by (relation "measure (\<lambda>(m, p, q, sz). nat sz)") auto

function copy_bytes :: "mem \<Rightarrow> dword \<Rightarrow> dword \<Rightarrow> int \<Rightarrow> mem" where
  "copy_bytes m p1 q1 sz =
     (if sz > 0 then copy_bytes (m(q1 := m p1)) (p1 + 1) (q1 + 1) (sz - 1) else m)"
  by pat_completeness auto
termination
  by (relation "measure (\<lambda>(m, p, q, sz). nat sz)") auto

declare copy_dwords.simps [simp del] copy_bytes.simps [simp del]

definition copy_data :: "mem \<Rightarrow> dword \<Rightarrow> dword \<Rightarrow> int \<Rightarrow> mem" where
  "copy_data m start dest sz =
     (let (m, p, q, sz) = copy_dwords m start dest sz in copy_bytes m p q sz)"

definition copy_from_user :: "mem \<Rightarrow> dword \<Rightarrow> dword \<Rightarrow> int \<Rightarrow> mem \<times> int" where
  "copy_from_user m start dest sz =
     (let (m, p, q, sz) = copy_dwords m start dest sz in (copy_bytes m p q sz, 0))"

definition copy_to_user :: "mem \<Rightarrow> dword \<Rightarrow> dword \<Rightarrow> int \<Rightarrow> mem \<times> int" where
  "copy_to_user m start dest sz =
     (let (m, p, q, sz) = copy_dwords m start dest sz in (copy_bytes m p q sz, 0))"

subsection \<open>Checking a user pointer\<close>

definition VERIFY_READ :: int where [simp]: "VERIFY_READ = 0"
definition VERIFY_WRITE :: int where [simp]: "VERIFY_WRITE = 1"

text \<open>
  The \<open>switch\<close> of the source has no \<open>break\<close>: a write access that fails its own
  test continues with the test of the \<open>default\<close> label.
\<close>

definition access_ok :: "int \<Rightarrow> dword \<Rightarrow> dword \<Rightarrow> bool" where
  "access_ok type addr sz =
     (let addr_ini = drop_bit 12 addr;
          addr_fin = drop_bit 12 (addr + sz)
      in if addr_fin < addr_ini then False
         else if type = VERIFY_WRITE
              \<and> addr_ini \<ge> USER_FIRST_PAGE \<and> addr_fin \<le> USER_FIRST_PAGE + of_nat NUM_PAG_DATA
         then True
         else addr_ini \<ge> USER_FIRST_PAGE
              \<and> addr_fin \<le> USER_FIRST_PAGE + of_nat NUM_PAG_CODE + of_nat NUM_PAG_DATA)"

subsection \<open>Division of a 64-bit tick count\<close>

definition CYCLESPERTICK :: dword where [simp]: "CYCLESPERTICK = 109000"

text \<open>The instruction \<open>divl\<close>: no result where the processor raises a divide error.\<close>

definition divl :: "dword \<Rightarrow> dword \<Rightarrow> dword \<Rightarrow> (dword \<times> dword) option" where
  "divl base low upper =
     (let n = uint upper * 2 ^ 32 + uint low
      in if base = 0 \<or> n div uint base \<ge> 2 ^ 32 then None
         else Some (word_of_int (n div uint base), word_of_int (n mod uint base)))"

definition do_div :: "64 word \<Rightarrow> dword \<Rightarrow> (64 word \<times> dword) option" where
  "do_div n base =
     (let low = ucast n; high = ucast (drop_bit 32 n)
      in if high \<noteq> 0 \<and> base = 0 then None
         else let upper = (if high \<noteq> 0 then high mod base else high);
                  high = (if high \<noteq> 0 then high div base else high)
              in do {
                   (low, md) \<leftarrow> divl base low upper;
                   Some (push_bit 32 (ucast high) OR ucast low, md) })"

definition get_ticks :: "dword \<Rightarrow> dword \<Rightarrow> dword option" where
  "get_ticks eax edx =
     (let ticks = push_bit 32 (ucast edx) + ucast eax
      in do { (ticks, _) \<leftarrow> do_div ticks CYCLESPERTICK; Some (ucast ticks) })"

subsection \<open>Lemmas on copying\<close>

definition disjoint_ranges :: "dword \<Rightarrow> dword \<Rightarrow> nat \<Rightarrow> bool" where
  "disjoint_ranges p q n \<longleftrightarrow> (\<forall>i<n. \<forall>j<n. p + of_nat i \<noteq> q + of_nat j)"

lemma disjoint_ranges_shift:
  assumes "disjoint_ranges p q (k + n)"
  shows "disjoint_ranges (p + of_nat k) (q + of_nat k) n"
proof -
  have "p + of_nat (k + i) \<noteq> q + of_nat (k + j)" if "i < n" "j < n" for i j
    using assms that by (auto simp: disjoint_ranges_def)
  then show ?thesis by (simp add: disjoint_ranges_def add.assoc)
qed

lemma disjoint_rangesI:
  assumes "unat p + n \<le> unat q" "unat q + n \<le> 2 ^ 32"
  shows "disjoint_ranges p q n" and "disjoint_ranges q p n"
proof -
  have "unat (p + of_nat i) < unat (q + of_nat j)" if "i < n" "j < n" for i j
    using assms that by (simp add: unat_add_small)
  then have "p + of_nat i \<noteq> q + of_nat j" if "i < n" "j < n" for i j
    using that by (metis less_irrefl)
  then show "disjoint_ranges p q n" and "disjoint_ranges q p n"
    by (auto simp: disjoint_ranges_def) (metis)
qed

lemma write_read_chunk:
  assumes "disjoint_ranges p q (k + n)"
  shows "write_bytes (write_bytes m q (read_bytes m p k)) (q + of_nat k)
           (read_bytes (write_bytes m q (read_bytes m p k)) (p + of_nat k) n)
         = write_bytes m q (read_bytes m p (k + n))"
proof -
  have "p + of_nat (k + i) \<noteq> q + of_nat j" if "i < n" "j < k" for i j
    using assms that by (auto simp: disjoint_ranges_def simp del: of_nat_add)
  then have "read_bytes (write_bytes m q (read_bytes m p k)) (p + of_nat k) n
      = read_bytes m (p + of_nat k) n"
    by (intro read_bytes_cong write_bytes_other) (simp add: add.assoc)
  then show ?thesis by (simp add: read_bytes_add write_bytes_append)
qed

lemma copy_bytes_spec:
  "disjoint_ranges p q (nat sz) \<Longrightarrow>
     copy_bytes m p q sz = write_bytes m q (read_bytes m p (nat sz))"
proof (induction m p q sz rule: copy_bytes.induct)
  case (1 m p q sz)
  show ?case
  proof (cases "sz > 0")
    case True
    then have n: "nat sz = 1 + nat (sz - 1)" by simp
    from 1(2) have d: "disjoint_ranges p q (1 + nat (sz - 1))" by (simp only: n)
    have "copy_bytes m p q sz = copy_bytes (m(q := m p)) (p + 1) (q + 1) (sz - 1)"
      using True by (simp add: copy_bytes.simps [of m p q sz])
    also have "\<dots> = write_bytes (m(q := m p)) (q + 1) (read_bytes (m(q := m p)) (p + 1) (nat (sz - 1)))"
      using 1(1) [OF True] disjoint_ranges_shift [OF d] by (simp add: fun_upd_def)
    also have "\<dots> = write_bytes m q (read_bytes m p (nat sz))"
      using write_read_chunk [OF d, of m] by (simp only: n) (simp add: read_bytes_Suc)
    finally show ?thesis .
  next
    case False
    then show ?thesis by (simp add: copy_bytes.simps [of m p q sz])
  qed
qed

lemma copy_loops_spec:
  "disjoint_ranges p q (nat sz) \<Longrightarrow>
     (let (m', p', q', sz') = copy_dwords m p q sz in copy_bytes m' p' q' sz')
       = write_bytes m q (read_bytes m p (nat sz))"
proof (induction m p q sz rule: copy_dwords.induct)
  case (1 m p q sz)
  show ?case
  proof (cases "sz > 4")
    case True
    then have n: "nat sz = 4 + nat (sz - 4)" by simp
    from 1(2) have d: "disjoint_ranges p q (4 + nat (sz - 4))" by (simp only: n)
    have step: "store32 m q (load32 m p) = write_bytes m q (read_bytes m p 4)"
      unfolding store32_write_bytes load32_bytes ..
    have "(let (m', p', q', sz') = copy_dwords m p q sz in copy_bytes m' p' q' sz')
        = (let (m', p', q', sz') = copy_dwords (store32 m q (load32 m p)) (p + 4) (q + 4) (sz - 4)
           in copy_bytes m' p' q' sz')"
      using True by (simp add: copy_dwords.simps [of m p q sz])
    also have "\<dots> = write_bytes (write_bytes m q (read_bytes m p 4)) (q + 4)
        (read_bytes (write_bytes m q (read_bytes m p 4)) (p + 4) (nat (sz - 4)))"
      using 1(1) [OF True] disjoint_ranges_shift [OF d] by (simp add: step)
    also have "\<dots> = write_bytes m q (read_bytes m p (nat sz))"
      using write_read_chunk [OF d, of m] by (simp only: n) simp
    finally show ?thesis .
  next
    case False
    then show ?thesis using 1(2) by (simp add: copy_dwords.simps [of m p q sz] copy_bytes_spec)
  qed
qed

lemma copy_data_spec:
  "disjoint_ranges p q (nat sz) \<Longrightarrow> copy_data m p q sz = write_bytes m q (read_bytes m p (nat sz))"
  unfolding copy_data_def by (rule copy_loops_spec)

lemma copy_from_user_eq: "copy_from_user m p q sz = (copy_data m p q sz, 0)"
  and copy_to_user_eq: "copy_to_user m p q sz = (copy_data m p q sz, 0)"
  by (simp_all add: copy_from_user_def copy_to_user_def copy_data_def split_beta Let_def)

lemma copy_data_nothing: "sz \<le> 0 \<Longrightarrow> copy_data m p q sz = m"
  by (simp add: copy_data_def copy_dwords.simps [of m p q sz] copy_bytes.simps [of m p q sz])

subsection \<open>Lemmas on the pointer check\<close>

lemma uint_page: "uint (drop_bit 12 (a :: dword)) = uint a div 4096"
  by (simp add: drop_bit_eq_div uint_div)

lemma access_ok_pages:
  "access_ok type addr sz \<longleftrightarrow>
     (let fin = (uint addr + uint sz) mod 2 ^ 32
      in 256 \<le> uint addr div 4096 \<and> uint addr div 4096 \<le> fin div 4096 \<and> fin div 4096 \<le> 284)"
  by (auto simp: access_ok_def Let_def word_le_def word_less_def uint_page uint_word_ariths)

lemma access_ok_range:
  assumes "uint sz < 2 ^ 31"
  shows "access_ok type addr sz \<longleftrightarrow> 0x100000 \<le> uint addr \<and> uint addr + uint sz < 0x11D000"
proof -
  have a: "0 \<le> uint addr" "uint addr < 2 ^ 32" "0 \<le> uint sz"
    using uint_lt2p [of addr] by simp_all
  show ?thesis
  proof (cases "uint addr + uint sz < 2 ^ 32")
    case True
    then have "(uint addr + uint sz) mod 2 ^ 32 = uint addr + uint sz"
      using a by (intro mod_pos_pos_trivial) auto
    moreover have "uint addr div 4096 \<le> (uint addr + uint sz) div 4096"
      using a by (intro zdiv_mono1) auto
    ultimately show ?thesis using a by (auto simp: access_ok_pages Let_def)
  next
    case False
    then have "(uint addr + uint sz) mod 2 ^ 32 = (uint addr + uint sz - 2 ^ 32) mod 2 ^ 32"
      by (intro mod_pos_geq) auto
    also have "\<dots> = uint addr + uint sz - 2 ^ 32"
      using a assms False by (intro mod_pos_pos_trivial) auto
    finally have "(uint addr + uint sz) mod 2 ^ 32 = uint addr + uint sz - 2 ^ 32" .
    then show ?thesis using a assms False by (auto simp: access_ok_pages Let_def)
  qed
qed

subsection \<open>Lemmas on the division\<close>

lemma int_div_bound:
  fixes x B c :: int
  assumes "0 < B" "x < B * c"
  shows "x div B < c"
proof (rule ccontr)
  assume "\<not> x div B < c"
  then have "B * c \<le> B * (x div B)" using assms(1) by simp
  also have "\<dots> \<le> x" using assms(1) by (simp add: minus_mod_eq_mult_div [symmetric])
  finally show False using assms(2) by simp
qed

lemma div_upper_bound:
  assumes "uint (upper :: dword) < B"
  shows "0 \<le> (uint upper * 2 ^ 32 + uint (low :: dword)) div B"
    and "(uint upper * 2 ^ 32 + uint low) div B < 2 ^ 32"
proof -
  have B: "0 < B" using assms uint_ge_0 [of upper] by linarith
  then show "0 \<le> (uint upper * 2 ^ 32 + uint low) div B"
    by (simp add: pos_imp_zdiv_nonneg_iff)
  have "uint upper * 2 ^ 32 + uint low < B * 2 ^ 32"
    using assms uint_lt2p [of low] by simp
  with B show "(uint upper * 2 ^ 32 + uint low) div B < 2 ^ 32" by (rule int_div_bound)
qed

lemma divl_exact:
  assumes "uint upper < uint base"
  shows "divl base low upper = Some (word_of_int ((uint upper * 2 ^ 32 + uint low) div uint base),
    word_of_int ((uint upper * 2 ^ 32 + uint low) mod uint base))"
  using div_upper_bound [OF assms, of low] assms uint_ge_0 [of upper]
  by (auto simp: divl_def Let_def)

lemma uint_halves:
  "uint (push_bit 32 (ucast (a :: dword)) OR ucast (b :: dword) :: 64 word) = uint a * 2 ^ 32 + uint b"
proof -
  have "uint (push_bit 32 (ucast a) OR ucast b :: 64 word) = concat_bit 32 (uint b) (uint a)"
    by (rule bit_eqI) (auto simp: bit_simps bit_concat_bit_iff dest: bit_imp_le_length)
  also have "\<dots> = uint a * 2 ^ 32 + uint b"
    using uint_lt2p [of b] by (simp add: concat_bit_eq push_bit_eq_mult take_bit_int_eq_self)
  finally show ?thesis .
qed

lemma halves_of: "(n :: 64 word) = push_bit 32 (ucast (ucast (drop_bit 32 n) :: dword)) OR ucast (ucast n :: dword)"
  by (rule bit_word_eqI) (auto simp: bit_simps)

lemma div_two_steps:
  fixes B H L c :: int
  assumes "0 < B"
  shows "(H * c + L) div B = H div B * c + (H mod B * c + L) div B"
    and "(H * c + L) mod B = (H mod B * c + L) mod B"
proof -
  have "H * c = (H div B * B + H mod B) * c" by simp
  then have split: "H * c + L = H mod B * c + L + H div B * c * B"
    by (simp only: algebra_simps)
  show "(H * c + L) div B = H div B * c + (H mod B * c + L) div B"
    using assms by (subst split, subst div_mult_self1) simp_all
  show "(H * c + L) mod B = (H mod B * c + L) mod B"
    by (subst split) (simp only: mod_mult_self1)
qed

lemma do_div_spec:
  assumes "base \<noteq> 0"
  shows "do_div n base = Some (n div ucast base, ucast (n mod ucast base))"
proof -
  define high :: dword where "high = ucast (drop_bit 32 n)"
  define low :: dword where "low = ucast n"
  have n: "uint n = uint high * 2 ^ 32 + uint low"
    using halves_of [of n] uint_halves [of high low] by (simp add: high_def low_def)
  have B: "0 < uint base" using assms uint_ge_0 [of base] by (metis uint_0_iff order_less_le)
  have up: "(if high \<noteq> 0 then high mod base else high) = high mod base"
    and hi: "(if high \<noteq> 0 then high div base else high) = high div base" by auto
  have lt: "uint (high mod base) < uint base" using B by (simp add: uint_mod)
  let ?q = "(uint (high mod base) * 2 ^ 32 + uint low) div uint base"
  have base64: "uint (ucast base :: 64 word) = uint base"
    by (simp add: uint_up_ucast is_up)
  have "uint (push_bit 32 (ucast (high div base)) OR ucast (word_of_int ?q :: dword) :: 64 word)
      = uint (high div base) * 2 ^ 32 + ?q"
    using div_upper_bound [OF lt, of low] by (simp add: uint_halves uint_of_small)
  also have "\<dots> = uint (n div ucast base)"
    unfolding uint_div uint_mod base64 n by (rule div_two_steps(1) [OF B, symmetric])
  finally have quot: "uint (push_bit 32 (ucast (high div base)) OR ucast (word_of_int ?q :: dword) :: 64 word)
      = uint (n div ucast base)" .
  moreover have "(uint (high mod base) * 2 ^ 32 + uint low) mod uint base
      = uint (ucast (n mod ucast base) :: dword)"
  proof -
    have "uint n mod uint base < 2 ^ 32" "0 \<le> uint n mod uint base"
      using B uint_lt2p [of base] pos_mod_bound [OF B, of "uint n"] by (simp, linarith, simp)
    moreover have "uint (ucast (n mod ucast base) :: dword) = take_bit 32 (uint n mod uint base)"
      unfolding unsigned_ucast_eq [of "n mod ucast base"] uint_mod base64 by simp
    ultimately show ?thesis
      using div_two_steps(2) [OF B, of "uint high" "2 ^ 32" "uint low"]
      by (simp add: n uint_mod take_bit_int_eq_self)
  qed
  ultimately show ?thesis
    using assms divl_exact [OF lt, of low] word_uint_eq_iff [THEN iffD2, OF quot]
    unfolding do_div_def Let_def high_def [symmetric] low_def [symmetric] up hi by simp
qed

subsection \<open>Properties\<close>

text \<open>
  C22. The copy routines copy exactly \<open>n\<close> bytes between ranges that do not overlap, for
  every \<open>n\<close> an \<open>int\<close> can hold: the destination then holds the bytes of the
  source, every address outside the destination keeps its byte, and the two user-space
  variants return 0. A size that is not positive copies nothing.
\<close>

theorem copy_exact:
  assumes "disjoint_ranges start dest n" "int_range (int n)"
  shows "copy_from_user m start dest (int n) = (copy_data m start dest (int n), 0)
      \<and> copy_to_user m start dest (int n) = (copy_data m start dest (int n), 0)
      \<and> read_bytes (copy_data m start dest (int n)) dest n = read_bytes m start n
      \<and> (\<forall>a. (\<forall>i<n. a \<noteq> dest + of_nat i) \<longrightarrow> copy_data m start dest (int n) a = m a)
      \<and> (sz \<le> 0 \<longrightarrow> copy_data m start dest sz = m)"
proof -
  have c: "copy_data m start dest (int n) = write_bytes m dest (read_bytes m start n)"
    using assms(1) by (simp add: copy_data_spec)
  have "read_bytes (copy_data m start dest (int n)) dest n = read_bytes m start n"
    using read_write_bytes [of "read_bytes m start n" m dest] assms(2)
    by (simp add: c int_range_def)
  moreover have "\<forall>a. (\<forall>i<n. a \<noteq> dest + of_nat i) \<longrightarrow> copy_data m start dest (int n) a = m a"
    unfolding c by (intro allI impI write_bytes_other) simp
  ultimately show ?thesis
    by (simp add: copy_from_user_eq copy_to_user_eq copy_data_nothing)
qed

theorem copy_exact_witness:
  "read_bytes (copy_data (\<lambda>a. if a = 0x10003 then 42 else 0) 0x10000 0x100000 (int 7)) 0x100000 7
     = [0, 0, 0, 42, 0, 0, 0]"
  using copy_exact [OF disjoint_rangesI(1), of "0x10000" 7 "0x100000" "\<lambda>a. if a = 0x10003 then 42 else 0" 0]
  by (simp add: int_range_def read_bytes_def upt_rec)



text \<open>
  Where \<open>access_ok\<close> is more permissive than its comment: the write test falls
  through to the read test, so the two never differ and a write to a code page is accepted;
  a block that lies in the unmapped page after the code is accepted; and a size close to
  \<open>2^32\<close> that wraps around within the page of the start address is accepted.
\<close>

theorem access_ok_permissive:
  "access_ok VERIFY_WRITE addr sz = access_ok VERIFY_READ addr sz
      \<and> access_ok VERIFY_WRITE 0x114000 4
      \<and> access_ok VERIFY_READ 0x11C000 0xFFF
      \<and> access_ok VERIFY_READ 0x100010 0xFFFFFFF8"
proof -
  have "access_ok VERIFY_WRITE addr sz = access_ok VERIFY_READ addr sz"
    by (simp only: access_ok_pages)
  then show ?thesis by (simp add: access_ok_def)
qed

text \<open>
  C38. \<open>do_div\<close> divides a 64-bit number by a non-zero 32-bit base exactly: it returns the
  remainder, leaves the full 64-bit quotient in place, and its two-step division never
  raises the divide error of \<open>divl\<close>. So \<open>get_ticks\<close> always has a result: the low
  32 bits of the time stamp counter divided by \<open>CYCLESPERTICK\<close>.
\<close>

theorem do_div_exact:
  "(base \<noteq> 0 \<longrightarrow> do_div n base = Some (n div ucast base, ucast (n mod ucast base)))
      \<and> get_ticks eax edx = Some (ucast ((push_bit 32 (ucast edx) + ucast eax :: 64 word) div 109000))"
  using do_div_spec [of base n] do_div_spec [of CYCLESPERTICK]
  by (simp add: get_ticks_def Let_def)

theorem do_div_exact_witness: "do_div 0x500000007 0x10 = Some (0x50000000, 7)"
  using do_div_exact [of "0x10" "0x500000007"] by simp

end
