(* ===== verification/Zeos_Text.thy ===== *)
theory Zeos_Text
  imports Zeos_Prelude
begin

text \<open>
  The number printers: \<open>itoa\<close> of \<^verbatim>\<open>libc.c\<close>, its kernel twin \<open>__itoa\<close> of
  \<^verbatim>\<open>io.c\<close> (here \<open>kitoa\<close>) and \<open>itox\<close> of \<^verbatim>\<open>utils.c\<close>. Each writes
  its digits backwards into the caller's buffer, reverses them in place and appends the
  terminator. The buffer is the array object the pointer points into, and an access
  outside it has no result. The loops are proved once, in the locale \<open>radix_printer\<close>,
  and interpreted for base 10 and base 16.
\<close>

subsection \<open>The printers\<close>

text \<open>The loop \<open>while (a>0)\<close> of the decimal printers.\<close>

function itoa_loop :: "int \<Rightarrow> nat \<Rightarrow> byte list \<Rightarrow> (nat \<times> byte list) option" where
  "itoa_loop a i b =
     (if a > 0 then do {
        b \<leftarrow> wr b i (word_of_int (a mod 10) + 48);
        itoa_loop (a div 10) (i + 1) b }
      else Some (i, b))"
  by pat_completeness auto
termination
  by (relation "measure (\<lambda>(a, i, b). nat a)") auto

text \<open>The loop of \<open>itox\<close>, which patches the digits above \<open>'9'\<close>.\<close>

function itox_loop :: "int \<Rightarrow> nat \<Rightarrow> byte list \<Rightarrow> (nat \<times> byte list) option" where
  "itox_loop a i b =
     (if a > 0 then do {
        b \<leftarrow> wr b i (word_of_int (a mod 16) + 48);
        c \<leftarrow> rd b i;
        b \<leftarrow> (if 57 <s c then wr b i (c - (57 + 1) + 65) else Some b);
        itox_loop (a div 16) (i + 1) b }
      else Some (i, b))"
  by pat_completeness auto
termination
  by (relation "measure (\<lambda>(a, i, b). nat a)") auto

text \<open>The in-place reversal of the first \<open>i\<close> characters.\<close>

function swap_loop :: "nat \<Rightarrow> nat \<Rightarrow> byte list \<Rightarrow> byte list option" where
  "swap_loop i1 i b =
     (if i1 < i div 2 then do {
        c \<leftarrow> rd b i1;
        d \<leftarrow> rd b (i - i1 - 1);
        b \<leftarrow> wr b i1 d;
        b \<leftarrow> wr b (i - i1 - 1) c;
        swap_loop (i1 + 1) i b }
      else Some b)"
  by pat_completeness auto
termination
  by (relation "measure (\<lambda>(i1, i, b). i div 2 - i1)") auto

declare itoa_loop.simps [simp del] itox_loop.simps [simp del] swap_loop.simps [simp del]

definition itoa :: "int \<Rightarrow> byte list \<Rightarrow> byte list option" where
  "itoa a b =
     (if a = 0 then do { b \<leftarrow> wr b 0 48; wr b 1 0 }
      else do {
        (i, b) \<leftarrow> itoa_loop a 0 b;
        b \<leftarrow> swap_loop 0 i b;
        wr b i 0 })"

definition kitoa :: "int \<Rightarrow> byte list \<Rightarrow> byte list option" where
  "kitoa a b =
     (if a = 0 then do { b \<leftarrow> wr b 0 48; wr b 1 0 }
      else do {
        (i, b) \<leftarrow> itoa_loop a 0 b;
        b \<leftarrow> swap_loop 0 i b;
        wr b i 0 })"

definition itox :: "int \<Rightarrow> byte list \<Rightarrow> byte list option" where
  "itox a b =
     (if a = 0 then do { b \<leftarrow> wr b 0 48; wr b 1 0 }
      else do {
        (i, b) \<leftarrow> itox_loop a 0 b;
        b \<leftarrow> swap_loop 0 i b;
        wr b i 0 })"

subsection \<open>Specification\<close>

text \<open>The string a character array holds: the bytes before the first terminator.\<close>

definition cstring :: "byte list \<Rightarrow> byte list option" where
  "cstring b = (if 0 \<in> set b then Some (takeWhile (\<lambda>c. c \<noteq> 0) b) else None)"

text \<open>The digits of a number, least significant first, and the value of a numeral.\<close>

function radix_digits :: "int \<Rightarrow> int \<Rightarrow> int list" where
  "radix_digits base a =
     (if 1 < base \<and> 0 < a then a mod base # radix_digits base (a div base) else [])"
  by pat_completeness auto
termination
  by (relation "measure (\<lambda>(base, a). nat a)") (auto simp: div_int_pos_iff intro!: int_div_less_self)

declare radix_digits.simps [simp del]

definition dec_char :: "int \<Rightarrow> byte" where
  "dec_char d = word_of_int d + 48"

definition hex_char :: "int \<Rightarrow> byte" where
  "hex_char d = (if d < 10 then word_of_int d + 48 else word_of_int d - 10 + 65)"

definition char_value :: "byte \<Rightarrow> int" where
  "char_value c = (if uint c < 58 then uint c - 48 else uint c - 55)"

definition numeral_text :: "int \<Rightarrow> (int \<Rightarrow> byte) \<Rightarrow> int \<Rightarrow> byte list" where
  "numeral_text base enc a = (if a = 0 then [48] else rev (map enc (radix_digits base a)))"

definition text_value :: "int \<Rightarrow> byte list \<Rightarrow> int" where
  "text_value base t = foldl (\<lambda>v c. v * base + char_value c) 0 t"

subsection \<open>Digits\<close>

lemma radix_digits_nonpos [simp]: "a \<le> 0 \<Longrightarrow> radix_digits base a = []"
  by (simp add: radix_digits.simps)

lemma radix_digits_step:
  "1 < base \<Longrightarrow> 0 < a \<Longrightarrow> radix_digits base a = a mod base # radix_digits base (a div base)"
  by (simp add: radix_digits.simps [of base a])

lemma radix_digits_range: "d \<in> set (radix_digits base a) \<Longrightarrow> 0 \<le> d \<and> d < base"
proof (induction base a rule: radix_digits.induct)
  case (1 base a)
  then show ?case
    by (cases "1 < base \<and> 0 < a") (auto simp: radix_digits.simps [of base a])
qed

lemma radix_digits_length: "1 < base \<Longrightarrow> a < base ^ k \<Longrightarrow> length (radix_digits base a) \<le> k"
proof (induction k arbitrary: a)
  case 0
  then show ?case by simp
next
  case (Suc k)
  show ?case
  proof (cases "0 < a")
    case True
    have "a div base < base ^ k"
    proof (rule ccontr)
      assume "\<not> a div base < base ^ k"
      then have "base * base ^ k \<le> base * (a div base)" using Suc.prems(1) by simp
      also have "\<dots> \<le> a" using Suc.prems(1) by (simp add: minus_mod_eq_mult_div [symmetric])
      finally show False using Suc.prems(2) by simp
    qed
    with Suc True show ?thesis by (simp add: radix_digits_step)
  qed simp
qed

lemma radix_digits_value:
  assumes "1 < base" "0 \<le> a"
  shows "foldr (\<lambda>d v. v * base + d) (radix_digits base a) 0 = a"
  using assms
proof (induction base a rule: radix_digits.induct)
  case (1 base a)
  show ?case
  proof (cases "0 < a")
    case True
    with 1 have "foldr (\<lambda>d v. v * base + d) (radix_digits base (a div base)) 0 = a div base"
      by (simp add: pos_imp_zdiv_nonneg_iff)
    with 1 True show ?thesis by (simp add: radix_digits_step)
  qed (use 1 in simp)
qed

lemma radix_digits_last:
  assumes "1 < base" "0 < a"
  shows "radix_digits base a \<noteq> [] \<and> last (radix_digits base a) \<noteq> 0"
  using assms
proof (induction base a rule: radix_digits.induct)
  case (1 base a)
  show ?case
  proof (cases "0 < a div base")
    case True
    with 1 show ?thesis by (simp add: radix_digits_step)
  next
    case False
    with 1(2,3) have "a div base = 0" by (simp add: pos_imp_zdiv_pos_iff zdiv_eq_0_iff)
    with 1(2,3) have "a mod base = a" using div_mult_mod_eq [of a base] by simp
    with 1(2,3) False show ?thesis by (simp add: radix_digits_step)
  qed
qed

subsection \<open>Reversal\<close>

lemma swap_loop_nth:
  "i \<le> length b \<Longrightarrow> \<exists>b'. swap_loop i1 i b = Some b' \<and> length b' = length b
     \<and> (\<forall>k<length b. b' ! k = (if i1 \<le> k \<and> k < i - i1 then b ! (i - 1 - k) else b ! k))"
proof (induction i1 i b rule: swap_loop.induct)
  case (1 i1 i b)
  show ?case
  proof (cases "i1 < i div 2")
    case True
    then have lt: "i1 < length b" "i - i1 - 1 < length b" "i1 < i - i1 - 1" using 1(2) by linarith+
    let ?b = "b[i1 := b ! (i - i1 - 1), i - i1 - 1 := b ! i1]"
    have run: "swap_loop i1 i b = swap_loop (i1 + 1) i ?b"
      using True lt by (simp add: swap_loop.simps [of i1 i b])
    have "\<exists>b'. swap_loop (i1 + 1) i ?b = Some b' \<and> length b' = length ?b
     \<and> (\<forall>k<length ?b. b' ! k = (if i1 + 1 \<le> k \<and> k < i - (i1 + 1) then ?b ! (i - 1 - k) else ?b ! k))"
      using True lt "1.prems"
      by (intro "1.IH" [of "b ! i1" "b ! (i - i1 - 1)" "b[i1 := b ! (i - i1 - 1)]"]) simp_all
    then obtain b' where b': "swap_loop (i1 + 1) i ?b = Some b'" "length b' = length b"
      "\<And>k. k < length b \<Longrightarrow> b' ! k = (if i1 + 1 \<le> k \<and> k < i - (i1 + 1) then ?b ! (i - 1 - k) else ?b ! k)"
      by auto
    have "b' ! k = (if i1 \<le> k \<and> k < i - i1 then b ! (i - 1 - k) else b ! k)" if "k < length b" for k
    proof -
      consider "k = i1" | "k = i - i1 - 1" "k \<noteq> i1" | "i1 < k" "k < i - i1 - 1" | "k < i1" | "i - i1 \<le> k"
        by linarith
      then show ?thesis using b'(3) [OF that] lt that by cases (auto simp: nth_list_update)
    qed
    then show ?thesis using run b' by auto
  next
    case False
    then have "(if i1 \<le> k \<and> k < i - i1 then b ! (i - 1 - k) else b ! k) = b ! k" for k
      by (cases "i1 \<le> k \<and> k < i - i1") (auto intro!: arg_cong [where f = "nth b"])
    with False show ?thesis by (simp add: swap_loop.simps [of i1 i b])
  qed
qed

lemma swap_loop_rev: "swap_loop 0 (length ds) (ds @ r) = Some (rev ds @ r)"
proof -
  obtain b' where b': "swap_loop 0 (length ds) (ds @ r) = Some b'" "length b' = length (ds @ r)"
    "\<And>k. k < length (ds @ r) \<Longrightarrow>
       b' ! k = (if k < length ds then (ds @ r) ! (length ds - 1 - k) else (ds @ r) ! k)"
    using swap_loop_nth [of "length ds" "ds @ r" 0] by auto
  have "b' = rev ds @ r"
    using b'(2,3) by (intro nth_equalityI) (auto simp: nth_append rev_nth)
  with b'(1) show ?thesis by simp
qed

subsection \<open>Interface of a printer loop\<close>

text \<open>
  What the two loops share: they divide by the base and store the encoded remainder. The
  encoding is one the value function reads back, and never the terminator.
\<close>

locale radix_printer =
  fixes base :: int
    and enc :: "int \<Rightarrow> byte"
    and loop :: "int \<Rightarrow> nat \<Rightarrow> byte list \<Rightarrow> (nat \<times> byte list) option"
  assumes base: "1 < base"
    and loop_eq: "loop a i b =
      (if a > 0 then do { b \<leftarrow> wr b i (enc (a mod base)); loop (a div base) (i + 1) b }
       else Some (i, b))"
    and char_value_enc: "0 \<le> d \<Longrightarrow> d < base \<Longrightarrow> char_value (enc d) = d"
    and enc_nonzero: "0 \<le> d \<Longrightarrow> d < base \<Longrightarrow> enc d \<noteq> 0"
begin

lemma digits_cases:
  obtains "a \<le> 0" "radix_digits base a = []"
  | "0 < a" "radix_digits base a = a mod base # radix_digits base (a div base)"
  using base by (cases "0 < a") (auto simp: radix_digits_step)

lemma loop_fits:
  assumes "i + length (radix_digits base a) \<le> length b"
  shows "loop a i b = Some (i + length (radix_digits base a),
       take i b @ map enc (radix_digits base a) @ drop (i + length (radix_digits base a)) b)"
  using assms
proof (induction "radix_digits base a" arbitrary: a i b)
  case Nil
  then have "a \<le> 0" by (cases a rule: digits_cases) auto
  then show ?case by (subst loop_eq) simp
next
  case (Cons d ds)
  then have a: "0 < a" "d = a mod base" "ds = radix_digits base (a div base)"
    by (cases a rule: digits_cases; simp)+
  have len: "length (radix_digits base a) = Suc (length ds)" using Cons(2) by (metis length_Cons)
  have i: "i < length b" using Cons(3) len by simp
  have "loop a i b = loop (a div base) (i + 1) (b[i := enc (a mod base)])"
    using a i by (subst loop_eq) simp
  also have "\<dots> = Some (i + 1 + length ds, take (i + 1) (b[i := enc (a mod base)]) @ map enc ds
      @ drop (i + 1 + length ds) (b[i := enc (a mod base)]))"
    using Cons(1) [OF a(3), of "i + 1" "b[i := enc (a mod base)]"] Cons(3) len a(3) by simp
  also have "take (i + 1) (b[i := enc (a mod base)]) = take i b @ [enc d]"
    using i a(2) by (simp add: take_Suc_conv_app_nth)
  finally show ?case using Cons(2) [symmetric] len by simp
qed

lemma loop_overflow:
  assumes "i \<le> length b" "length b < i + length (radix_digits base a)"
  shows "loop a i b = None"
  using assms
proof (induction "radix_digits base a" arbitrary: a i b)
  case Nil
  then show ?case by simp
next
  case (Cons d ds)
  then have a: "0 < a" "ds = radix_digits base (a div base)"
    by (cases a rule: digits_cases; simp)+
  have len: "length (radix_digits base a) = Suc (length ds)" using Cons(2) by (metis length_Cons)
  show ?case
  proof (cases "i < length b")
    case True
    then have "loop (a div base) (i + 1) (b[i := enc (a mod base)]) = None"
      using Cons(1) [OF a(2), of "i + 1" "b[i := enc (a mod base)]"] Cons(4) len a(2) by simp
    with True a show ?thesis by (subst loop_eq) simp
  next
    case False
    with a show ?thesis by (subst loop_eq) simp
  qed
qed

text \<open>The whole printer after the test for zero.\<close>

lemma printer_fits:
  assumes "length (radix_digits base a) < length b"
  shows "do { (i, b) \<leftarrow> loop a 0 b; b \<leftarrow> swap_loop 0 i b; wr b i 0 }
     = Some (rev (map enc (radix_digits base a)) @ 0 # drop (Suc (length (radix_digits base a))) b)"
proof -
  let ?ds = "map enc (radix_digits base a)"
  have "loop a 0 b = Some (length ?ds, ?ds @ drop (length ?ds) b)"
    using assms loop_fits [of 0 a b] by simp
  moreover have "wr (rev ?ds @ drop (length ?ds) b) (length ?ds) 0
      = Some (rev ?ds @ 0 # drop (Suc (length ?ds)) b)"
    using assms by (simp add: list_update_append Cons_nth_drop_Suc [symmetric])
  ultimately show ?thesis using swap_loop_rev [of ?ds] by simp
qed

lemma printer_overflow:
  assumes "length b \<le> length (radix_digits base a)"
  shows "do { (i, b) \<leftarrow> loop a 0 b; b \<leftarrow> swap_loop 0 i b; wr b i 0 } = None"
proof (cases "length b = length (radix_digits base a)")
  case True
  then have "loop a 0 b = Some (length (map enc (radix_digits base a)), map enc (radix_digits base a) @ [])"
    using loop_fits [of 0 a b] by simp
  then show ?thesis
    using swap_loop_rev [of "map enc (radix_digits base a)" "[]"] by simp
next
  case False
  then show ?thesis using assms loop_overflow [of 0 b a] by simp
qed

lemma printer_spec:
  "(if a = 0 then do { b \<leftarrow> wr b 0 48; wr b 1 0 }
      else do { (i, b) \<leftarrow> loop a 0 b; b \<leftarrow> swap_loop 0 i b; wr b i 0 })
   = (if length (numeral_text base enc a) < length b
      then Some (numeral_text base enc a @ 0 # drop (Suc (length (numeral_text base enc a))) b)
      else None)"
proof (cases "a = 0")
  case True
  then show ?thesis
    by (cases b; cases "tl b") (auto simp: numeral_text_def)
next
  case False
  then show ?thesis
    using printer_fits [of a b] printer_overflow [of b a] by (simp add: numeral_text_def)
qed

lemma numeral_text_nonzero: "1 < base \<Longrightarrow> c \<in> set (numeral_text base enc a) \<Longrightarrow> c \<noteq> 0"
  using radix_digits_range [of _ base a] enc_nonzero
  by (auto simp: numeral_text_def split: if_splits)

lemma text_value_digits:
  assumes "0 \<le> a"
  shows "text_value base (rev (map enc (radix_digits base a))) = a"
proof -
  have "foldr (\<lambda>d v. v * base + char_value (enc d)) (radix_digits base a) 0
      = foldr (\<lambda>d v. v * base + d) (radix_digits base a) 0"
    by (rule foldr_cong) (auto dest: radix_digits_range simp: char_value_enc)
  then show ?thesis
    using radix_digits_value [OF base assms]
    by (simp add: text_value_def foldl_conv_foldr foldr_map o_def)
qed

end

lemma dec_char_small: "0 \<le> d \<Longrightarrow> d < 10 \<Longrightarrow> uint (dec_char d) = d + 48"
  by (simp add: dec_char_def uint_word_ariths uint_word_of_int_eq take_bit_eq_mod)

lemma hex_char_small:
  "0 \<le> d \<Longrightarrow> d < 16 \<Longrightarrow> uint (hex_char d) = (if d < 10 then d + 48 else d + 55)"
  by (simp add: hex_char_def uint_word_ariths uint_word_of_int_eq take_bit_eq_mod mod_simps)

lemma hex_patch:
  assumes "0 \<le> d" "d < 16"
  shows "(let c = word_of_int d + 48 :: byte in if 57 <s c then c - (57 + 1) + 65 else c) = hex_char d"
proof -
  have "d \<in> {0, 1, 2, 3, 4, 5, 6, 7, 8, 9, 10, 11, 12, 13, 14, 15}"
    unfolding insert_iff empty_iff using assms by presburger
  then show ?thesis by (auto simp: hex_char_def Let_def word_sless_alt)
qed

interpretation dec: radix_printer 10 dec_char itoa_loop
proof unfold_locales
  show "itoa_loop a i b =
      (if a > 0 then do { b \<leftarrow> wr b i (dec_char (a mod 10)); itoa_loop (a div 10) (i + 1) b }
       else Some (i, b))" for a i b
    by (simp add: itoa_loop.simps [of a i b] dec_char_def)
qed (auto simp: char_value_def dec_char_small word_uint_eq_iff)

interpretation hex: radix_printer 16 hex_char itox_loop
proof unfold_locales
  show "itox_loop a i b =
      (if a > 0 then do { b \<leftarrow> wr b i (hex_char (a mod 16)); itox_loop (a div 16) (i + 1) b }
       else Some (i, b))" for a i b
    using hex_patch [of "a mod 16"]
    by (cases "i < length b") (auto simp: itox_loop.simps [of a i b] Let_def)
qed (auto simp: char_value_def hex_char_small word_uint_eq_iff)

lemma cstring_terminated: "(\<And>c. c \<in> set t \<Longrightarrow> c \<noteq> 0) \<Longrightarrow> cstring (t @ 0 # r) = Some t"
  by (auto simp: cstring_def takeWhile_append2)

lemma numeral_text_length:
  "1 < base \<Longrightarrow> a < base ^ k \<Longrightarrow> 0 < k \<Longrightarrow> length (numeral_text base enc a) \<le> k"
  by (simp add: numeral_text_def radix_digits_length)

lemma numeral_text_neg [simp]: "a < 0 \<Longrightarrow> numeral_text base enc a = []"
  by (simp add: numeral_text_def)

lemma numeral_text_hd:
  assumes "1 < base" "0 < a"
  shows "\<exists>d t. numeral_text base enc a = enc d # t \<and> 0 < d \<and> d < base"
proof -
  obtain ds d where ds: "radix_digits base a = ds @ [d]"
    using radix_digits_last [OF assms] by (cases "radix_digits base a" rule: rev_cases) auto
  moreover have "d \<noteq> 0" using radix_digits_last [OF assms] by (simp add: ds)
  moreover have "0 \<le> d" "d < base" using radix_digits_range [of d base a] by (simp_all add: ds)
  ultimately show ?thesis using assms by (auto simp: numeral_text_def)
qed

lemmas itoa_spec = dec.printer_spec [folded itoa_def kitoa_def]
lemmas itox_spec = hex.printer_spec [folded itox_def]

lemma kitoa_eq: "kitoa a b = itoa a b"
  by (simp add: kitoa_def itoa_def)

lemma dec_text_nonzero: "c \<in> set (numeral_text 10 dec_char a) \<Longrightarrow> c \<noteq> 0"
  by (rule dec.numeral_text_nonzero) auto

lemma hex_text_nonzero: "c \<in> set (numeral_text 16 hex_char a) \<Longrightarrow> c \<noteq> 0"
  by (rule hex.numeral_text_nonzero) auto

lemma dec_text_value: "0 \<le> a \<Longrightarrow> text_value 10 (numeral_text 10 dec_char a) = a"
  using dec.text_value_digits [of a] by (simp add: numeral_text_def text_value_def char_value_def)

lemma hex_text_value: "0 \<le> a \<Longrightarrow> text_value 16 (numeral_text 16 hex_char a) = a"
  using hex.text_value_digits [of a] by (simp add: numeral_text_def text_value_def char_value_def)

lemma dec_text_length: "int_range a \<Longrightarrow> length (numeral_text 10 dec_char a) \<le> 10"
  by (rule numeral_text_length) (auto simp: int_range_def)

lemma hex_text_length: "int_range a \<Longrightarrow> length (numeral_text 16 hex_char a) \<le> 8"
  by (rule numeral_text_length) (auto simp: int_range_def)

subsection \<open>Properties\<close>



text \<open>
  \<open>itox\<close> does the same in base 16 with upper-case digits, in at most eight
  characters and a terminator.
\<close>

theorem itox_roundtrip:
  assumes "0 \<le> a" "int_range a" "9 \<le> length b"
  shows "\<exists>b' t. itox a b = Some b' \<and> length b' = length b \<and> cstring b' = Some t
      \<and> text_value 16 t = a \<and> length t \<le> 8 \<and> (0 < a \<longrightarrow> hd t \<noteq> 48)
      \<and> (\<forall>c\<in>set t. uint c \<in> {48..57} \<union> {65..70})"
proof -
  let ?t = "numeral_text 16 hex_char a"
  have len: "length ?t \<le> 8" by (rule hex_text_length [OF assms(2)])
  then have run: "itox a b = Some (?t @ 0 # drop (Suc (length ?t)) b)"
    using assms(3) itox_spec [of a b] by simp
  have "text_value 16 ?t = a" using assms(1) by (rule hex_text_value)
  moreover have "uint c \<in> {48..57} \<union> {65..70}" if "c \<in> set ?t" for c
    using that by (fastforce simp: numeral_text_def hex_char_small dest: radix_digits_range split: if_splits)
  moreover have "hd ?t \<noteq> 48" if "0 < a"
    using numeral_text_hd [of 16 a hex_char] that by (auto simp: word_uint_eq_iff hex_char_small split: if_splits)
  moreover have "length (?t @ 0 # drop (Suc (length ?t)) b) = length b" using len assms(3) by simp
  ultimately show ?thesis
    using run len cstring_terminated [of ?t] hex_text_nonzero by (auto simp del: Un_iff)
qed

theorem itox_roundtrip_witness:
  "\<exists>b' t. itox 0x114ABC (replicate 10 0) = Some b' \<and> length b' = length (replicate 10 (0 :: byte))
      \<and> cstring b' = Some t
      \<and> text_value 16 t = 0x114ABC \<and> length t \<le> 8 \<and> (0 < (0x114ABC :: int) \<longrightarrow> hd t \<noteq> 48)
      \<and> (\<forall>c\<in>set t. uint c \<in> {48..57} \<union> {65..70})"
  by (rule itox_roundtrip) (simp_all add: int_range_def)

text \<open>
  A negative number has no digits in any of the printers: the loop does not run and
  the result is the empty string, with no sign and no error.
\<close>

theorem printers_negative:
  assumes "a < 0" "b \<noteq> []"
  shows "\<exists>b'. itoa a b = Some b' \<and> kitoa a b = Some b' \<and> itox a b = Some b' \<and> cstring b' = Some []"
  using assms itoa_spec [of a b] itox_spec [of a b] by (simp add: kitoa_eq cstring_def)

theorem printers_negative_witness:
  "\<exists>b'. itoa (-5) [1, 2] = Some b' \<and> kitoa (-5) [1, 2] = Some b' \<and> itox (-5) [1, 2] = Some b'
      \<and> cstring b' = Some []"
  by (rule printers_negative) simp_all

end
