(* ===== verification/Zeos_Io.thy ===== *)
theory Zeos_Io
  imports Zeos_Text
begin

text \<open>
  The console of \<^verbatim>\<open>io.c\<close>: the cursor \<open>x\<close>, \<open>y\<close>, the text screen at
  \<open>0xb8000\<close> as an array of cells (a character and an attribute each) and the bytes
  sent to the debug port \<open>0xe9\<close>. The operations are refined to a terminal with one
  position that moves through the 2000 cells in row-major order.
\<close>

definition NUM_COLUMNS :: nat where [simp]: "NUM_COLUMNS = 80"
definition NUM_ROWS :: nat where [simp]: "NUM_ROWS = 25"

record console =
  cur_x :: byte
  cur_y :: byte
  screen :: "nat \<Rightarrow> word16"
  port_e9 :: "byte list"

text \<open>\<open>(y+1)%NUM_ROWS\<close>, computed in \<open>int\<close> and stored back into a byte.\<close>

definition next_row :: "byte \<Rightarrow> byte" where
  "next_row y = of_nat ((unat y + 1) mod NUM_ROWS)"

definition printc :: "byte \<Rightarrow> console \<Rightarrow> console" where
  "printc c con =
     (let con = con\<lparr>port_e9 := port_e9 con @ [c]\<rparr>
      in if c = 10 then con\<lparr>cur_x := 0, cur_y := next_row (cur_y con)\<rparr>
         else
           let ch = ucast (c AND 0xFF) OR 0x0200;
               con = con\<lparr>screen := (screen con)
                 (unat (cur_y con) * NUM_COLUMNS + unat (cur_x con) := ch)\<rparr>;
               con = con\<lparr>cur_x := cur_x con + 1\<rparr>
           in if unat (cur_x con) \<ge> NUM_COLUMNS
              then con\<lparr>cur_x := 0, cur_y := next_row (cur_y con)\<rparr>
              else con)"

definition printc_xy :: "byte \<Rightarrow> byte \<Rightarrow> byte \<Rightarrow> console \<Rightarrow> console" where
  "printc_xy mx my c con =
     (let cx = cur_x con; cy = cur_y con;
          con = con\<lparr>cur_x := mx, cur_y := my\<rparr>;
          con = printc c con
      in con\<lparr>cur_x := cx, cur_y := cy\<rparr>)"

text \<open>The loop of \<open>printk\<close> over the array its argument points to.\<close>

function printk_from :: "byte list \<Rightarrow> nat \<Rightarrow> console \<Rightarrow> console option" where
  "printk_from str i con = do {
     c \<leftarrow> rd str i;
     if c \<noteq> 0 then printk_from str (i + 1) (printc c con) else Some con }"
  by pat_completeness auto
termination
  by (relation "measure (\<lambda>(str, i, con). length str - i)") (auto simp: rd_def split: if_splits)

declare printk_from.simps [simp del]

definition printk :: "byte list \<Rightarrow> console \<Rightarrow> console option" where
  "printk str con = printk_from str 0 con"

text \<open>A string literal of the source: its characters and the terminator.\<close>

definition lit :: "string \<Rightarrow> byte list" where
  "lit s = map (\<lambda>c. of_nat (of_char c)) s @ [0]"

text \<open>\<open>printkint\<close>, with the initial contents of its local buffer as a parameter.\<close>

definition printkint :: "byte list \<Rightarrow> int \<Rightarrow> console \<Rightarrow> console option" where
  "printkint itoa_buff i con = do {
     itoa_buff \<leftarrow> kitoa i itoa_buff;
     con \<leftarrow> printk itoa_buff con;
     printk [10, 0] con }"

definition console_init :: "(nat \<Rightarrow> word16) \<Rightarrow> console" where
  "console_init s = \<lparr>cur_x = 0, cur_y = 19, screen = s, port_e9 = []\<rparr>"

subsection \<open>Specification: a terminal\<close>

record terminal =
  pos :: nat
  cells :: "nat \<Rightarrow> word16"
  sent :: "byte list"

definition term_put :: "byte \<Rightarrow> terminal \<Rightarrow> terminal" where
  "term_put c t =
     (if c = 10 then t\<lparr>pos := (pos t div 80 + 1) mod 25 * 80, sent := sent t @ [c]\<rparr>
      else t\<lparr>cells := (cells t)(pos t := 0x200 + ucast c), pos := (pos t + 1) mod 2000,
             sent := sent t @ [c]\<rparr>)"

definition console_ok :: "console \<Rightarrow> bool" where
  "console_ok con \<longleftrightarrow> unat (cur_x con) < NUM_COLUMNS \<and> unat (cur_y con) < NUM_ROWS"

definition console_abs :: "console \<Rightarrow> terminal" where
  "console_abs con = \<lparr>pos = unat (cur_y con) * 80 + unat (cur_x con),
     cells = screen con, sent = port_e9 con\<rparr>"

text \<open>Interface of a character device that refines an abstract one.\<close>

locale char_device =
  fixes put :: "byte \<Rightarrow> 's \<Rightarrow> 's"
    and ok :: "'s \<Rightarrow> bool"
    and abs :: "'s \<Rightarrow> 't"
    and spec_put :: "byte \<Rightarrow> 't \<Rightarrow> 't"
  assumes ok_put: "ok s \<Longrightarrow> ok (put c s)"
    and abs_put: "ok s \<Longrightarrow> abs (put c s) = spec_put c (abs s)"
begin

lemma fold_put: "ok s \<Longrightarrow> ok (fold put t s) \<and> abs (fold put t s) = fold spec_put t (abs s)"
  by (induction t arbitrary: s) (auto simp: ok_put abs_put)

end

subsection \<open>Lemmas\<close>

lemma unat_next_row: "unat (next_row y) = (unat y + 1) mod 25"
proof -
  have "(unat y + 1) mod 25 < 256" by (rule less_trans [OF mod_less_divisor]) simp_all
  then show ?thesis by (simp add: next_row_def unat_of_nat)
qed

lemma char_cell: "ucast (c AND 0xFF) OR 0x0200 = (0x200 + ucast c :: word16)" for c :: byte
proof -
  have mask: "(0xFF :: byte) = - 1" by simp
  have "\<not> bit (0x200 :: word16) n" if "n < 8" for n
    using that by (auto simp: numeral_eq_Suc less_Suc_eq)
  then have "0x200 + ucast c = (0x200 OR ucast c :: word16)"
    by (intro disjunctive_add) (auto simp: bit_ucast_iff dest: bit_imp_le_length)
  then show ?thesis by (simp only: mask and.right_neutral or.commute)
qed

lemma inc_cur_x: "unat (x :: byte) < 80 \<Longrightarrow> unat (x + 1) = unat x + 1"
  by (simp add: unat_word_ariths)

lemma row_major:
  assumes "x < 80" "y < 25"
  shows "((y * 80 + x) div 80 + 1) mod 25 * 80 = (y + 1) mod 25 * (80 :: nat)"
    and "x = 79 \<Longrightarrow> (y + 1) mod 25 * 80 = (y * 80 + x + 1) mod (2000 :: nat)"
    and "x < 79 \<Longrightarrow> (y * 80 + x + 1) mod 2000 = y * 80 + x + (1 :: nat)"
  using assms by (auto simp: mod_mult_mult2 [symmetric])

lemma printc_refines:
  assumes "console_ok con"
  shows "console_ok (printc c con)" and "console_abs (printc c con) = term_put c (console_abs con)"
proof -
  let ?x = "unat (cur_x con)" and ?y = "unat (cur_y con)"
  have xy: "?x < 80" "?y < 25" using assms by (simp_all add: console_ok_def)
  have row: "(?y + 1) mod 25 < 25" by simp
  show "console_ok (printc c con)"
    using xy row by (auto simp: printc_def Let_def console_ok_def unat_next_row inc_cur_x)
  show "console_abs (printc c con) = term_put c (console_abs con)"
    using xy row_major [OF xy]
    by (cases "?x = 79") (auto simp: printc_def Let_def console_abs_def term_put_def unat_next_row
        inc_cur_x char_cell)
qed

interpretation con: char_device printc console_ok console_abs term_put
  by unfold_locales (auto simp: printc_refines)

lemma console_ok_init: "console_ok (console_init s)"
  by (simp add: console_ok_def console_init_def)

lemma printc_xy_effect:
  "printc_xy mx my c con = con\<lparr>port_e9 := port_e9 con @ [c],
     screen := (if c = 10 then screen con
                else (screen con)(unat my * 80 + unat mx := 0x200 + ucast c))\<rparr>"
  by (simp add: printc_xy_def printc_def Let_def char_cell)

lemma printk_from_drop:
  "i \<le> length str \<Longrightarrow> printk_from str i con = (if 0 \<in> set (drop i str)
     then Some (fold printc (takeWhile (\<lambda>c. c \<noteq> 0) (drop i str)) con) else None)"
proof (induction str i con rule: printk_from.induct)
  case (1 str i con)
  show ?case
  proof (cases "i < length str")
    case True
    then have "drop i str = str ! i # drop (i + 1) str" by (simp add: Cons_nth_drop_Suc)
    with 1 True show ?thesis by (simp add: printk_from.simps [of str i con])
  next
    case False
    with 1(2) show ?thesis by (subst printk_from.simps) simp
  qed
qed

text \<open>\<open>printk\<close> prints the string its argument holds, and has no result on an array
  without a terminator.\<close>

lemma printk_eq: "printk str con = map_option (\<lambda>t. fold printc t con) (cstring str)"
  by (simp add: printk_def printk_from_drop cstring_def)

lemma of_char_byte_eq_0: "of_nat (of_char c) = (0 :: byte) \<longleftrightarrow> c = CHR 0x00"
proof -
  have "of_nat (of_char c) = (0 :: byte) \<longleftrightarrow> of_char c = (0 :: nat)"
    using nat_of_char_less_256 [of c] by (simp add: word_unat_eq_iff unat_of_nat del: of_nat_of_char)
  also have "\<dots> \<longleftrightarrow> of_char c = (of_char (CHR 0x00) :: nat)" by simp
  finally show ?thesis by (simp only: of_char_eq_iff)
qed

lemma cstring_lit: "CHR 0x00 \<notin> set s \<Longrightarrow> cstring (lit s) = Some (map (\<lambda>c. of_nat (of_char c)) s)"
  unfolding lit_def by (rule cstring_terminated) (auto simp: of_char_byte_eq_0)

lemma printk_lit:
  "CHR 0x00 \<notin> set s \<Longrightarrow> printk (lit s) con = Some (fold printc (map (\<lambda>c. of_nat (of_char c)) s) con)"
  by (simp add: printk_eq cstring_lit)

lemma term_put_frame:
  "pos t < 2000 \<Longrightarrow> pos (term_put c t) < 2000 \<and> sent (term_put c t) = sent t @ [c]
     \<and> (\<forall>i\<ge>2000. cells (term_put c t) i = cells t i)"
  by (auto simp: term_put_def)

lemma fold_term_put_frame:
  "pos t < 2000 \<Longrightarrow> pos (fold term_put cs t) < 2000 \<and> sent (fold term_put cs t) = sent t @ cs
     \<and> (\<forall>i\<ge>2000. cells (fold term_put cs t) i = cells t i)"
  by (induction cs arbitrary: t) (auto simp: term_put_frame)

lemma console_abs_pos: "console_ok con \<Longrightarrow> pos (console_abs con) < 2000"
  by (simp add: console_ok_def console_abs_def)

lemma fold_printc_frame:
  assumes "console_ok con"
  shows "port_e9 (fold printc t con) = port_e9 con @ t"
    and "\<forall>i\<ge>2000. screen (fold printc t con) i = screen con i"
proof -
  have "console_abs (fold printc t con) = fold term_put t (console_abs con)"
    using con.fold_put [OF assms] by simp
  with fold_term_put_frame [OF console_abs_pos [OF assms], of t]
  have "sent (console_abs (fold printc t con)) = sent (console_abs con) @ t
      \<and> (\<forall>i\<ge>2000. cells (console_abs (fold printc t con)) i = cells (console_abs con) i)"
    by simp
  then show "port_e9 (fold printc t con) = port_e9 con @ t"
    "\<forall>i\<ge>2000. screen (fold printc t con) i = screen con i"
    by (simp_all add: console_abs_def)
qed

lemma printkint_eq:
  assumes "int_range i" "length g = 11"
  shows "printkint g i con = Some (fold printc (numeral_text 10 dec_char i @ [10]) con)"
proof -
  let ?t = "numeral_text 10 dec_char i"
  have "kitoa i g = Some (?t @ 0 # drop (Suc (length ?t)) g)"
    using dec_text_length [OF assms(1)] assms(2) itoa_spec [of i g] by (simp add: kitoa_eq)
  moreover have "cstring (?t @ 0 # drop (Suc (length ?t)) g) = Some ?t"
    by (rule cstring_terminated) (rule dec_text_nonzero)
  moreover have "cstring [10, 0 :: byte] = Some [10]" by (simp add: cstring_def)
  ultimately show ?thesis by (simp add: printkint_def printk_eq)
qed

subsection \<open>Properties\<close>

text \<open>
  C23. \<open>printk\<close> on a console whose cursor is on the screen behaves as the terminal: every
  character of the string goes to the cell of the current position, positions advance in
  row-major order and wrap from the last cell to the first, a newline moves to the start of
  the next row. The cursor stays on the screen, no cell outside the 80 by 25 screen is
  written, and the debug port receives exactly the string. On an array without a terminator
  the loop leaves the array.
\<close>

theorem printk_refines_terminal:
  assumes "console_ok con"
  shows "case cstring str of
      None \<Rightarrow> printk str con = None
    | Some t \<Rightarrow> \<exists>con'. printk str con = Some con' \<and> console_ok con'
        \<and> console_abs con' = fold term_put t (console_abs con)
        \<and> port_e9 con' = port_e9 con @ t
        \<and> (\<forall>i\<ge>2000. screen con' i = screen con i)"
  using con.fold_put [OF assms] fold_printc_frame [OF assms]
  by (auto simp: printk_eq split: option.splits)

theorem printk_refines_terminal_witness:
  "\<exists>con'. printk [72, 105, 0] (console_init (\<lambda>_. 0)) = Some con' \<and> console_ok con'
      \<and> console_abs con' = fold term_put [72, 105] (console_abs (console_init (\<lambda>_. 0)))
      \<and> port_e9 con' = [72, 105]"
  using printk_refines_terminal [OF console_ok_init, of "[72, 105, 0]" "\<lambda>_. 0"]
  by (auto simp: cstring_def console_init_def)

text \<open>
  \<open>printkint\<close> prints the decimal digits of any \<open>int\<close> (none for a negative one)
  followed by a newline, whatever its local buffer held before: eleven bytes are enough.
\<close>

theorem printkint_prints:
  assumes "int_range i" "length g = 11" "console_ok con"
  shows "\<exists>con'. printkint g i con = Some con' \<and> console_ok con'
      \<and> port_e9 con' = port_e9 con @ (if i < 0 then [] else numeral_text 10 dec_char i) @ [10]"
  using printkint_eq [OF assms(1,2), of con] con.fold_put [OF assms(3)] fold_printc_frame(1) [OF assms(3)]
  by (auto simp del: fold_append)

theorem printkint_prints_witness:
  "\<exists>con'. printkint (replicate 11 7) 2025 (console_init (\<lambda>_. 0)) = Some con' \<and> console_ok con'
      \<and> port_e9 con' = port_e9 (console_init (\<lambda>_. 0))
          @ (if (2025 :: int) < 0 then [] else numeral_text 10 dec_char 2025) @ [10]"
  by (rule printkint_prints) (simp_all add: int_range_def console_ok_init)

end
