(* ===== verification/Zeos_Devices.thy ===== *)
theory Zeos_Devices
  imports Zeos_Io Zeos_Memory
begin

text \<open>
  The devices above the console: the keyboard service routine of \<^verbatim>\<open>keyboard.c\<close>,
  the clock of \<^verbatim>\<open>clock.c\<close> and the console write of \<^verbatim>\<open>devices.c\<close>.
  \<open>zeos_show_clock\<close> belongs to the binary library \<^verbatim>\<open>libzeos.a\<close> and is a
  parameter of \<open>clock_routine\<close>: a change of the console that may read the tick count.
\<close>

subsection \<open>Keyboard\<close>

text \<open>The characters of \<open>char_map\<close>, by scan code, as ASCII codes.\<close>

definition char_map :: "byte list" where
  "char_map =
    [0, 0, 49, 50, 51, 52, 53, 54, 55, 56,
     57, 48, 39, 0, 0, 0, 113, 119, 101, 114,
     116, 121, 117, 105, 111, 112, 96, 43, 0, 0,
     97, 115, 100, 102, 103, 104, 106, 107, 108, 0,
     0, 0, 0, 0, 122, 120, 99, 118, 98, 110,
     109, 44, 46, 45, 0, 42, 0, 0, 0, 0,
     0, 0, 0, 0, 0, 0, 0, 0, 0, 0,
     0, 55, 56, 57, 45, 52, 53, 54, 43, 49,
     50, 51, 48, 0, 0, 0, 60, 0, 0, 0,
     0, 0, 0, 0, 0, 0, 0, 0]"

text \<open>
  \<open>keyboard_routine\<close>, with the byte read from port \<open>0x60\<close> as a parameter. It has
  no result where \<open>char_map[code]\<close> is outside the array.
\<close>

definition keyboard_routine :: "byte \<Rightarrow> console \<Rightarrow> console option" where
  "keyboard_routine event con =
     (let make = (drop_bit 7 event = 0);
          code = event AND 0x7f
      in if make then do {
           c \<leftarrow> rd char_map (unat code);
           let c = (if c = 0 then 67 else c);
           Some (printc_xy 79 24 c con) }
         else Some con)"

function print_code_loop :: "byte \<Rightarrow> console \<Rightarrow> console" where
  "print_code_loop c con =
     (if c > 0 then print_code_loop (c div 10) (printc (48 + c mod 10) con) else con)"
  by pat_completeness auto
termination
  by (relation "measure (\<lambda>(c, con). unat c)") (auto simp: unat_div word_neq_0_conv [symmetric] unat_gt_0)

declare print_code_loop.simps [simp del]

definition print_code :: "byte \<Rightarrow> console \<Rightarrow> console" where
  "print_code c con = printc 32 (print_code_loop c con)"

subsection \<open>Clock\<close>

text \<open>
  The globals of \<^verbatim>\<open>clock.c\<close> and \<^verbatim>\<open>io.c\<close>. Later theories extend the
  record, so the operations are stated for every extension.
\<close>

record devices =
  zeos_ticks :: dword
  kcon :: console

definition reset_clock_ticks :: "'a devices_scheme \<Rightarrow> 'a devices_scheme" where
  "reset_clock_ticks k = k\<lparr>zeos_ticks := 0\<rparr>"

definition get_clock_ticks :: "'a devices_scheme \<Rightarrow> int" where
  "get_clock_ticks k = sint (zeos_ticks k)"

definition clock_routine ::
  "(dword \<Rightarrow> console \<Rightarrow> console) \<Rightarrow> 'a devices_scheme \<Rightarrow> 'a devices_scheme" where
  "clock_routine zeos_show_clock k =
     (let k = k\<lparr>zeos_ticks := zeos_ticks k + 1\<rparr>
      in k\<lparr>kcon := zeos_show_clock (zeos_ticks k) (kcon k)\<rparr>)"

subsection \<open>Console write\<close>

text \<open>The loop \<open>for (i=0; i<size; i++) printc(buffer[i])\<close> over the memory.\<close>

function write_console_loop :: "mem \<Rightarrow> dword \<Rightarrow> int \<Rightarrow> int \<Rightarrow> console \<Rightarrow> console" where
  "write_console_loop m buffer i sz con =
     (if i < sz then write_console_loop m buffer (i + 1) sz (printc (m (buffer + word_of_int i)) con)
      else con)"
  by pat_completeness auto
termination
  by (relation "measure (\<lambda>(m, buffer, i, sz, con). nat (sz - i))") auto

declare write_console_loop.simps [simp del]

definition sys_write_console :: "mem \<Rightarrow> dword \<Rightarrow> int \<Rightarrow> console \<Rightarrow> console \<times> int" where
  "sys_write_console m buffer sz con = (write_console_loop m buffer 0 sz con, sz)"

subsection \<open>Lemmas\<close>

lemma char_map_length: "length char_map = 98"
  by (simp add: char_map_def)

lemma byte_mask7: "unat (e AND 0x7f) = unat e mod 128" for e :: byte
proof -
  have "e AND 0x7f = take_bit 7 e" by (simp add: take_bit_eq_mask mask_eq_exp_minus_1)
  then show ?thesis by (simp only: unsigned_take_bit_eq) (simp add: take_bit_eq_mod)
qed

lemma byte_top: "drop_bit 7 e = 0 \<longleftrightarrow> unat e < 128" for e :: byte
  by (simp add: word_unat_eq_iff drop_bit_eq_div unat_div div_eq_0_iff)

lemma write_console_loop_spec:
  "0 \<le> i \<Longrightarrow> write_console_loop m buffer i sz con
     = fold printc (read_bytes m (buffer + word_of_int i) (nat (sz - i))) con"
proof (induction m buffer i sz con rule: write_console_loop.induct)
  case (1 m buffer i sz con)
  show ?case
  proof (cases "i < sz")
    case True
    then have "nat (sz - i) = Suc (nat (sz - (i + 1)))" by simp
    with 1 True show ?thesis
      by (simp add: write_console_loop.simps [of m buffer i sz con] read_bytes_Suc add.assoc)
  next
    case False
    then show ?thesis by (simp add: write_console_loop.simps [of m buffer i sz con])
  qed
qed

lemma sys_write_console_spec:
  "sys_write_console m buffer sz con = (fold printc (read_bytes m buffer (nat sz)) con, sz)"
  by (simp add: sys_write_console_def write_console_loop_spec)

lemma print_code_loop_spec:
  "print_code_loop c con = fold printc (map dec_char (radix_digits 10 (uint c))) con"
proof (induction c con rule: print_code_loop.induct)
  case (1 c con)
  show ?case
  proof (cases "c > 0")
    case True
    have pos: "0 < uint c" using True by (simp add: word_less_def)
    have "48 + c mod 10 = dec_char (uint c mod 10)"
      by (simp add: word_uint_eq_iff dec_char_small uint_word_ariths uint_mod)
    then show ?thesis
      using 1 True radix_digits_step [of 10, OF _ pos]
      by (simp add: print_code_loop.simps [of c con] uint_div)
  next
    case False
    then have "c = 0" by (simp add: word_gt_0)
    then show ?thesis by (simp add: print_code_loop.simps [of 0 con])
  qed
qed

lemma console_ok_printc_xy [zeos_inv]: "console_ok con \<Longrightarrow> console_ok (printc_xy mx my c con)"
  by (simp add: printc_xy_effect console_ok_def)

lemma keyboard_make:
  assumes "unat event < 98"
  shows "keyboard_routine event con = Some (printc_xy 79 24
    (if char_map ! unat event = 0 then 67 else char_map ! unat event) con)"
proof -
  have "unat (event AND 0x7f) = unat event" using assms by (simp add: byte_mask7)
  then show ?thesis using assms by (simp add: keyboard_routine_def byte_top Let_def char_map_length)
qed

lemma clock_ticks: "zeos_ticks ((clock_routine show ^^ n) k) = zeos_ticks k + of_nat n"
  by (induction n) (simp_all add: clock_routine_def Let_def)

subsection \<open>Properties\<close>

text \<open>
  C39. The keyboard routine, on every byte the controller can deliver: a key release changes
  nothing; a key press with a scan code inside \<open>char_map\<close> shows its character (\<open>C\<close>
  for a key without one) in the last cell of the screen, and changes neither the cursor nor
  any other cell; a key press with a scan code of 98 or more reads outside \<open>char_map\<close>.
\<close>

theorem keyboard_routine_cases:
  "(128 \<le> unat event \<longrightarrow> keyboard_routine event con = Some con)
    \<and> (unat event < 98 \<longrightarrow> (\<exists>c con'. keyboard_routine event con = Some con'
         \<and> c = (if char_map ! unat event = 0 then 67 else char_map ! unat event) \<and> c \<noteq> 10
         \<and> cur_x con' = cur_x con \<and> cur_y con' = cur_y con
         \<and> screen con' = (screen con)(1999 := 0x200 + ucast c)))
    \<and> (98 \<le> unat event \<and> unat event < 128 \<longrightarrow> keyboard_routine event con = None)"
proof (intro conjI impI)
  assume "unat event < 98"
  moreover have "10 \<notin> set char_map" by (simp add: char_map_def)
  ultimately have "char_map ! unat event \<noteq> 10"
    using nth_mem [of "unat event" char_map] by (metis char_map_length)
  with \<open>unat event < 98\<close> show "\<exists>c con'. keyboard_routine event con = Some con'
         \<and> c = (if char_map ! unat event = 0 then 67 else char_map ! unat event) \<and> c \<noteq> 10
         \<and> cur_x con' = cur_x con \<and> cur_y con' = cur_y con
         \<and> screen con' = (screen con)(1999 := 0x200 + ucast c)"
    by (simp add: keyboard_make printc_xy_effect)
qed (auto simp: keyboard_routine_def byte_top byte_mask7 char_map_length Let_def)

theorem keyboard_routine_cases_witness:
  "keyboard_routine 0x9E (console_init (\<lambda>_. 0)) = Some (console_init (\<lambda>_. 0))
    \<and> keyboard_routine 0x62 (console_init (\<lambda>_. 0)) = None
    \<and> (\<exists>con'. keyboard_routine 0x1E (console_init (\<lambda>_. 0)) = Some con' \<and> screen con' 1999 = 0x261)"
  using keyboard_routine_cases [of "0x9E" "console_init (\<lambda>_. 0)"]
    keyboard_routine_cases [of "0x62" "console_init (\<lambda>_. 0)"]
    keyboard_routine_cases [of "0x1E" "console_init (\<lambda>_. 0)"]
  by (auto simp: char_map_def)

text \<open>
  \<open>print_code\<close> prints the decimal digits of its argument in reverse order, least
  significant first, and a space; for the argument 0 it prints the space only.
\<close>

theorem print_code_reversed:
  "print_code c con =
     fold printc ((if c = 0 then [] else rev (numeral_text 10 dec_char (uint c))) @ [32]) con"
  by (cases "c = 0") (simp_all add: print_code_def print_code_loop_spec numeral_text_def uint_0_iff)

text \<open>
  Clock interrupts count: \<open>n\<close> of them after a reset leave \<open>n\<close> ticks as long as an
  \<open>int\<close> can hold the number, whatever the clock display does to the console; the
  \<open>2^31\<close>-th makes the count negative.
\<close>

theorem clock_counts:
  "(n < 2 ^ 31 \<longrightarrow> get_clock_ticks ((clock_routine show ^^ n) (reset_clock_ticks k)) = int n)
    \<and> (2 ^ 31 \<le> n \<and> n < 2 ^ 32
       \<longrightarrow> get_clock_ticks ((clock_routine show ^^ n) (reset_clock_ticks k)) = int n - 2 ^ 32)"
proof -
  have t: "zeos_ticks ((clock_routine show ^^ n) (reset_clock_ticks k)) = word_of_int (int n)"
    by (simp add: clock_ticks reset_clock_ticks_def)
  have w: "(word_of_int (int n) :: dword) = word_of_int (int n - 2 ^ 32)"
    by (simp add: word_of_int_eq_iff take_bit_eq_mod)
  show ?thesis
  proof (intro conjI impI)
    assume "n < 2 ^ 31"
    then show "get_clock_ticks ((clock_routine show ^^ n) (reset_clock_ticks k)) = int n"
      unfolding get_clock_ticks_def t by (intro sint_word_of_int) (simp add: int_range_def)
  next
    assume "2 ^ 31 \<le> n \<and> n < 2 ^ 32"
    then show "get_clock_ticks ((clock_routine show ^^ n) (reset_clock_ticks k)) = int n - 2 ^ 32"
      unfolding get_clock_ticks_def t w by (intro sint_word_of_int) (simp add: int_range_def)
  qed
qed

theorem clock_counts_witness:
  "get_clock_ticks ((clock_routine (\<lambda>_ con. con) ^^ 3)
     (reset_clock_ticks \<lparr>zeos_ticks = 99, kcon = console_init (\<lambda>_. 0)\<rparr>)) = int 3"
  using clock_counts [of 3 "\<lambda>_ con. con" "\<lparr>zeos_ticks = 99, kcon = console_init (\<lambda>_. 0)\<rparr>"] by simp

end
