(* ===== verification/Zeos_Frames.thy ===== *)
theory Zeos_Frames
  imports Zeos_Types
begin

text \<open>
  The physical frame allocator of \<^verbatim>\<open>mm.c\<close>: the byte map \<open>phys_mem\<close>,
  \<open>init_frames\<close>, \<open>alloc_frame\<close> and \<open>free_frame\<close>. The byte map is the array
  \<open>phys_mem\<close>; an access outside it has no result. The contract a client relies on is
  the locale \<open>frame_pool\<close>, over the set of the frames that can be handed out.
\<close>

type_synonym byte_map = "byte list"

definition FREE_FRAME :: byte where [simp]: "FREE_FRAME = 0"
definition USED_FRAME :: byte where [simp]: "USED_FRAME = 1"

definition init_frames :: "byte_map \<Rightarrow> (byte_map \<times> int) option" where
  "init_frames phys_mem = do {
     phys_mem \<leftarrow> for_loop 0 TOTAL_PAGES (\<lambda>i b. wr b i FREE_FRAME) phys_mem;
     phys_mem \<leftarrow> for_loop 0 NUM_PAG_KERNEL (\<lambda>i b. wr b i USED_FRAME) phys_mem;
     Some (phys_mem, 0) }"

text \<open>The search loop of \<open>alloc_frame\<close>, which steps over every second frame.\<close>

function alloc_loop :: "nat \<Rightarrow> byte_map \<Rightarrow> (byte_map \<times> int) option" where
  "alloc_loop i phys_mem =
     (if i < TOTAL_PAGES then do {
        v \<leftarrow> rd phys_mem i;
        if v = FREE_FRAME then do {
          phys_mem \<leftarrow> wr phys_mem i USED_FRAME;
          Some (phys_mem, int i) }
        else alloc_loop (i + 2) phys_mem }
      else Some (phys_mem, - 1))"
  by pat_completeness auto
termination
  by (relation "measure (\<lambda>(i, b). TOTAL_PAGES - i)") auto

declare alloc_loop.simps [simp del]

definition alloc_frame :: "byte_map \<Rightarrow> (byte_map \<times> int) option" where
  "alloc_frame phys_mem = alloc_loop NUM_PAG_KERNEL phys_mem"

definition free_frame :: "dword \<Rightarrow> byte_map \<Rightarrow> byte_map option" where
  "free_frame frame phys_mem =
     (if frame > of_nat NUM_PAG_KERNEL \<and> frame < of_nat TOTAL_PAGES
      then wr phys_mem (unat frame) FREE_FRAME
      else Some phys_mem)"

subsection \<open>Specification\<close>

definition frames_ok :: "byte_map \<Rightarrow> bool" where
  "frames_ok b \<longleftrightarrow> length b = TOTAL_PAGES \<and> (\<forall>i<NUM_PAG_KERNEL. b ! i \<noteq> FREE_FRAME)"

text \<open>The frames \<open>alloc_frame\<close> can return: free, outside the kernel, and even.\<close>

definition pool :: "byte_map \<Rightarrow> nat set" where
  "pool b = {f. 256 \<le> f \<and> f < 1024 \<and> even f \<and> b ! f = FREE_FRAME}"

fun alloc_n :: "('s \<Rightarrow> ('s \<times> int) option) \<Rightarrow> nat \<Rightarrow> 's \<Rightarrow> ('s \<times> int list) option" where
  "alloc_n alloc 0 s = Some (s, [])"
| "alloc_n alloc (Suc n) s = do {
     (s, f) \<leftarrow> alloc s;
     (s, fs) \<leftarrow> alloc_n alloc n s;
     Some (s, f # fs) }"

locale frame_pool =
  fixes inv :: "'s \<Rightarrow> bool"
    and avail :: "'s \<Rightarrow> nat set"
    and alloc :: "'s \<Rightarrow> ('s \<times> int) option"
  assumes finite_avail: "inv s \<Longrightarrow> finite (avail s)"
    and alloc_least: "inv s \<Longrightarrow> avail s \<noteq> {} \<Longrightarrow>
      \<exists>s'. alloc s = Some (s', int (Min (avail s))) \<and> inv s' \<and> avail s' = avail s - {Min (avail s)}"
    and alloc_exhausted: "inv s \<Longrightarrow> avail s = {} \<Longrightarrow> alloc s = Some (s, - 1)"
begin

lemma alloc_n_least:
  assumes "inv s" "n \<le> card (avail s)"
  shows "\<exists>s'. alloc_n alloc n s = Some (s', map int (take n (sorted_list_of_set (avail s))))
     \<and> inv s' \<and> avail s' = avail s - set (take n (sorted_list_of_set (avail s)))"
  using assms
proof (induction n arbitrary: s)
  case 0
  then show ?case by simp
next
  case (Suc n)
  let ?f = "Min (avail s)"
  have fin: "finite (avail s)" using Suc.prems(1) by (rule finite_avail)
  have ne: "avail s \<noteq> {}" using Suc.prems(2) by auto
  from alloc_least [OF Suc.prems(1) ne] obtain s1 where
    s1: "alloc s = Some (s1, int ?f)" "inv s1" "avail s1 = avail s - {?f}" by blast
  have "?f \<in> avail s" using fin ne by simp
  then have "n \<le> card (avail s1)" using Suc.prems(2) fin by (simp add: s1(3))
  from Suc.IH [OF s1(2) this] obtain s' where
    s': "alloc_n alloc n s1 = Some (s', map int (take n (sorted_list_of_set (avail s - {?f}))))"
      "inv s'" "avail s' = avail s - {?f} - set (take n (sorted_list_of_set (avail s - {?f})))"
    by (auto simp: s1(3))
  have "sorted_list_of_set (avail s) = ?f # sorted_list_of_set (avail s - {?f})"
    using fin ne by (rule sorted_list_of_set_nonempty)
  then show ?case using s1(1) s' by auto
qed

lemma alloc_n_distinct:
  assumes "inv s" "n \<le> card (avail s)"
  obtains s' fs where "alloc_n alloc n s = Some (s', map int fs)" "inv s'" "length fs = n"
    "distinct fs" "set fs \<subseteq> avail s" "avail s' = avail s - set fs"
proof -
  have fin: "finite (avail s)" using assms(1) by (rule finite_avail)
  let ?fs = "take n (sorted_list_of_set (avail s))"
  have "length ?fs = n" using assms(2) by (simp add: length_sorted_list_of_set)
  moreover have "set ?fs \<subseteq> avail s" using fin set_take_subset by fastforce
  ultimately show thesis using alloc_n_least [OF assms] that by (auto simp: distinct_take)
qed

end

subsection \<open>Lemmas\<close>

lemma mark_loop:
  assumes "hi \<le> length b"
  shows "\<exists>b'. for_loop 0 hi (\<lambda>i b. wr b i v) b = Some b' \<and> b' = replicate hi v @ drop hi b"
proof -
  let ?I = "\<lambda>i b'. b' = replicate i v @ drop i b"
  have "\<exists>s'. for_loop 0 hi (\<lambda>i b. wr b i v) b = Some s' \<and> ?I hi s'"
  proof (rule for_loop_rule)
    fix i s assume "i < hi" "?I i s"
    moreover from this assms have "drop i b = b ! i # drop (Suc i) b"
      by (simp add: Cons_nth_drop_Suc)
    ultimately show "\<exists>s'. wr s i v = Some s' \<and> ?I (Suc i) s'"
      using assms by (auto simp: list_update_append replicate_append_same [symmetric])
  qed simp_all
  then show ?thesis by simp
qed

text \<open>The byte map \<open>init_frames\<close> leaves.\<close>

definition fresh_map :: byte_map where
  "fresh_map = replicate 256 USED_FRAME @ replicate 768 FREE_FRAME"

lemma init_frames_spec:
  assumes "length b = TOTAL_PAGES"
  shows "init_frames b = Some (fresh_map, 0)"
  using assms mark_loop [of 1024 b FREE_FRAME] mark_loop [of 256 "replicate 1024 FREE_FRAME" USED_FRAME]
  by (auto simp: init_frames_def fresh_map_def)

lemma frames_ok_init: "frames_ok fresh_map"
  by (simp add: frames_ok_def fresh_map_def nth_append)

lemma pool_init: "pool fresh_map = {f. 256 \<le> f \<and> f < 1024 \<and> even f}"
  by (auto simp: pool_def fresh_map_def nth_append)

lemma finite_pool: "finite (pool b)"
  by (rule finite_subset [of _ "{..<1024}"]) (auto simp: pool_def)

lemma frames_ok_wr_used: "frames_ok b \<Longrightarrow> frames_ok (b[i := USED_FRAME])"
  by (auto simp: frames_ok_def nth_update_if)

lemma pool_wr_used: "frames_ok b \<Longrightarrow> pool (b[i := USED_FRAME]) = pool b - {i}"
  by (auto simp: pool_def frames_ok_def nth_update_if)

lemma alloc_loop_spec:
  assumes "frames_ok b" "256 \<le> i" "even i" "\<And>f. f \<in> pool b \<Longrightarrow> i \<le> f"
  shows "alloc_loop i b = (if pool b = {} then Some (b, - 1)
     else Some (b[Min (pool b) := USED_FRAME], int (Min (pool b))))"
  using assms
proof (induction i b rule: alloc_loop.induct)
  case (1 i b)
  have len: "length b = 1024" using 1(2) by (simp add: frames_ok_def)
  consider "1024 \<le> i" | "i < 1024" "b ! i = FREE_FRAME" | "i < 1024" "b ! i \<noteq> FREE_FRAME" by linarith
  then show ?case
  proof cases
    case 1
    then have "pool b = {}" using "1.prems"(4) by (fastforce simp: pool_def)
    with 1 show ?thesis by (simp add: alloc_loop.simps [of i b])
  next
    case 2
    then have "i \<in> pool b" using "1.prems" by (simp add: pool_def)
    then have "Min (pool b) = i" using "1.prems"(4) finite_pool by (intro Min_eqI) auto
    with 2 \<open>i \<in> pool b\<close> len show ?thesis by (auto simp: alloc_loop.simps [of i b])
  next
    case 3
    have "i + 2 \<le> f" if "f \<in> pool b" for f
    proof -
      have "i \<le> f" "f \<noteq> i" "even f" using "1.prems"(4) [OF that] that 3 by (auto simp: pool_def)
      with "1.prems"(3) show ?thesis by (cases "f = i + 1") auto
    qed
    then have "alloc_loop (i + 2) b = (if pool b = {} then Some (b, - 1)
       else Some (b[Min (pool b) := USED_FRAME], int (Min (pool b))))"
      using 3 "1.prems" len by (intro "1.IH") auto
    with 3 len show ?thesis by (simp add: alloc_loop.simps [of i b])
  qed
qed

lemma alloc_frame_spec:
  "frames_ok b \<Longrightarrow> alloc_frame b = (if pool b = {} then Some (b, - 1)
     else Some (b[Min (pool b) := USED_FRAME], int (Min (pool b))))"
  unfolding alloc_frame_def by (rule alloc_loop_spec) (auto simp: pool_def)

interpretation fp: frame_pool frames_ok pool alloc_frame
  by unfold_locales (auto simp: finite_pool alloc_frame_spec frames_ok_wr_used pool_wr_used
      simp del: USED_FRAME_def)

lemma free_frame_spec:
  assumes "frames_ok b"
  shows "free_frame f b = Some (if 256 < unat f \<and> unat f < 1024 then b[unat f := FREE_FRAME] else b)"
  using assms by (simp add: free_frame_def frames_ok_def word_less_nat_alt)

lemma frames_ok_free:
  assumes "frames_ok b" "free_frame f b = Some b'"
  shows "frames_ok b'"
  using assms free_frame_spec [of b f] by (auto simp: frames_ok_def nth_update_if split: if_splits)

lemma pool_free:
  assumes "frames_ok b" "free_frame f b = Some b'"
  shows "pool b' = (if 256 < unat f \<and> unat f < 1024 \<and> even (unat f) then insert (unat f) (pool b) else pool b)"
  using assms free_frame_spec [of b f]
  by (auto simp: pool_def frames_ok_def nth_update_if split: if_splits)

subsection \<open>Properties\<close>



text \<open>
  C33. From the state \<open>init_frames\<close> leaves, exactly 384 frames can be allocated (every
  second one above the kernel, in increasing order, all distinct); the next request fails.
\<close>

theorem alloc_capacity:
  assumes "length b = TOTAL_PAGES"
  shows "\<exists>b0 b1. init_frames b = Some (b0, 0)
    \<and> alloc_n alloc_frame 384 b0 = Some (b1, map (\<lambda>k. int (256 + 2 * k)) [0..<384])
    \<and> alloc_frame b1 = Some (b1, - 1)"
proof -
  define ev :: "nat list" where "ev = map (\<lambda>k. 256 + 2 * k) [0..<384]"
  have "set ev = pool fresh_map"
  proof
    show "set ev \<subseteq> pool fresh_map" unfolding pool_init ev_def by auto
    show "pool fresh_map \<subseteq> set ev" unfolding pool_init
    proof
      fix f assume "f \<in> {f. 256 \<le> f \<and> f < 1024 \<and> even (f :: nat)}"
      then have "f = 256 + 2 * (f div 2 - 128)" "f div 2 - 128 < 384" by auto
      then show "f \<in> set ev" unfolding ev_def set_map set_upt by (intro image_eqI) auto
    qed
  qed
  moreover have "sorted ev" "distinct ev"
    by (simp_all add: ev_def sorted_iff_nth_mono distinct_map inj_on_def del: upt_rec_numeral)
  ultimately have ev: "sorted_list_of_set (pool fresh_map) = ev"
    by (metis sorted_list_of_set.idem_if_sorted_distinct)
  have "card (pool fresh_map) = 384" using \<open>set ev = pool fresh_map\<close> \<open>distinct ev\<close>
    using distinct_card [of ev] by (simp add: ev_def del: upt_rec_numeral)
  moreover have "take 384 ev = ev" by (simp add: ev_def del: upt_rec_numeral)
  ultimately obtain b1 where b1: "alloc_n alloc_frame 384 fresh_map = Some (b1, map int ev)"
    "frames_ok b1" "pool b1 = pool fresh_map - set ev"
    using fp.alloc_n_least [OF frames_ok_init, of 384] by (auto simp: ev)
  have "alloc_frame b1 = Some (b1, - 1)"
    using b1(2,3) \<open>set ev = pool fresh_map\<close> by (simp add: alloc_frame_spec)
  moreover have "map int ev = map (\<lambda>k. int (256 + 2 * k)) [0..<384]" unfolding ev_def map_map o_def ..
  ultimately show ?thesis using b1(1) init_frames_spec [OF assms] by metis
qed

theorem alloc_capacity_witness:
  "\<exists>b0 b1. init_frames (replicate 1024 7) = Some (b0, 0)
    \<and> alloc_n alloc_frame 384 b0 = Some (b1, map (\<lambda>k. int (256 + 2 * k)) [0..<384])
    \<and> alloc_frame b1 = Some (b1, - 1)"
  by (rule alloc_capacity) simp

text \<open>
  \<open>free_frame\<close> gives an allocated frame above \<open>NUM_PAG_KERNEL\<close> back: it can be
  allocated again. For the frame \<open>NUM_PAG_KERNEL\<close> itself, which is the first one
  \<open>alloc_frame\<close> gives out after \<open>init_frames\<close>, the guard \<open>frame > NUM_PAG_KERNEL\<close>
  makes it do nothing, so that frame stays in use for ever.
\<close>

theorem free_frame_exact:
  assumes "frames_ok b"
  shows "(256 < f \<and> f < 1024 \<and> even f \<longrightarrow> (\<exists>b'. free_frame (of_nat f) b = Some b'
           \<and> frames_ok b' \<and> pool b' = insert f (pool b)))
    \<and> free_frame (of_nat NUM_PAG_KERNEL) b = Some b
    \<and> (\<exists>b1. alloc_frame fresh_map
           = Some (b1, int NUM_PAG_KERNEL) \<and> free_frame (of_nat NUM_PAG_KERNEL) b1 = Some b1)"
proof (intro conjI impI)
  assume "256 < f \<and> f < 1024 \<and> even f"
  then show "\<exists>b'. free_frame (of_nat f) b = Some b' \<and> frames_ok b' \<and> pool b' = insert f (pool b)"
    using assms free_frame_spec [OF assms, of "of_nat f"] frames_ok_free [OF assms, of "of_nat f"]
      pool_free [OF assms, of "of_nat f"] by (simp add: unat_of_nat)
next
  show "free_frame (of_nat NUM_PAG_KERNEL) b = Some b"
    using assms by (simp add: free_frame_spec)
  have "Min (pool fresh_map) = 256" using finite_pool by (intro Min_eqI) (auto simp: pool_init)
  moreover have "pool fresh_map \<noteq> {}" unfolding pool_init by (auto intro: exI [of _ 256])
  ultimately have a: "alloc_frame fresh_map = Some (fresh_map[256 := USED_FRAME], int NUM_PAG_KERNEL)"
    using alloc_frame_spec [OF frames_ok_init] by simp
  moreover have "free_frame (of_nat NUM_PAG_KERNEL) (fresh_map[256 := USED_FRAME]) = Some (fresh_map[256 := USED_FRAME])"
    using free_frame_spec [OF frames_ok_wr_used [OF frames_ok_init]] by simp
  ultimately show "\<exists>b1. alloc_frame fresh_map = Some (b1, int NUM_PAG_KERNEL)
      \<and> free_frame (of_nat NUM_PAG_KERNEL) b1 = Some b1" by blast
qed

theorem free_frame_exact_witness:
  "\<exists>b'. free_frame (of_nat 300) (replicate 1024 1) = Some b' \<and> frames_ok b'
     \<and> pool b' = insert 300 (pool (replicate 1024 1))"
  using free_frame_exact [of "replicate 1024 1" 300] by (simp add: frames_ok_def)

end
