(* ===== verification/Zeos_Paging.thy ===== *)
theory Zeos_Paging
  imports Zeos_Frames Zeos_Memory
begin

text \<open>
  Paging of \<^verbatim>\<open>mm.c\<close> and the task accessors of \<^verbatim>\<open>sched.c\<close>. The page
  directories, the page tables and the task array are reached through pointers, so they
  live in the byte memory, at addresses the linker chooses (the parameter \<open>layout\<close>).
  \<open>layout_ok\<close> states what the linker script \<^verbatim>\<open>system.lds\<close> gives: the three
  arrays of the section \<open>.data.task\<close> are page aligned, do not overlap and lie below
  the user region. Bit-field assignments read and write the entry, as compiled code does.
\<close>

record mm_state =
  kmem :: mem
  phys_mem :: byte_map
  cr0 :: dword
  cr3 :: dword

record layout =
  l_dir_pages :: dword
  l_pagusr_table :: dword
  l_task :: dword

text \<open>\<open>&table[i][j]\<close> for a table of type \<open>page_table_entry [NR_TASKS][TOTAL_PAGES]\<close>.\<close>

definition tbl :: "dword \<Rightarrow> nat \<Rightarrow> nat \<Rightarrow> dword" where
  "tbl base i j = base + of_nat (4 * (TOTAL_PAGES * i + j))"

text \<open>\<open>&task[i]\<close>; a \<open>union task_union\<close> has the size of its stack, 4096 bytes.\<close>

definition task_addr :: "layout \<Rightarrow> nat \<Rightarrow> dword" where
  "task_addr L i = l_task L + of_nat (4 * KERNEL_STACK_SIZE * i)"

definition upd32 :: "(dword \<Rightarrow> dword) \<Rightarrow> dword \<Rightarrow> mem \<Rightarrow> mem" where
  "upd32 f a m = store32 m a (f (load32 m a))"

subsection \<open>Tasks (sched.c)\<close>

text \<open>A task structure in memory; the identifier is its first field.\<close>

record task_struct =
  PID :: dword
  dir_pages_baseAddr :: dword

definition task_at :: "mem \<Rightarrow> dword \<Rightarrow> task_struct" where [simp]:
  "task_at m t = \<lparr>PID = load32 m t, dir_pages_baseAddr = load32 m (t + 4)\<rparr>"

definition get_DIR :: "mem \<Rightarrow> dword \<Rightarrow> dword" where
  "get_DIR m t = dir_pages_baseAddr (task_at m t)"

definition get_PT :: "mem \<Rightarrow> dword \<Rightarrow> dword" where
  "get_PT m t = push_bit 12 (pte_pbase_addr (load32 m (get_DIR m t)))"

definition allocate_DIR :: "layout \<Rightarrow> mem \<Rightarrow> dword \<Rightarrow> mem \<times> int" where
  "allocate_DIR L m t =
     (let pos = unat ((t - l_task L) div of_nat (4 * KERNEL_STACK_SIZE))
      in (store32 m (t + 4) (tbl (l_dir_pages L) pos 0), 1))"

definition current :: "dword \<Rightarrow> dword" where
  "current esp = esp AND 0xfffff000"

definition INITIAL_ESP :: "layout \<Rightarrow> dword" where
  "INITIAL_ESP L = task_addr L 1 + of_nat (4 * KERNEL_STACK_SIZE)"

subsection \<open>Page tables (mm.c)\<close>

definition init_dir_pages :: "layout \<Rightarrow> mem \<Rightarrow> mem option" where
  "init_dir_pages L m = for_loop 0 NR_TASKS (\<lambda>i m. do {
     let e = tbl (l_dir_pages L) i ENTRY_DIR_PAGES;
     let m = store32 m e 0;
     let m = upd32 (set_pbase_addr (drop_bit 12 (tbl (l_pagusr_table L) i 0))) e m;
     let m = upd32 (set_user 1) e m;
     let m = upd32 (set_rw 1) e m;
     let m = upd32 (set_present 1) e m;
     Some m }) m"

definition init_table_pages :: "layout \<Rightarrow> mem \<Rightarrow> mem option" where
  "init_table_pages L m = for_loop 0 NR_TASKS (\<lambda>j m. do {
     m \<leftarrow> for_loop 0 TOTAL_PAGES (\<lambda>i m. Some (store32 m (tbl (l_pagusr_table L) j i) 0)) m;
     for_loop 1 NUM_PAG_KERNEL (\<lambda>i m. do {
       let e = tbl (l_pagusr_table L) j i;
       let m = upd32 (set_pbase_addr (of_nat i)) e m;
       let m = upd32 (set_rw 1) e m;
       let m = upd32 (set_present 1) e m;
       Some m }) m }) m"

definition set_user_pages :: "dword \<Rightarrow> mm_state \<Rightarrow> mm_state option" where
  "set_user_pages t s = do {
     let process_PT = get_PT (kmem s) t;
     s \<leftarrow> for_loop 0 NUM_PAG_CODE (\<lambda>pag s. do {
       (b, new_ph_pag) \<leftarrow> alloc_frame (phys_mem s);
       let e = tbl process_PT 0 (PAG_LOG_INIT_CODE + pag);
       let m = store32 (kmem s) e 0;
       let m = upd32 (set_pbase_addr (word_of_int new_ph_pag)) e m;
       let m = upd32 (set_user 1) e m;
       let m = upd32 (set_present 1) e m;
       Some (s\<lparr>kmem := m, phys_mem := b\<rparr>) }) s;
     for_loop 0 NUM_PAG_DATA (\<lambda>pag s. do {
       (b, new_ph_pag) \<leftarrow> alloc_frame (phys_mem s);
       let e = tbl process_PT 0 (PAG_LOG_INIT_DATA + pag);
       let m = store32 (kmem s) e 0;
       let m = upd32 (set_pbase_addr (word_of_int new_ph_pag)) e m;
       let m = upd32 (set_user 1) e m;
       let m = upd32 (set_rw 1) e m;
       let m = upd32 (set_present 1) e m;
       Some (s\<lparr>kmem := m, phys_mem := b\<rparr>) }) s }"

definition free_user_pages :: "dword \<Rightarrow> mm_state \<Rightarrow> mm_state option" where
  "free_user_pages t s = do {
     let process_PT = get_PT (kmem s) t;
     for_loop 0 NUM_PAG_DATA (\<lambda>pag s. do {
       let e = tbl process_PT 0 (PAG_LOG_INIT_DATA + pag);
       b \<leftarrow> free_frame (pte_pbase_addr (load32 (kmem s) e)) (phys_mem s);
       Some (s\<lparr>kmem := store32 (kmem s) e 0, phys_mem := b\<rparr>) }) s }"

definition set_ss_pag :: "mem \<Rightarrow> dword \<Rightarrow> dword \<Rightarrow> dword \<Rightarrow> mem" where
  "set_ss_pag m PT page frame =
     (let e = PT + 4 * page;
          m = store32 m e 0;
          m = upd32 (set_pbase_addr frame) e m;
          m = upd32 (set_user 1) e m;
          m = upd32 (set_rw 1) e m
      in upd32 (set_present 1) e m)"

definition del_ss_pag :: "mem \<Rightarrow> dword \<Rightarrow> dword \<Rightarrow> mem" where
  "del_ss_pag m PT logical_page = store32 m (PT + 4 * logical_page) 0"

definition get_frame :: "mem \<Rightarrow> dword \<Rightarrow> dword \<Rightarrow> dword" where
  "get_frame m PT logical_page = pte_pbase_addr (load32 m (PT + 4 * logical_page))"

definition set_cr3 :: "dword \<Rightarrow> mm_state \<Rightarrow> mm_state" where
  "set_cr3 dir s = s\<lparr>cr3 := dir\<rparr>"

definition set_pe_flag :: "mm_state \<Rightarrow> mm_state" where
  "set_pe_flag s = s\<lparr>cr0 := cr0 s OR 0x80000000\<rparr>"

definition init_mm :: "layout \<Rightarrow> mm_state \<Rightarrow> mm_state option" where
  "init_mm L s = do {
     m \<leftarrow> init_table_pages L (kmem s);
     (b, _) \<leftarrow> init_frames (phys_mem s);
     m \<leftarrow> init_dir_pages L m;
     let (m, _) = allocate_DIR L m (task_addr L 0);
     let s = s\<lparr>kmem := m, phys_mem := b\<rparr>;
     let s = set_cr3 (get_DIR m (task_addr L 0)) s;
     Some (set_pe_flag s) }"

subsection \<open>Layout\<close>

definition apart :: "nat \<Rightarrow> nat \<Rightarrow> bool" where
  "apart a b \<longleftrightarrow> a + 40960 \<le> b \<or> b + 40960 \<le> a"

definition layout_ok :: "layout \<Rightarrow> bool" where
  "layout_ok L \<longleftrightarrow>
     (\<forall>a \<in> {l_dir_pages L, l_pagusr_table L, l_task L}.
        unat a mod 4096 = 0 \<and> unat a + 40960 \<le> unat L_USER_START)
     \<and> apart (unat (l_dir_pages L)) (unat (l_pagusr_table L))
     \<and> apart (unat (l_dir_pages L)) (unat (l_task L))
     \<and> apart (unat (l_pagusr_table L)) (unat (l_task L))"

definition base_ok :: "dword \<Rightarrow> bool" where
  "base_ok a \<longleftrightarrow> unat a mod 4096 = 0 \<and> unat a + 40960 \<le> 0x100000"

lemma layout_bases:
  "layout_ok L \<Longrightarrow> base_ok (l_dir_pages L) \<and> base_ok (l_pagusr_table L) \<and> base_ok (l_task L)"
  by (simp add: layout_ok_def base_ok_def)

text \<open>A page of 1024 entries: one directory, or one page table.\<close>

definition page_aligned :: "dword \<Rightarrow> bool" where
  "page_aligned P \<longleftrightarrow> unat P mod 4096 = 0"

definition col :: "dword \<Rightarrow> dword \<Rightarrow> nat" where
  "col P a = unat (a - P) div 4"

lemma page_alignedE:
  assumes "page_aligned P"
  obtains q where "unat P = 4096 * q" "q < 2 ^ 20"
proof -
  obtain q where "unat P = 4096 * q" using assms by (auto simp: page_aligned_def mod_eq_0_iff_dvd elim: dvdE)
  moreover have "unat P < 2 ^ 32" using unsigned_less [of P, where ?'a = nat] by simp
  ultimately show thesis using that by simp
qed

lemma unat_slot:
  assumes "page_aligned P" "j < 1024"
  shows "unat (tbl P 0 j) = unat P + 4 * j"
proof -
  obtain q where "unat P = 4096 * q" "q < 2 ^ 20" using assms(1) by (rule page_alignedE)
  then have "unat P + 4 * j < 2 ^ 32" using assms(2) by simp
  then show ?thesis unfolding tbl_def by (subst unat_add_small) simp_all
qed

lemma aligned4_slot: "page_aligned P \<Longrightarrow> j < 1024 \<Longrightarrow> aligned4 (tbl P 0 j)"
  by (erule page_alignedE) (simp add: aligned4_def unat_slot page_aligned_def)

lemma slot_eq_iff:
  assumes "page_aligned P" "page_aligned Q" "j < 1024" "k < 1024"
  shows "tbl P 0 j = tbl Q 0 k \<longleftrightarrow> P = Q \<and> j = k"
proof
  assume "tbl P 0 j = tbl Q 0 k"
  moreover obtain p q where pq: "unat P = 4096 * p" "unat Q = 4096 * q"
    using assms(1,2) by (metis page_alignedE)
  ultimately have "j + 1024 * p = k + 1024 * q"
    using unat_slot [OF assms(1,3)] unat_slot [OF assms(2,4)] by simp
  moreover have "(j + 1024 * p) div 1024 = p" "(k + 1024 * q) div 1024 = q" using assms(3,4) by simp_all
  ultimately have "p = q" "j = k" by simp_all
  then show "P = Q \<and> j = k" using pq by (simp add: word_unat_eq_iff)
qed simp

lemma col_slot [simp]:
  assumes "j < 1024"
  shows "col P (tbl P 0 j) = j"
proof -
  have "unat (of_nat (4 * j) :: dword) = 4 * j" using assms unfolding unat_of_nat by simp
  then show ?thesis by (simp add: col_def tbl_def del: of_nat_mult of_nat_numeral)
qed

lemma tbl_row: "tbl (tbl base i 0) 0 j = tbl base i j"
  by (simp add: tbl_def algebra_simps)

lemma unat_row:
  assumes "base_ok base" "i < 10"
  shows "unat (tbl base i 0) = unat base + 4096 * i"
proof -
  have "unat base + 4 * (TOTAL_PAGES * i) < 2 ^ 32" using assms by (simp add: base_ok_def)
  then show ?thesis unfolding tbl_def by (simp only: add_0_right) (subst unat_add_small; simp)
qed

lemma page_aligned_row:
  assumes "base_ok base" "i < 10"
  shows "page_aligned (tbl base i 0)"
proof -
  have "unat base mod 4096 = 0" using assms(1) by (simp add: base_ok_def)
  then show ?thesis unfolding page_aligned_def unat_row [OF assms] by simp
qed

lemma row_eq_iff:
  assumes "base_ok base" "i < 10" "k < 10"
  shows "tbl base i 0 = tbl base k 0 \<longleftrightarrow> i = k"
  unfolding word_unat_eq_iff unat_row [OF assms(1,2)] unat_row [OF assms(1,3)] by simp

lemma col_tbl:
  assumes "i < 10" "j < 1024"
  shows "col base (tbl base i j) = 1024 * i + j"
proof -
  have "unat (of_nat (4 * (1024 * i + j)) :: dword) = 4 * (1024 * i + j)"
    using assms unfolding unat_of_nat by simp
  then show ?thesis by (simp add: col_def tbl_def del: of_nat_mult of_nat_numeral of_nat_add)
qed

lemma rows_apart:
  assumes "base_ok b1" "base_ok b2" "apart (unat b1) (unat b2)" "i < 10" "k < 10"
  shows "tbl b1 i 0 \<noteq> tbl b2 k 0"
proof
  assume "tbl b1 i 0 = tbl b2 k 0"
  then have "unat b1 + 4096 * i = unat b2 + 4096 * k"
    using unat_row [OF assms(1,4)] unat_row [OF assms(2,5)] by simp
  with assms(3-5) show False by (auto simp: apart_def)
qed

text \<open>The task array is laid out as rows of the same size.\<close>

lemma task_addr_row: "task_addr L i = tbl (l_task L) i 0"
  by (simp add: task_addr_def tbl_def)

lemma task_DIR_slot: "task_addr L i + 4 = tbl (tbl (l_task L) i 0) 0 1"
  by (simp add: task_addr_def tbl_def)

subsection \<open>Entries\<close>

definition kernel_pte :: "nat \<Rightarrow> dword" where
  "kernel_pte i = set_present 1 (set_rw 1 (set_pbase_addr (of_nat i) 0))"

definition dir_pte :: "dword \<Rightarrow> dword" where
  "dir_pte f = set_present 1 (set_rw 1 (set_user 1 (set_pbase_addr f 0)))"

definition code_pte :: "dword \<Rightarrow> dword" where
  "code_pte f = set_present 1 (set_user 1 (set_pbase_addr f 0))"

definition data_pte :: "dword \<Rightarrow> dword" where
  "data_pte f = set_present 1 (set_rw 1 (set_user 1 (set_pbase_addr f 0)))"

definition init_pte :: "nat \<Rightarrow> dword" where
  "init_pte i = (if 1 \<le> i \<and> i < 256 then kernel_pte i else 0)"

lemma upd32_store32: "upd32 f a (store32 m a v) = store32 m a (f v)"
  by (simp add: upd32_def)

lemma upd32_same: "upd32 f a m = store32 m a (f (load32 m a))"
  by (simp add: upd32_def)

lemma init_row:
  assumes P: "page_aligned P"
  shows "\<exists>m'. do {
     m \<leftarrow> for_loop 0 1024 (\<lambda>i m. Some (store32 m (tbl P 0 i) 0)) m;
     for_loop 1 256 (\<lambda>i m. Some (upd32 (set_present 1) (tbl P 0 i) (upd32 (set_rw 1) (tbl P 0 i)
       (upd32 (set_pbase_addr (of_nat i)) (tbl P 0 i) m)))) m } = Some m'
     \<and> updates m (tbl P 0 ` {0..<1024}) (\<lambda>a. init_pte (col P a)) m'"
proof -
  have al: "aligned4 (tbl P 0 i)" if "i < 1024" for i using that P by (simp add: aligned4_slot)
  have inj: "{tbl P 0 i} \<inter> {tbl P 0 j} = {}" if "i < j" "j < 1024" for i j
    using that P by (simp add: slot_eq_iff)
  obtain m1 where m1: "for_loop 0 1024 (\<lambda>i m. Some (store32 m (tbl P 0 i) 0)) m = Some m1"
    "updates m (\<Union>i\<in>{0..<1024}. {tbl P 0 i}) (\<lambda>_. 0) m1"
    using for_loop_updates [of 0 1024 "\<lambda>i. {tbl P 0 i}" m "\<lambda>i m. Some (store32 m (tbl P 0 i) 0)" "\<lambda>_. 0"]
      al inj updates_store32 by auto
  have zero: "load32 m1 (tbl P 0 i) = 0" if "i < 1024" for i
    using that by (intro updates_value [OF m1(2)]) auto
  obtain m2 where m2: "for_loop 1 256 (\<lambda>i m. Some (upd32 (set_present 1) (tbl P 0 i)
       (upd32 (set_rw 1) (tbl P 0 i) (upd32 (set_pbase_addr (of_nat i)) (tbl P 0 i) m)))) m1 = Some m2"
    "updates m1 (\<Union>i\<in>{1..<256}. {tbl P 0 i}) (\<lambda>a. kernel_pte (col P a)) m2"
  proof -
    have "updates ma {tbl P 0 i} (\<lambda>a. kernel_pte (col P a)) (store32 ma (tbl P 0 i) (kernel_pte i))"
      if "i < 256" for i ma
      using that by (intro updates_cong [OF updates_store32]) simp
    then show thesis
      using for_loop_updates [of 1 256 "\<lambda>i. {tbl P 0 i}" m1
          "\<lambda>i m. Some (upd32 (set_present 1) (tbl P 0 i) (upd32 (set_rw 1) (tbl P 0 i)
             (upd32 (set_pbase_addr (of_nat i)) (tbl P 0 i) m)))" "\<lambda>a. kernel_pte (col P a)"]
        al inj zero that by (auto simp: upd32_same kernel_pte_def)
  qed
  have eq: "(\<Union>i\<in>{0..<1024}. {tbl P 0 i}) \<union> (\<Union>i\<in>{1..<256}. {tbl P 0 i}) = tbl P 0 ` {0..<1024}"
    by auto
  have "updates m (tbl P 0 ` {0..<1024})
      (\<lambda>a. if a \<in> (\<Union>i\<in>{1..<256}. {tbl P 0 i}) then kernel_pte (col P a) else 0) m2"
    unfolding eq [symmetric] using al by (intro updates_trans [OF m1(2) m2(2)]) auto
  then have "updates m (tbl P 0 ` {0..<1024}) (\<lambda>a. init_pte (col P a)) m2"
    by (rule updates_cong) (use P in \<open>auto simp: init_pte_def slot_eq_iff\<close>)
  with m1(1) m2(1) show ?thesis by simp
qed

text \<open>The entries of one page, and the two initialisation loops over all tasks.\<close>

definition page_slots :: "dword \<Rightarrow> dword set" where
  "page_slots P = tbl P 0 ` {0..<1024}"

lemma aligned4_page_slots: "page_aligned P \<Longrightarrow> a \<in> page_slots P \<Longrightarrow> aligned4 a"
  by (auto simp: page_slots_def aligned4_slot)

lemma page_slots_disjoint:
  "page_aligned P \<Longrightarrow> page_aligned Q \<Longrightarrow> P \<noteq> Q \<Longrightarrow> page_slots P \<inter> page_slots Q = {}"
  by (auto simp: page_slots_def slot_eq_iff)

lemma slot_in_page: "j < 1024 \<Longrightarrow> tbl P 0 j \<in> page_slots P"
  by (simp add: page_slots_def)

lemma init_table_pages_spec:
  assumes "layout_ok L"
  shows "\<exists>m'. init_table_pages L m = Some m'
     \<and> updates m (\<Union>j\<in>{0..<10}. page_slots (tbl (l_pagusr_table L) j 0))
         (\<lambda>a. init_pte (col (l_pagusr_table L) a mod 1024)) m'"
proof -
  let ?pt = "l_pagusr_table L"
  have base: "base_ok ?pt" using layout_bases [OF assms] by simp
  have row: "page_aligned (tbl ?pt j 0)" if "j < 10" for j using base that by (rule page_aligned_row)
  show ?thesis
    unfolding init_table_pages_def NR_TASKS_def
  proof (rule for_loop_updates)
    fix j m1 assume j: "j < (10 :: nat)"
    have "init_pte (col (tbl ?pt j 0) a) = init_pte (col ?pt a mod 1024)"
      if "a \<in> page_slots (tbl ?pt j 0)" for a
      using that j by (auto simp: page_slots_def tbl_row col_tbl col_slot [of _ "tbl ?pt j 0", unfolded tbl_row])
    then show "\<exists>m'. (do {
        m \<leftarrow> for_loop 0 TOTAL_PAGES (\<lambda>i m. Some (store32 m (tbl ?pt j i) 0)) m1;
        for_loop 1 NUM_PAG_KERNEL (\<lambda>i m. do {
          let e = tbl ?pt j i;
          let m = upd32 (set_pbase_addr (of_nat i)) e m;
          let m = upd32 (set_rw 1) e m;
          let m = upd32 (set_present 1) e m;
          Some m }) m }) = Some m'
      \<and> updates m1 (page_slots (tbl ?pt j 0)) (\<lambda>a. init_pte (col ?pt a mod 1024)) m'"
      using init_row [OF row [OF j], of m1] unfolding page_slots_def [symmetric] tbl_row Let_def
        TOTAL_PAGES_def NUM_PAG_KERNEL_def by (meson updates_cong)
  next
    fix i j :: nat assume "i < j" "j < 10"
    then show "page_slots (tbl ?pt i 0) \<inter> page_slots (tbl ?pt j 0) = {}"
      using row base by (intro page_slots_disjoint) (simp_all add: row_eq_iff)
  qed (use row aligned4_page_slots in auto)
qed

lemma init_dir_pages_spec:
  assumes "layout_ok L"
  shows "\<exists>m'. init_dir_pages L m = Some m'
     \<and> updates m (\<Union>i\<in>{0..<10}. {tbl (l_dir_pages L) i 0})
         (\<lambda>a. dir_pte (drop_bit 12 (tbl (l_pagusr_table L) (col (l_dir_pages L) a div 1024) 0))) m'"
proof -
  have base: "base_ok (l_dir_pages L)" using layout_bases [OF assms] by simp
  have al: "aligned4 (tbl (l_dir_pages L) i 0)" if "i < 10" for i
    using aligned4_slot [OF page_aligned_row [OF base that], of 0] by (simp add: tbl_row)
  show ?thesis
    unfolding init_dir_pages_def NR_TASKS_def
  proof (rule for_loop_updates)
    fix i m1 assume "i < (10 :: nat)"
    then show "\<exists>m'. (do {
        let e = tbl (l_dir_pages L) i ENTRY_DIR_PAGES;
        let m = store32 m1 e 0;
        let m = upd32 (set_pbase_addr (drop_bit 12 (tbl (l_pagusr_table L) i 0))) e m;
        let m = upd32 (set_user 1) e m;
        let m = upd32 (set_rw 1) e m;
        let m = upd32 (set_present 1) e m;
        Some m }) = Some m' \<and> updates m1 {tbl (l_dir_pages L) i 0}
          (\<lambda>a. dir_pte (drop_bit 12 (tbl (l_pagusr_table L) (col (l_dir_pages L) a div 1024) 0))) m'"
      by (auto simp: Let_def upd32_store32 dir_pte_def col_tbl
          intro!: updates_cong [OF updates_store32])
  qed (use al row_eq_iff [OF base] in auto)
qed

end
