(* ===== verification/Zeos_AddressSpace.thy ===== *)
theory Zeos_AddressSpace
  imports Zeos_Paging
begin

text \<open>
  Address spaces: what the page directories and tables of \<^verbatim>\<open>mm.c\<close> mean to the
  processor. \<open>mmu\<close> is the two-level walk of the IA-32 paging unit for a 4 KiB logical
  page: the frame, whether ring 3 may access it, and whether ring 3 may write it (a page is
  accessible or writable when both the directory and the table entry say so). The theorems
  state the effect of \<open>init_mm\<close>, \<open>set_user_pages\<close> and \<open>free_user_pages\<close> on these
  address spaces, and so rest neither on the layout of the entries nor on the order of the
  assignments.
\<close>

definition pte_view :: "page_table_entry \<Rightarrow> page_table_entry \<Rightarrow> (dword \<times> bool \<times> bool) option" where
  "pte_view pde pte =
     (if pte_present pde = 0 \<or> pte_present pte = 0 then None
      else Some (pte_pbase_addr pte, pte_user pde = 1 \<and> pte_user pte = 1, pte_rw pde = 1 \<and> pte_rw pte = 1))"

definition mmu :: "mem \<Rightarrow> dword \<Rightarrow> nat \<Rightarrow> (dword \<times> bool \<times> bool) option" where
  "mmu m dir p =
     (let pde = load32 m (tbl dir 0 (p div 1024));
          pte = load32 m (tbl (push_bit 12 (pte_pbase_addr pde)) 0 (p mod 1024))
      in pte_view pde pte)"

text \<open>Task \<open>i\<close> has its own directory, which points at its own page table.\<close>

definition task_ok :: "layout \<Rightarrow> mem \<Rightarrow> nat \<Rightarrow> bool" where
  "task_ok L m i \<longleftrightarrow> get_DIR m (task_addr L i) = tbl (l_dir_pages L) i 0
     \<and> load32 m (tbl (l_dir_pages L) i 0) = dir_pte (drop_bit 12 (tbl (l_pagusr_table L) i 0))"

lemma page_addr_shift:
  assumes "page_aligned P"
  shows "push_bit 12 (pte_pbase_addr (dir_pte (drop_bit 12 P))) = P"
proof -
  have z: "take_bit 12 P = 0"
    using assms by (simp only: word_unat_eq_iff unsigned_take_bit_eq)
      (simp add: page_aligned_def take_bit_eq_mod)
  have nb: "\<not> bit P n" if "n < 12" for n
    using arg_cong [OF z, where f = "\<lambda>w. bit w n"] that by (simp add: bit_simps)
  show ?thesis
  proof (rule bit_word_eqI)
    fix n assume "n < LENGTH(32)"
    then show "bit (push_bit 12 (pte_pbase_addr (dir_pte (drop_bit 12 P)))) n = bit P n"
      by (cases "n < 12") (auto simp: nb dir_pte_def bit_simps)
  qed
qed

lemma dir_pte_fields [simp]:
  "pte_present (dir_pte f) = 1" "pte_user (dir_pte f) = 1" "pte_rw (dir_pte f) = 1"
  by (simp_all add: dir_pte_def)

lemma tbl_0_0 [simp]: "tbl P 0 0 = P"
  by (simp add: tbl_def)

lemma mmu_low:
  assumes "load32 m D = dir_pte (drop_bit 12 P)" "page_aligned P" "p < 1024"
  shows "mmu m D p = pte_view (dir_pte 0) (load32 m (tbl P 0 p))"
  using assms by (simp add: mmu_def page_addr_shift pte_view_def Let_def)

lemma pte_views [simp]:
  "pte_view (dir_pte g) 0 = None"
  "pte_view (dir_pte g) (kernel_pte i) = Some (take_bit 20 (of_nat i), False, True)"
  "pte_view (dir_pte g) (code_pte f) = Some (take_bit 20 f, True, False)"
  "pte_view (dir_pte g) (data_pte f) = Some (take_bit 20 f, True, True)"
  by (simp_all add: pte_view_def kernel_pte_def code_pte_def data_pte_def)

lemma get_PT_task:
  assumes "layout_ok L" "i < 10" "task_ok L m i"
  shows "get_PT m (task_addr L i) = tbl (l_pagusr_table L) i 0"
  using assms layout_bases [OF assms(1)] page_aligned_row
  by (simp add: get_PT_def task_ok_def page_addr_shift)

subsection \<open>Initialisation\<close>

lemma layout_rows:
  assumes "layout_ok L" "i < 10"
  shows "page_aligned (tbl (l_dir_pages L) i 0)" "page_aligned (tbl (l_pagusr_table L) i 0)"
    "page_aligned (tbl (l_task L) i 0)"
  using layout_bases [OF assms(1)] assms(2) by (simp_all add: page_aligned_row)

lemma layout_rows_apart:
  assumes "layout_ok L" "i < 10" "k < 10"
  shows "tbl (l_dir_pages L) i 0 \<noteq> tbl (l_pagusr_table L) k 0"
    "tbl (l_dir_pages L) i 0 \<noteq> tbl (l_task L) k 0"
    "tbl (l_pagusr_table L) i 0 \<noteq> tbl (l_task L) k 0"
  using layout_bases [OF assms(1)] assms by (simp_all add: rows_apart layout_ok_def)

lemma allocate_DIR_task:
  assumes "i < 10"
  shows "allocate_DIR L m (task_addr L i) = (store32 m (task_addr L i + 4) (tbl (l_dir_pages L) i 0), 1)"
proof -
  have "unat (of_nat (4096 * i) :: dword) = 4096 * i" using assms unfolding unat_of_nat by simp
  then have "unat ((task_addr L i - l_task L) div of_nat (4 * KERNEL_STACK_SIZE)) = i"
    by (simp add: task_addr_def unat_div del: of_nat_mult)
  then show ?thesis by (simp add: allocate_DIR_def)
qed

text \<open>Two entries in pages that differ are different.\<close>

lemma slot_neq:
  "page_aligned P \<Longrightarrow> page_aligned Q \<Longrightarrow> j < 1024 \<Longrightarrow> k < 1024 \<Longrightarrow> P \<noteq> Q \<or> j \<noteq> k \<Longrightarrow>
     tbl P 0 j \<noteq> tbl Q 0 k"
  by (simp add: slot_eq_iff)

text \<open>Bytes outside the three arrays of \<open>.data.task\<close>.\<close>

definition outside :: "layout \<Rightarrow> dword \<Rightarrow> bool" where
  "outside L b \<longleftrightarrow> (\<forall>a\<in>{l_dir_pages L, l_pagusr_table L, l_task L}. unat b < unat a \<or> unat a + 40960 \<le> unat b)"

lemma entry_bytes_slot:
  assumes "base_ok base" "i < 10" "j < 1024" "b \<in> entry_bytes (tbl (tbl base i 0) 0 j)"
  shows "unat base \<le> unat b" "unat b < unat base + 40960"
proof -
  note pa = page_aligned_row [OF assms(1,2)]
  have "unat (tbl (tbl base i 0) 0 j) = unat base + 4096 * i + 4 * j"
    using unat_slot [OF pa assms(3)] unat_row [OF assms(1,2)] by simp
  moreover have "\<exists>d<4. unat b = unat (tbl (tbl base i 0) 0 j) + d"
    using assms(4) aligned4_offsets [OF aligned4_slot [OF pa assms(3)]]
    by (auto simp: entry_bytes_def intro: exI [of _ 0] exI [of _ 1] exI [of _ 2] exI [of _ 3])
  ultimately show "unat base \<le> unat b" "unat b < unat base + 40960" using assms(2,3) by auto
qed

lemma outside_slot:
  assumes "layout_ok L" "outside L b" "base \<in> {l_dir_pages L, l_pagusr_table L, l_task L}" "i < 10" "j < 1024"
  shows "b \<notin> entry_bytes (tbl (tbl base i 0) 0 j)"
proof
  assume b: "b \<in> entry_bytes (tbl (tbl base i 0) 0 j)"
  have "base_ok base" using layout_bases [OF assms(1)] assms(3) by auto
  from entry_bytes_slot [OF this assms(4,5) b] assms(2,3) show False by (fastforce simp: outside_def)
qed

text \<open>
  The memory \<open>init_mm\<close> leaves: the page tables, then the directories, then the directory
  pointer of task 0.
\<close>

definition inited :: "layout \<Rightarrow> mem \<Rightarrow> mem \<Rightarrow> bool" where
  "inited L m m' \<longleftrightarrow> (\<exists>m1 m2.
     updates m (\<Union>j\<in>{0..<10}. page_slots (tbl (l_pagusr_table L) j 0))
       (\<lambda>a. init_pte (col (l_pagusr_table L) a mod 1024)) m1
     \<and> updates m1 (\<Union>i\<in>{0..<10}. {tbl (l_dir_pages L) i 0})
       (\<lambda>a. dir_pte (drop_bit 12 (tbl (l_pagusr_table L) (col (l_dir_pages L) a div 1024) 0))) m2
     \<and> m' = store32 m2 (tbl (tbl (l_task L) 0 0) 0 1) (tbl (l_dir_pages L) 0 0))"

lemma layout_slots:
  assumes L: "layout_ok L" and i: "i < 10" "k < 10" and p: "p < 1024" "q < 1024"
  shows "aligned4 (tbl (tbl (l_dir_pages L) i 0) 0 p)" "aligned4 (tbl (tbl (l_pagusr_table L) i 0) 0 p)"
    "aligned4 (tbl (tbl (l_task L) i 0) 0 p)"
    "tbl (tbl (l_dir_pages L) i 0) 0 p \<noteq> tbl (tbl (l_task L) k 0) 0 q"
    "tbl (tbl (l_pagusr_table L) i 0) 0 p \<noteq> tbl (tbl (l_task L) k 0) 0 q"
    "tbl (tbl (l_pagusr_table L) i 0) 0 p \<noteq> tbl (tbl (l_dir_pages L) k 0) 0 q"
  using layout_rows [OF L i(1)] layout_rows [OF L i(2)] layout_rows_apart [OF L i] layout_rows_apart [OF L i(2,1)] p
  by (auto simp: aligned4_slot slot_eq_iff)

lemma in_dirs: "i < 10 \<Longrightarrow> tbl (l_dir_pages L) i 0 \<in> (\<Union>i\<in>{0..<10}. {tbl (l_dir_pages L) i 0})"
  by auto

lemma inited_dir:
  assumes L: "layout_ok L" and "inited L m m'" "i < 10"
  shows "load32 m' (tbl (l_dir_pages L) i 0) = dir_pte (drop_bit 12 (tbl (l_pagusr_table L) i 0))"
proof -
  obtain m1 m2 where m: "updates m1 (\<Union>i\<in>{0..<10}. {tbl (l_dir_pages L) i 0})
       (\<lambda>a. dir_pte (drop_bit 12 (tbl (l_pagusr_table L) (col (l_dir_pages L) a div 1024) 0))) m2"
     "m' = store32 m2 (tbl (tbl (l_task L) 0 0) 0 1) (tbl (l_dir_pages L) 0 0)"
    using assms(2) by (auto simp: inited_def)
  have "load32 m' (tbl (l_dir_pages L) i 0) = load32 m2 (tbl (l_dir_pages L) i 0)"
    unfolding m(2) using layout_slots [OF L assms(3), of 0 0 1] layout_slots(3) [OF L, of 0 0 1 0]
    by (intro load32_store32_other) (auto simp: tbl_row)
  with updates_value [OF m(1) in_dirs [OF assms(3)]] assms(3) show ?thesis by (simp add: col_tbl)
qed

lemma inited_pt:
  assumes L: "layout_ok L" and "inited L m m'" "i < 10" "p < 1024"
  shows "load32 m' (tbl (l_pagusr_table L) i p) = init_pte p"
proof -
  let ?a = "tbl (tbl (l_pagusr_table L) i 0) 0 p" and ?dirs = "\<Union>i\<in>{0..<10}. {tbl (l_dir_pages L) i 0}"
  obtain m1 m2 where m: "updates m (\<Union>j\<in>{0..<10}. page_slots (tbl (l_pagusr_table L) j 0))
       (\<lambda>a. init_pte (col (l_pagusr_table L) a mod 1024)) m1"
     "updates m1 ?dirs (\<lambda>a. dir_pte (drop_bit 12 (tbl (l_pagusr_table L) (col (l_dir_pages L) a div 1024) 0))) m2"
     "m' = store32 m2 (tbl (tbl (l_task L) 0 0) 0 1) (tbl (l_dir_pages L) 0 0)"
    using assms(2) by (auto simp: inited_def)
  have "load32 m' ?a = load32 m2 ?a"
    unfolding m(3) using layout_slots [OF L assms(3), of 0 p 1] layout_slots(3) [OF L, of 0 0 1 0] assms(4)
    by (intro load32_store32_other) auto
  also have "\<dots> = load32 m1 ?a"
    using layout_slots(2) [OF L assms(3) assms(3,4,4)] layout_slots(6) [OF L assms(3) _ assms(4), of _ 0]
      layout_slots(1) [OF L, of _ 0 0 0]
    by (intro updates_frame [OF m(2)]) (auto simp: tbl_row)
  also have "?a \<in> (\<Union>j\<in>{0..<10}. page_slots (tbl (l_pagusr_table L) j 0))"
    using assms(3,4) slot_in_page [of p "tbl (l_pagusr_table L) i 0"] by (intro UN_I [of i]) simp_all
  from updates_value [OF m(1) this] have "load32 m1 ?a = init_pte p"
    using assms(3,4) by (simp add: tbl_row col_tbl)
  finally show ?thesis by (simp add: tbl_row)
qed

lemma inited_outside:
  assumes L: "layout_ok L" and "inited L m m'" and b: "outside L b"
  shows "m' b = m b"
proof -
  have "b \<notin> entry_bytes (tbl (tbl (l_task L) 0 0) 0 1)" using outside_slot [OF L b, of "l_task L" 0 1] by simp
  moreover have "b \<notin> (\<Union>a\<in>(\<Union>i\<in>{0..<10}. {tbl (l_dir_pages L) i 0}). entry_bytes a)"
    using outside_slot [OF L b, of "l_dir_pages L" _ 0] by (auto simp: tbl_row)
  moreover have "b \<notin> (\<Union>a\<in>(\<Union>j\<in>{0..<10}. page_slots (tbl (l_pagusr_table L) j 0)). entry_bytes a)"
    using outside_slot [OF L b, of "l_pagusr_table L"] by (auto simp: page_slots_def)
  ultimately show ?thesis using assms(2) by (auto simp: inited_def store32_outside updates_def)
qed

lemma inited_rest:
  assumes L: "layout_ok L" and "inited L m m'" and d: "0 < d" "d < 1024"
  shows "load32 m' (tbl (l_dir_pages L) 0 d) = load32 m (tbl (l_dir_pages L) 0 d)"
proof -
  let ?a = "tbl (tbl (l_dir_pages L) 0 0) 0 d" and ?dirs = "\<Union>i\<in>{0..<10}. {tbl (l_dir_pages L) i 0}"
    and ?pts = "\<Union>j\<in>{0..<10}. page_slots (tbl (l_pagusr_table L) j 0)"
  obtain m1 m2 where m: "updates m ?pts (\<lambda>a. init_pte (col (l_pagusr_table L) a mod 1024)) m1"
     "updates m1 ?dirs (\<lambda>a. dir_pte (drop_bit 12 (tbl (l_pagusr_table L) (col (l_dir_pages L) a div 1024) 0))) m2"
     "m' = store32 m2 (tbl (tbl (l_task L) 0 0) 0 1) (tbl (l_dir_pages L) 0 0)"
    using assms(2) by (auto simp: inited_def)
  have al: "aligned4 ?a" using layout_slots(1) [OF L, of 0 0 d 0] d by simp
  have "load32 m' ?a = load32 m2 ?a"
    unfolding m(3) using al layout_slots(3,4) [OF L, of 0 0 1 0] layout_slots(4) [OF L, of 0 0 d 1] d
    by (intro load32_store32_other) auto
  also have "\<dots> = load32 m1 ?a"
  proof (rule updates_frame [OF m(2) _ al])
    show "aligned4 c" if "c \<in> ?dirs" for c
      using that layout_slots(1) [OF L, of _ 0 0 0] by (auto simp: tbl_row)
    show "?a \<notin> ?dirs"
      using slot_neq [OF layout_rows(1) [OF L] layout_rows(1) [OF L], of 0 _ d 0] d by auto
  qed
  also have "\<dots> = load32 m ?a"
  proof (rule updates_frame [OF m(1) _ al])
    show "aligned4 c" if "c \<in> ?pts" for c
      using that layout_slots(2) [OF L] by (auto simp: page_slots_def)
    show "?a \<notin> ?pts"
      using layout_slots(6) [OF L _ _ _ d(2), of _ 0, symmetric] by (fastforce simp: page_slots_def)
  qed
  finally show ?thesis by (simp add: tbl_row)
qed

lemma init_mm_spec:
  assumes L: "layout_ok L" and len: "length (phys_mem s) = 1024"
  obtains m' where
    "init_mm L s = Some (s\<lparr>kmem := m', phys_mem := fresh_map, cr3 := tbl (l_dir_pages L) 0 0,
       cr0 := cr0 s OR 0x80000000\<rparr>)"
    "task_ok L m' 0" "inited L (kmem s) m'"
proof -
  obtain m1 where m1: "init_table_pages L (kmem s) = Some m1"
    "updates (kmem s) (\<Union>j\<in>{0..<10}. page_slots (tbl (l_pagusr_table L) j 0))
      (\<lambda>a. init_pte (col (l_pagusr_table L) a mod 1024)) m1"
    using init_table_pages_spec [OF L] by blast
  obtain m2 where m2: "init_dir_pages L m1 = Some m2"
    "updates m1 (\<Union>i\<in>{0..<10}. {tbl (l_dir_pages L) i 0})
      (\<lambda>a. dir_pte (drop_bit 12 (tbl (l_pagusr_table L) (col (l_dir_pages L) a div 1024) 0))) m2"
    using init_dir_pages_spec [OF L] by blast
  let ?m = "store32 m2 (tbl (tbl (l_task L) 0 0) 0 1) (tbl (l_dir_pages L) 0 0)"
  have d0: "get_DIR ?m (task_addr L 0) = tbl (l_dir_pages L) 0 0" by (simp add: get_DIR_def task_DIR_slot)
  have i: "inited L (kmem s) ?m" using m1(2) m2(2) by (auto simp: inited_def)
  have "init_mm L s = Some (s\<lparr>kmem := ?m, phys_mem := fresh_map, cr3 := tbl (l_dir_pages L) 0 0,
      cr0 := cr0 s OR 0x80000000\<rparr>)"
    using m1(1) m2(1) len d0
    by (simp add: init_mm_def init_frames_spec allocate_DIR_task task_DIR_slot set_cr3_def set_pe_flag_def)
  moreover have "task_ok L ?m 0" using d0 inited_dir [OF L i, of 0] by (simp add: task_ok_def)
  ultimately show thesis using that i by blast
qed

subsection \<open>Mapping the user pages\<close>

text \<open>
  The loops of \<open>set_user_pages\<close>, with the bit-field assignments of one iteration collapsed
  to the entry they build: page \<open>lo + pag\<close> gets the frame of the \<open>pag\<close>-th allocation.
\<close>

definition map_body :: "dword \<Rightarrow> nat \<Rightarrow> (dword \<Rightarrow> dword) \<Rightarrow> nat \<Rightarrow> mm_state \<Rightarrow> mm_state option" where
  "map_body PT lo mk pag s = do {
     (b, f) \<leftarrow> alloc_frame (phys_mem s);
     Some (s\<lparr>kmem := store32 (kmem s) (tbl PT 0 (lo + pag)) (mk (word_of_int f)), phys_mem := b\<rparr>) }"

lemma set_user_pages_loops:
  "set_user_pages t s = do {
     s1 \<leftarrow> for_loop 0 8 (map_body (get_PT (kmem s) t) 276 code_pte) s;
     for_loop 0 20 (map_body (get_PT (kmem s) t) 256 data_pte) s1 }"
  by (simp add: set_user_pages_def map_body_def [abs_def] Let_def upd32_store32 code_pte_def data_pte_def)

lemma map_loop:
  assumes "page_aligned P" "lo + k + n \<le> 1024" "alloc_n alloc_frame n (phys_mem s) = Some (b', fs)"
  shows "\<exists>m'. for_loop k (k + n) (map_body P lo mk) s = Some (s\<lparr>kmem := m', phys_mem := b'\<rparr>)
     \<and> updates (kmem s) (tbl P 0 ` {lo + k..<lo + k + n})
         (\<lambda>a. mk (word_of_int (fs ! (col P a - (lo + k))))) m'"
  using assms
proof (induction n arbitrary: k s fs)
  case 0
  then show ?case by (auto simp: for_loop.simps updates_empty intro!: exI [of _ "kmem s"])
next
  case (Suc n)
  from Suc.prems(3) obtain b f gs where
    b: "alloc_frame (phys_mem s) = Some (b, f)" "alloc_n alloc_frame n b = Some (b', gs)" "fs = f # gs"
    by (auto simp: bind_eq_Some_conv)
  let ?a = "tbl P 0 (lo + k)"
  let ?s = "s\<lparr>kmem := store32 (kmem s) ?a (mk (word_of_int f)), phys_mem := b\<rparr>"
  have al: "aligned4 c" if "c \<in> {?a} \<union> tbl P 0 ` {lo + Suc k..<lo + Suc k + n}" for c
    using that Suc.prems(1,2) by (auto simp: aligned4_slot)
  from Suc.IH [of "Suc k" ?s gs] Suc.prems b(2) obtain m' where
    m': "for_loop (Suc k) (Suc k + n) (map_body P lo mk) ?s = Some (?s\<lparr>kmem := m', phys_mem := b'\<rparr>)"
      "updates (kmem ?s) (tbl P 0 ` {lo + Suc k..<lo + Suc k + n})
         (\<lambda>a. mk (word_of_int (gs ! (col P a - (lo + Suc k))))) m'"
    by auto
  have "for_loop k (k + Suc n) (map_body P lo mk) s = Some (s\<lparr>kmem := m', phys_mem := b'\<rparr>)"
    using m'(1) b(1) by (subst for_loop.simps) (simp add: map_body_def)
  moreover have "{?a} \<union> tbl P 0 ` {lo + Suc k..<lo + Suc k + n} = tbl P 0 ` {lo + k..<lo + k + Suc n}"
    by (auto simp: image_iff) (metis Suc_leI add_Suc_right atLeastLessThan_iff le_neq_implies_less)
  moreover have "updates (kmem s) ({?a} \<union> tbl P 0 ` {lo + Suc k..<lo + Suc k + n})
      (\<lambda>a. mk (word_of_int (fs ! (col P a - (lo + k))))) m'"
  proof (rule updates_cong)
    show "updates (kmem s) ({?a} \<union> tbl P 0 ` {lo + Suc k..<lo + Suc k + n})
       (\<lambda>a. if a \<in> tbl P 0 ` {lo + Suc k..<lo + Suc k + n}
            then mk (word_of_int (gs ! (col P a - (lo + Suc k)))) else mk (word_of_int f)) m'"
      using m'(2) al by (intro updates_trans [OF updates_store32]) auto
  qed (use Suc.prems b(3) in \<open>auto simp: slot_eq_iff nth_Cons'\<close>)
  ultimately show ?case by auto
qed

lemma set_user_pages_spec:
  assumes "layout_ok L" "i < 10" "task_ok L (kmem s) i"
    and "alloc_n alloc_frame 8 (phys_mem s) = Some (b1, cs)" "alloc_n alloc_frame 20 b1 = Some (b2, ds)"
  defines "P \<equiv> tbl (l_pagusr_table L) i 0"
  shows "\<exists>m'. set_user_pages (task_addr L i) s = Some (s\<lparr>kmem := m', phys_mem := b2\<rparr>)
     \<and> updates (kmem s) (tbl P 0 ` {256..<284})
         (\<lambda>a. if col P a < 276 then data_pte (word_of_int (ds ! (col P a - 256)))
              else code_pte (word_of_int (cs ! (col P a - 276)))) m'"
proof -
  have P: "page_aligned P" using layout_rows [OF assms(1,2)] by (simp add: P_def)
  obtain m1 where m1: "for_loop 0 8 (map_body P 276 code_pte) s = Some (s\<lparr>kmem := m1, phys_mem := b1\<rparr>)"
    "updates (kmem s) (tbl P 0 ` {276..<284}) (\<lambda>a. code_pte (word_of_int (cs ! (col P a - 276)))) m1"
    using map_loop [OF P, of 276 0 8 s b1 cs] assms(4) by auto
  let ?s = "s\<lparr>kmem := m1, phys_mem := b1\<rparr>"
  obtain m2 where m2: "for_loop 0 20 (map_body P 256 data_pte) ?s = Some (?s\<lparr>kmem := m2, phys_mem := b2\<rparr>)"
    "updates m1 (tbl P 0 ` {256..<276}) (\<lambda>a. data_pte (word_of_int (ds ! (col P a - 256)))) m2"
    using map_loop [OF P, of 256 0 20 ?s b2 ds] assms(5) by auto
  have PT: "get_PT (kmem s) (task_addr L i) = P" using assms(1-3) by (simp add: get_PT_task P_def)
  have eq: "tbl P 0 ` {276..<284} \<union> tbl P 0 ` {256..<276} = tbl P 0 ` {256..<284}"
    by (simp only: image_Un [symmetric]) (rule arg_cong [where f = "image (tbl P 0)"], auto)
  have "updates (kmem s) (tbl P 0 ` {256..<284})
      (\<lambda>a. if a \<in> tbl P 0 ` {256..<276} then data_pte (word_of_int (ds ! (col P a - 256)))
           else code_pte (word_of_int (cs ! (col P a - 276)))) m2"
    unfolding eq [symmetric] using P by (intro updates_trans [OF m1(2) m2(2)]) (auto simp: aligned4_slot)
  then have "updates (kmem s) (tbl P 0 ` {256..<284})
      (\<lambda>a. if col P a < 276 then data_pte (word_of_int (ds ! (col P a - 256)))
           else code_pte (word_of_int (cs ! (col P a - 276)))) m2"
    by (rule updates_cong) (use P in \<open>auto simp: slot_eq_iff\<close>)
  then show ?thesis using m1(1) m2(1) by (auto simp: set_user_pages_loops PT)
qed

text \<open>Writes to the page table of one task leave the address spaces of the others alone.\<close>

lemma table_write:
  assumes L: "layout_ok L" and i: "i < 10" and J: "J \<subseteq> {0..<1024}"
    and u: "updates m (tbl (tbl (l_pagusr_table L) i 0) 0 ` J) v m'"
  shows "\<And>k. k < 10 \<Longrightarrow> task_ok L m k \<Longrightarrow> task_ok L m' k"
    and "\<And>k p. k < 10 \<Longrightarrow> task_ok L m k \<Longrightarrow> p < 1024 \<Longrightarrow> k \<noteq> i \<or> p \<notin> J \<Longrightarrow>
       mmu m' (tbl (l_dir_pages L) k 0) p = mmu m (tbl (l_dir_pages L) k 0) p"
    and "\<And>p. p \<in> J \<Longrightarrow> task_ok L m i \<Longrightarrow> mmu m' (tbl (l_dir_pages L) i 0) p =
       pte_view (dir_pte 0) (v (tbl (tbl (l_pagusr_table L) i 0) 0 p))"
proof -
  let ?P = "tbl (l_pagusr_table L) i 0"
  note Pi = layout_rows [OF L i]
  have al: "aligned4 a" if "a \<in> tbl ?P 0 ` J" for a using that J Pi by (auto simp: aligned4_slot)
  have out: "load32 m' (tbl Q 0 p) = load32 m (tbl Q 0 p)"
    if "page_aligned Q" "p < 1024" "Q \<noteq> ?P \<or> p \<notin> J" for Q p
    using that al J Pi by (intro updates_frame [OF u]) (auto simp: aligned4_slot slot_eq_iff)
  have dir: "load32 m' (tbl (l_dir_pages L) k 0) = load32 m (tbl (l_dir_pages L) k 0)" if "k < 10" for k
    using out [of "tbl (l_dir_pages L) k 0" 0] layout_rows [OF L that] layout_rows_apart(1) [OF L that i] by simp
  show ok: "task_ok L m' k" if "k < 10" "task_ok L m k" for k
    using that dir out [of "tbl (l_task L) k 0" 1] layout_rows [OF L that(1)] layout_rows_apart(3) [OF L i that(1)]
    by (simp add: task_ok_def get_DIR_def task_DIR_slot)
  show "mmu m' (tbl (l_dir_pages L) k 0) p = mmu m (tbl (l_dir_pages L) k 0) p"
    if "k < 10" "task_ok L m k" "p < 1024" "k \<noteq> i \<or> p \<notin> J" for k p
    using that ok [OF that(1,2)] layout_rows [OF L that(1)] layout_bases [OF L] i
      out [of "tbl (l_pagusr_table L) k 0" p]
    by (auto simp: mmu_low [where P = "tbl (l_pagusr_table L) k 0"] task_ok_def row_eq_iff)
  show "mmu m' (tbl (l_dir_pages L) i 0) p = pte_view (dir_pte 0) (v (tbl ?P 0 p))"
    if "p \<in> J" "task_ok L m i" for p
    using that ok [OF i that(2)] Pi J updates_value [OF u, of "tbl ?P 0 p"]
    by (auto simp: mmu_low [where P = ?P] task_ok_def)
qed

lemma table_write_dirs:
  assumes L: "layout_ok L" and i: "i < 10" and J: "J \<subseteq> {0..<1024}"
    and u: "updates m (tbl (tbl (l_pagusr_table L) i 0) 0 ` J) v m'" and d: "d < 1024"
  shows "load32 m' (tbl (l_dir_pages L) 0 d) = load32 m (tbl (l_dir_pages L) 0 d)"
proof -
  have "load32 m' (tbl (tbl (l_dir_pages L) 0 0) 0 d) = load32 m (tbl (tbl (l_dir_pages L) 0 0) 0 d)"
  proof (rule updates_frame [OF u])
    show "aligned4 c" if "c \<in> tbl (tbl (l_pagusr_table L) i 0) 0 ` J" for c
      using that J layout_rows(2) [OF L i] by (auto simp: aligned4_slot)
    show "aligned4 (tbl (tbl (l_dir_pages L) 0 0) 0 d)"
      using d layout_rows(1) [OF L, of 0] by (intro aligned4_slot) simp_all
    have "tbl (tbl (l_dir_pages L) 0 0) 0 d \<noteq> tbl (tbl (l_pagusr_table L) i 0) 0 j" if "j \<in> J" for j
      using layout_slots(6) [OF L i, of 0 j d] d that J by auto
    then show "tbl (tbl (l_dir_pages L) 0 0) 0 d \<notin> tbl (tbl (l_pagusr_table L) i 0) 0 ` J" by auto
  qed
  then show ?thesis by simp
qed

lemma take_bit_frame: "f < 1024 \<Longrightarrow> take_bit 20 (of_nat f) = (of_nat f :: dword)"
  by (simp only: word_unat_eq_iff unsigned_take_bit_eq unat_of_nat) (simp add: take_bit_eq_mod)

lemma alloc_n_exhausted: "frames_ok b \<Longrightarrow> pool b = {} \<Longrightarrow> alloc_n alloc_frame n b = Some (b, replicate n (- 1))"
  by (induction n) (simp_all add: alloc_frame_spec)

text \<open>One iteration of \<open>free_user_pages\<close>.\<close>

definition free_body :: "dword \<Rightarrow> nat \<Rightarrow> mm_state \<Rightarrow> mm_state option" where
  "free_body PT pag s = do {
     b \<leftarrow> free_frame (pte_pbase_addr (load32 (kmem s) (tbl PT 0 (256 + pag)))) (phys_mem s);
     Some (s\<lparr>kmem := store32 (kmem s) (tbl PT 0 (256 + pag)) 0, phys_mem := b\<rparr>) }"

lemma free_user_pages_loop:
  "free_user_pages t s = for_loop 0 20 (free_body (get_PT (kmem s) t)) s"
  by (simp add: free_user_pages_def free_body_def [abs_def] Let_def)

lemma free_loop:
  assumes "page_aligned P" "frames_ok (phys_mem s)" "k + n \<le> 768"
  shows "\<exists>m' b'. for_loop k (k + n) (free_body P) s = Some (s\<lparr>kmem := m', phys_mem := b'\<rparr>)
     \<and> updates (kmem s) (tbl P 0 ` {256 + k..<256 + k + n}) (\<lambda>_. 0) m' \<and> frames_ok b'
     \<and> pool b' = pool (phys_mem s) \<union> {f. 256 < f \<and> f < 1024 \<and> even f
         \<and> (\<exists>p\<in>{256 + k..<256 + k + n}. f = unat (pte_pbase_addr (load32 (kmem s) (tbl P 0 p))))}"
  using assms
proof (induction n arbitrary: k s)
  case 0
  then show ?case by (auto simp: for_loop.simps updates_empty intro!: exI [of _ "kmem s"] exI [of _ "phys_mem s"])
next
  case (Suc n)
  let ?a = "tbl P 0 (256 + k)" and ?T = "tbl P 0 ` {256 + Suc k..<256 + Suc k + n}"
  let ?g = "pte_pbase_addr (load32 (kmem s) ?a)"
  obtain b where b: "free_frame ?g (phys_mem s) = Some b" "frames_ok b"
    "pool b = (if 256 < unat ?g \<and> unat ?g < 1024 \<and> even (unat ?g)
       then insert (unat ?g) (pool (phys_mem s)) else pool (phys_mem s))"
    using free_frame_spec [OF Suc.prems(2)] frames_ok_free pool_free Suc.prems(2) by meson
  let ?s = "s\<lparr>kmem := store32 (kmem s) ?a 0, phys_mem := b\<rparr>"
  have al: "aligned4 c" if "c \<in> {?a} \<union> ?T" for c using that Suc.prems(1,3) by (auto simp: aligned4_slot)
  have same: "load32 (kmem ?s) (tbl P 0 p) = load32 (kmem s) (tbl P 0 p)"
    if "p \<in> {256 + Suc k..<256 + Suc k + n}" for p
    using that Suc.prems(1,3) by (simp add: load32_store32_other aligned4_slot slot_eq_iff)
  from Suc.IH [of ?s "Suc k"] Suc.prems b(2) obtain m' b' where
    m': "for_loop (Suc k) (Suc k + n) (free_body P) ?s = Some (?s\<lparr>kmem := m', phys_mem := b'\<rparr>)"
      "updates (kmem ?s) ?T (\<lambda>_. 0) m'" "frames_ok b'"
      "pool b' = pool b \<union> {f. 256 < f \<and> f < 1024 \<and> even f
         \<and> (\<exists>p\<in>{256 + Suc k..<256 + Suc k + n}. f = unat (pte_pbase_addr (load32 (kmem ?s) (tbl P 0 p))))}"
    by auto
  have loop: "for_loop k (k + Suc n) (free_body P) s = Some (s\<lparr>kmem := m', phys_mem := b'\<rparr>)"
    using m'(1) b(1) by (subst for_loop.simps) (simp add: free_body_def)
  have ivl: "{256 + k..<256 + k + Suc n} = insert (256 + k) {256 + Suc k..<256 + Suc k + n}" by auto
  have "updates (kmem s) ({?a} \<union> ?T) (\<lambda>a. if a \<in> ?T then 0 else 0) m'"
    using m'(2) al by (intro updates_trans [OF updates_store32]) auto
  then have upd: "updates (kmem s) (tbl P 0 ` {256 + k..<256 + k + Suc n}) (\<lambda>_. 0) m'"
    unfolding ivl by simp
  have "pool b' = pool (phys_mem s) \<union> {f. 256 < f \<and> f < 1024 \<and> even f
         \<and> (\<exists>p\<in>{256 + k..<256 + k + Suc n}. f = unat (pte_pbase_addr (load32 (kmem s) (tbl P 0 p))))}"
    unfolding m'(4) b(3) ivl using same by (auto split: if_splits)
  with upd loop m'(3) show ?case by blast
qed

lemma free_user_pages_spec:
  assumes "layout_ok L" "i < 10" "task_ok L (kmem s) i" "frames_ok (phys_mem s)"
  shows "\<exists>m' b'. free_user_pages (task_addr L i) s = Some (s\<lparr>kmem := m', phys_mem := b'\<rparr>)
     \<and> updates (kmem s) (tbl (tbl (l_pagusr_table L) i 0) 0 ` {256..<276}) (\<lambda>_. 0) m' \<and> frames_ok b'
     \<and> pool b' = pool (phys_mem s) \<union> {f. 256 < f \<and> f < 1024 \<and> even f \<and> (\<exists>p\<in>{256..<276}.
         f = unat (pte_pbase_addr (load32 (kmem s) (tbl (tbl (l_pagusr_table L) i 0) 0 p))))}"
  using free_loop [OF layout_rows(2) [OF assms(1,2)] assms(4), of 0 20]
  by (simp add: free_user_pages_loop get_PT_task [OF assms(1-3)])

lemma set_user_pages_maps:
  assumes "layout_ok L" "i < 10" "task_ok L (kmem s) i"
    and "frames_ok (phys_mem s)" "28 \<le> card (pool (phys_mem s))"
  shows "\<exists>s' cs ds. set_user_pages (task_addr L i) s = Some s'
     \<and> length cs = 8 \<and> length ds = 20 \<and> distinct (cs @ ds) \<and> set (cs @ ds) \<subseteq> pool (phys_mem s)
     \<and> frames_ok (phys_mem s') \<and> pool (phys_mem s') = pool (phys_mem s) - set (cs @ ds)
     \<and> (\<forall>p<1024. mmu (kmem s') (tbl (l_dir_pages L) i 0) p =
          (if 256 \<le> p \<and> p < 276 then Some (of_nat (ds ! (p - 256)), True, True)
           else if 276 \<le> p \<and> p < 284 then Some (of_nat (cs ! (p - 276)), True, False)
           else mmu (kmem s) (tbl (l_dir_pages L) i 0) p))
     \<and> (\<forall>k<10. task_ok L (kmem s) k \<longrightarrow> task_ok L (kmem s') k)
     \<and> (\<forall>k<10. \<forall>p<1024. k \<noteq> i \<and> task_ok L (kmem s) k \<longrightarrow>
          mmu (kmem s') (tbl (l_dir_pages L) k 0) p = mmu (kmem s) (tbl (l_dir_pages L) k 0) p)
     \<and> cr3 s' = cr3 s
     \<and> (\<forall>d<1024. load32 (kmem s') (tbl (l_dir_pages L) 0 d) = load32 (kmem s) (tbl (l_dir_pages L) 0 d))
     \<and> (\<forall>b. outside L b \<longrightarrow> kmem s' b = kmem s b)"
proof -
  note i = assms(2)
  have room: "8 \<le> card (pool (phys_mem s))" using assms(5) by simp
  obtain b1 cs where cs: "alloc_n alloc_frame 8 (phys_mem s) = Some (b1, map int cs)" "frames_ok b1"
    "length cs = 8" "distinct cs" "set cs \<subseteq> pool (phys_mem s)" "pool b1 = pool (phys_mem s) - set cs"
    by (rule fp.alloc_n_distinct [OF assms(4) room]) (rule that)
  have "card (set cs) = 8" using cs(3,4) distinct_card by metis
  then have room2: "20 \<le> card (pool b1)"
    using assms(5) cs(5,6) by (simp add: card_Diff_subset)
  obtain b2 ds where ds: "alloc_n alloc_frame 20 b1 = Some (b2, map int ds)" "frames_ok b2"
    "length ds = 20" "distinct ds" "set ds \<subseteq> pool b1" "pool b2 = pool b1 - set ds"
    by (rule fp.alloc_n_distinct [OF cs(2) room2]) (rule that)
  from set_user_pages_spec [OF assms(1) i assms(3) cs(1) ds(1)] obtain m' where
    m': "set_user_pages (task_addr L i) s = Some (s\<lparr>kmem := m', phys_mem := b2\<rparr>)"
      "updates (kmem s) (tbl (tbl (l_pagusr_table L) i 0) 0 ` {256..<284})
         (\<lambda>a. if col (tbl (l_pagusr_table L) i 0) a < 276
              then data_pte (word_of_int (map int ds ! (col (tbl (l_pagusr_table L) i 0) a - 256)))
              else code_pte (word_of_int (map int cs ! (col (tbl (l_pagusr_table L) i 0) a - 276)))) m'"
    by blast
  note w = table_write [OF assms(1) i _ m'(2)]
  have small: "f < 1024" if "f \<in> set cs \<union> set ds" for f
    using that cs(5) ds(5) cs(6) by (auto simp: pool_def)
  have "mmu m' (tbl (l_dir_pages L) i 0) p =
          (if 256 \<le> p \<and> p < 276 then Some (of_nat (ds ! (p - 256)), True, True)
           else if 276 \<le> p \<and> p < 284 then Some (of_nat (cs ! (p - 276)), True, False)
           else mmu (kmem s) (tbl (l_dir_pages L) i 0) p)" if "p < 1024" for p
    using that w(2) [OF _ i assms(3) that] w(3) [OF _ _ assms(3), of p] cs(3) ds(3) small
    by (auto simp: take_bit_frame)
  moreover note table_write_dirs [OF assms(1) i _ m'(2)]
  moreover have "m' b = kmem s b" if "outside L b" for b
    using m'(2) outside_slot [OF assms(1) that, of "l_pagusr_table L"] i by (auto simp: updates_def)
  ultimately show ?thesis
    using m'(1) cs ds w(1,2) by (intro exI [of _ "s\<lparr>kmem := m', phys_mem := b2\<rparr>"] exI [of _ cs] exI [of _ ds]) auto
qed

text \<open>
  A concrete layout of the section \<open>.data.task\<close>, and states in which task 0 has its address
  space, over any other memory contents.
\<close>

definition example_layout :: layout where
  "example_layout = \<lparr>l_dir_pages = 0x20000, l_pagusr_table = 0x2A000, l_task = 0x34000\<rparr>"

definition example_mm :: "mem \<Rightarrow> byte_map \<Rightarrow> mm_state" where
  "example_mm m b = \<lparr>kmem = store32 (store32 m 0x34004 0x20000) 0x20000 (dir_pte 0x2A),
     phys_mem = b, cr0 = 0x11, cr3 = 0\<rparr>"

lemma example_layout_ok: "layout_ok example_layout"
  by (simp add: layout_ok_def example_layout_def apart_def)

lemma example_aligned: "aligned4 0x20000" "aligned4 0x34004"
  by (simp_all add: aligned4_def)

lemma example_task_ok: "task_ok example_layout (kmem (example_mm m b)) 0"
  using example_aligned
  by (simp add: task_ok_def get_DIR_def task_addr_def example_layout_def example_mm_def
      load32_store32_other drop_bit_eq_div)

text \<open>Memory in which every entry maps frame 512 for ring 3.\<close>

definition mapped_mem :: mem where
  "mapped_mem a = (if unat a mod 4 = 0 then 7 else if unat a mod 4 = 2 then 0x20 else 0)"

lemma load32_mapped_mem:
  assumes "aligned4 a"
  shows "load32 mapped_mem a = data_pte 512"
proof -
  obtain k where k: "unat a = 4 * k" using assms by (auto simp: aligned4_def mod_eq_0_iff_dvd elim: dvdE)
  have "unat (a + 1) mod 4 = 1" "unat (a + 2) mod 4 = 2" "unat (a + 3) mod 4 = 3"
    unfolding aligned4_offsets [OF assms] k by presburger+
  then have "mapped_mem a = 7" "mapped_mem (a + 1) = 0" "mapped_mem (a + 2) = 0x20" "mapped_mem (a + 3) = 0"
    by (simp_all add: mapped_mem_def k)
  then have "load32 mapped_mem a = 0x200007" by (simp add: load32_def push_bit_eq_mult)
  moreover have "data_pte 512 = 0x200007"
    by (simp add: data_pte_def pte_set_defs set_field_def take_bit_eq_mod)
  ultimately show ?thesis by simp
qed

lemma example_mapped:
  assumes "256 \<le> p" "p < 276"
  shows "mmu (kmem (example_mm mapped_mem b)) (tbl (l_dir_pages example_layout) 0 0) p = Some (512, True, True)"
proof -
  have pa: "page_aligned 0x2A000" "page_aligned 0x20000" "page_aligned 0x34000"
    by (simp_all add: page_aligned_def)
  have al: "aligned4 (tbl 0x2A000 0 p)" using aligned4_slot [OF pa(1)] assms by simp
  have ne: "tbl 0x2A000 0 p \<noteq> 0x20000" "tbl 0x2A000 0 p \<noteq> 0x34004"
    using slot_neq [OF pa(1,2), of p 0] slot_neq [OF pa(1,3), of p 1] assms by (simp_all add: tbl_def)
  have dir: "load32 (kmem (example_mm mapped_mem b)) 0x20000 = dir_pte (drop_bit 12 0x2A000)"
    by (simp add: example_mm_def drop_bit_eq_div)
  have pte: "load32 (kmem (example_mm mapped_mem b)) (tbl 0x2A000 0 p) = data_pte 512"
    using al ne [symmetric] example_aligned
    by (simp add: example_mm_def load32_store32_other load32_mapped_mem)
  have "mmu (kmem (example_mm mapped_mem b)) 0x20000 p = Some (take_bit 20 512, True, True)"
    using mmu_low [OF dir pa(1), of p] pte assms by simp
  then show ?thesis by (simp add: example_layout_def take_bit_eq_mod)
qed

subsection \<open>Properties\<close>

text \<open>
  C18. \<open>init_mm\<close> always completes and gives all ten tasks the same address space: logical
  pages 1 to 255 map to the frame of the same number, for the supervisor only; page 0 (so
  that \<open>NULL\<close> faults) and pages 256 to 1023 are not mapped. CR3 holds the directory of task
  0, whose task structure points at it, the paging bit of CR0 is set and its other bits
  kept, and the frame allocator has exactly the even frames from 256 on to give.
\<close>

theorem init_mm_identity_map:
  assumes "layout_ok L" "length (phys_mem s) = TOTAL_PAGES"
  shows "\<exists>s'. init_mm L s = Some s'
     \<and> cr3 s' = get_DIR (kmem s') (task_addr L 0) \<and> task_ok L (kmem s') 0
     \<and> cr0 s' = cr0 s OR 0x80000000
     \<and> (\<forall>i<10. \<forall>p<1024. mmu (kmem s') (tbl (l_dir_pages L) i 0) p =
           (if 1 \<le> p \<and> p < 256 then Some (of_nat p, False, True) else None))
     \<and> frames_ok (phys_mem s') \<and> pool (phys_mem s') = {f. 256 \<le> f \<and> f < 1024 \<and> even f}"
proof -
  have len: "length (phys_mem s) = 1024" using assms(2) by simp
  obtain m' where
    m': "init_mm L s = Some (s\<lparr>kmem := m', phys_mem := fresh_map, cr3 := tbl (l_dir_pages L) 0 0,
       cr0 := cr0 s OR 0x80000000\<rparr>)" "task_ok L m' 0" "inited L (kmem s) m'"
    by (rule init_mm_spec [OF assms(1) len]) (rule that)
  have "mmu m' (tbl (l_dir_pages L) i 0) p = (if 1 \<le> p \<and> p < 256 then Some (of_nat p, False, True) else None)"
    if "i < 10" "p < 1024" for i p
    using that mmu_low [OF inited_dir [OF assms(1) m'(3) that(1)] layout_rows(2) [OF assms(1) that(1)] that(2)]
      inited_pt [OF assms(1) m'(3) that]
    by (simp add: tbl_row init_pte_def take_bit_frame)
  then show ?thesis using m'(1,2) frames_ok_init pool_init by (auto simp: task_ok_def)
qed

theorem init_mm_identity_map_witness:
  "\<exists>s'. init_mm example_layout \<lparr>kmem = \<lambda>_. 0, phys_mem = replicate 1024 7, cr0 = 0x11, cr3 = 0\<rparr> = Some s'
     \<and> cr0 s' = 0x80000011
     \<and> mmu (kmem s') 0x20000 0 = None \<and> mmu (kmem s') 0x20000 100 = Some (100, False, True)
     \<and> mmu (kmem s') 0x20000 256 = None"
  using init_mm_identity_map [OF example_layout_ok,
      of "\<lparr>kmem = \<lambda>_. 0, phys_mem = replicate 1024 7, cr0 = 0x11, cr3 = 0\<rparr>"]
  by (force simp: example_layout_def)

text \<open>
  C10. \<open>set_user_pages\<close> for a task with an address space of its own, when at least 28 frames
  are available: the 8 code pages (276 to 283) become accessible and read-only for ring 3,
  the 20 data pages (256 to 275) accessible and writable, each on a frame of its own that
  was free before and is no longer available. Every other page of the task, the kernel's
  included, and every address space of the other tasks stay as they were.
\<close>

theorem set_user_pages_isolated:
  assumes "layout_ok L" "i < NR_TASKS" "task_ok L (kmem s) i"
    and "frames_ok (phys_mem s)" "NUM_PAG_CODE + NUM_PAG_DATA \<le> card (pool (phys_mem s))"
  shows "\<exists>s' cs ds. set_user_pages (task_addr L i) s = Some s'
     \<and> length cs = 8 \<and> length ds = 20 \<and> distinct (cs @ ds) \<and> set (cs @ ds) \<subseteq> pool (phys_mem s)
     \<and> frames_ok (phys_mem s') \<and> pool (phys_mem s') = pool (phys_mem s) - set (cs @ ds)
     \<and> (\<forall>p<1024. mmu (kmem s') (tbl (l_dir_pages L) i 0) p =
          (if 256 \<le> p \<and> p < 276 then Some (of_nat (ds ! (p - 256)), True, True)
           else if 276 \<le> p \<and> p < 284 then Some (of_nat (cs ! (p - 276)), True, False)
           else mmu (kmem s) (tbl (l_dir_pages L) i 0) p))
     \<and> (\<forall>k<10. task_ok L (kmem s) k \<longrightarrow> task_ok L (kmem s') k)
     \<and> (\<forall>k<10. \<forall>p<1024. k \<noteq> i \<and> task_ok L (kmem s) k \<longrightarrow>
          mmu (kmem s') (tbl (l_dir_pages L) k 0) p = mmu (kmem s) (tbl (l_dir_pages L) k 0) p)"
proof -
  have "i < 10" "28 \<le> card (pool (phys_mem s))" using assms(2,5) by simp_all
  from set_user_pages_maps [OF assms(1) this(1) assms(3,4) this(2)] show ?thesis by blast
qed

lemma card_even_frames: "28 \<le> card {f :: nat. 256 \<le> f \<and> f < 1024 \<and> even f}"
proof -
  let ?g = "\<lambda>n :: nat. 256 + 2 * n"
  have "card (?g ` {..<28}) \<le> card {f :: nat. 256 \<le> f \<and> f < 1024 \<and> even f}"
    by (rule card_mono) (auto intro: finite_subset [of _ "{..<1024}"])
  moreover have "card (?g ` {..<28}) = 28" by (subst card_image) (auto simp: inj_on_def)
  ultimately show ?thesis by simp
qed

theorem set_user_pages_isolated_witness:
  "\<exists>s' cs ds. set_user_pages (task_addr example_layout 0) (example_mm (\<lambda>_. 0) fresh_map) = Some s'
     \<and> length cs = 8 \<and> length ds = 20 \<and> distinct (cs @ ds) \<and> set (cs @ ds) \<subseteq> {f. 256 \<le> f \<and> f < 1024 \<and> even f}
     \<and> mmu (kmem s') 0x20000 256 = Some (of_nat (ds ! 0), True, True)
     \<and> mmu (kmem s') 0x20000 283 = Some (of_nat (cs ! 7), True, False)"
proof -
  have b: "phys_mem (example_mm (\<lambda>_. 0) fresh_map) = fresh_map" by (simp add: example_mm_def)
  have c: "NUM_PAG_CODE + NUM_PAG_DATA \<le> card (pool fresh_map)"
    using card_even_frames by (simp add: pool_init)
  obtain s' cs ds where "set_user_pages (task_addr example_layout 0) (example_mm (\<lambda>_. 0) fresh_map) = Some s'"
    "length cs = 8" "length ds = 20" "distinct (cs @ ds)" "set (cs @ ds) \<subseteq> pool fresh_map"
    "\<forall>p<1024. mmu (kmem s') (tbl (l_dir_pages example_layout) 0 0) p =
          (if 256 \<le> p \<and> p < 276 then Some (of_nat (ds ! (p - 256)), True, True)
           else if 276 \<le> p \<and> p < 284 then Some (of_nat (cs ! (p - 276)), True, False)
           else mmu (kmem (example_mm (\<lambda>_. 0) fresh_map)) (tbl (l_dir_pages example_layout) 0 0) p)"
    using set_user_pages_isolated [OF example_layout_ok _ example_task_ok, of "\<lambda>_. 0" fresh_map]
      frames_ok_init c unfolding b by auto
  then show ?thesis
    by (intro exI [of _ s'] exI [of _ cs] exI [of _ ds]) (auto simp: pool_init example_layout_def)
qed

text \<open>
  C32. \<open>set_user_pages\<close> ignores the -1 that \<open>alloc_frame\<close> returns when no frame is left:
  it still completes, and maps all 28 user pages of the task, writable data pages included,
  to the frame 0xFFFFF, with no error to its caller.
\<close>

theorem set_user_pages_exhausted:
  assumes "layout_ok L" "i < NR_TASKS" "task_ok L (kmem s) i"
    and "frames_ok (phys_mem s)" "pool (phys_mem s) = {}"
  shows "\<exists>s'. set_user_pages (task_addr L i) s = Some s' \<and> phys_mem s' = phys_mem s
     \<and> (\<forall>p. 256 \<le> p \<and> p < 284 \<longrightarrow>
          mmu (kmem s') (tbl (l_dir_pages L) i 0) p = Some (0xFFFFF, True, p < 276))"
proof -
  have i: "i < 10" using assms(2) by simp
  note x = alloc_n_exhausted [OF assms(4,5)]
  from set_user_pages_spec [OF assms(1) i assms(3) x x] obtain m' where
    m': "set_user_pages (task_addr L i) s = Some (s\<lparr>kmem := m', phys_mem := phys_mem s\<rparr>)"
      "updates (kmem s) (tbl (tbl (l_pagusr_table L) i 0) 0 ` {256..<284})
         (\<lambda>a. if col (tbl (l_pagusr_table L) i 0) a < 276
              then data_pte (word_of_int (replicate 20 (- 1) ! (col (tbl (l_pagusr_table L) i 0) a - 256)))
              else code_pte (word_of_int (replicate 8 (- 1) ! (col (tbl (l_pagusr_table L) i 0) a - 276)))) m'"
    by blast
  have "take_bit 20 (- 1 :: dword) = 0xFFFFF" by (simp add: take_bit_eq_mask mask_eq_exp_minus_1)
  then have "mmu m' (tbl (l_dir_pages L) i 0) p = Some (0xFFFFF, True, p < 276)" if "256 \<le> p" "p < 284" for p
    using that table_write(3) [OF assms(1) i _ m'(2) _ assms(3), of p] by simp
  then show ?thesis using m'(1) by auto
qed

lemma full_map: "frames_ok (replicate 1024 USED_FRAME)" "pool (replicate 1024 USED_FRAME) = {}"
  by (auto simp: frames_ok_def pool_def)

theorem set_user_pages_exhausted_witness:
  "\<exists>s'. set_user_pages (task_addr example_layout 0) (example_mm (\<lambda>_. 0) (replicate 1024 USED_FRAME)) = Some s'
     \<and> mmu (kmem s') 0x20000 256 = Some (0xFFFFF, True, True)
     \<and> mmu (kmem s') 0x20000 283 = Some (0xFFFFF, True, False)"
proof -
  have b: "phys_mem (example_mm (\<lambda>_. 0) (replicate 1024 USED_FRAME)) = replicate 1024 USED_FRAME"
    by (simp add: example_mm_def)
  show ?thesis
    using set_user_pages_exhausted [OF example_layout_ok _ example_task_ok,
        of "\<lambda>_. 0" "replicate 1024 USED_FRAME", unfolded b, OF _ full_map]
    by (force simp: example_layout_def)
qed

text \<open>
  C31. \<open>free_user_pages\<close> unmaps exactly the 20 data pages of the task and gives back the
  frames they were on, as far as \<open>alloc_frame\<close> could have handed them out, with one
  exception: frame 256 is never given back. The code pages stay mapped, and the address
  spaces of the other tasks are not changed.
\<close>

theorem free_user_pages_exact:
  assumes "layout_ok L" "i < NR_TASKS" "task_ok L (kmem s) i" "frames_ok (phys_mem s)"
    and "\<forall>p. 256 \<le> p \<and> p < 276 \<longrightarrow> (\<exists>u w. mmu (kmem s) (tbl (l_dir_pages L) i 0) p = Some (of_nat (ds ! (p - 256)), u, w))"
    and "length ds = NUM_PAG_DATA" "\<forall>f\<in>set ds. 256 \<le> f \<and> f < 1024 \<and> even f"
  shows "\<exists>s'. free_user_pages (task_addr L i) s = Some s'
     \<and> frames_ok (phys_mem s') \<and> pool (phys_mem s') = pool (phys_mem s) \<union> (set ds - {256})
     \<and> (\<forall>k<10. \<forall>p<1024. task_ok L (kmem s) k \<longrightarrow> task_ok L (kmem s') k
         \<and> mmu (kmem s') (tbl (l_dir_pages L) k 0) p =
            (if k = i \<and> 256 \<le> p \<and> p < 276 then None else mmu (kmem s) (tbl (l_dir_pages L) k 0) p))"
proof -
  have i: "i < 10" and len: "length ds = 20" using assms(2,6) by simp_all
  let ?P = "tbl (l_pagusr_table L) i 0"
  from free_user_pages_spec [OF assms(1) i assms(3,4)] obtain m' b' where
    m': "free_user_pages (task_addr L i) s = Some (s\<lparr>kmem := m', phys_mem := b'\<rparr>)"
      "updates (kmem s) (tbl ?P 0 ` {256..<276}) (\<lambda>_. 0) m'" "frames_ok b'"
      "pool b' = pool (phys_mem s) \<union> {f. 256 < f \<and> f < 1024 \<and> even f \<and> (\<exists>p\<in>{256..<276}.
         f = unat (pte_pbase_addr (load32 (kmem s) (tbl ?P 0 p))))}" by blast
  have frame: "unat (pte_pbase_addr (load32 (kmem s) (tbl ?P 0 p))) = ds ! (p - 256)" if "256 \<le> p" "p < 276" for p
  proof -
    have "pte_pbase_addr (load32 (kmem s) (tbl ?P 0 p)) = of_nat (ds ! (p - 256))"
      using that assms(3,5) layout_rows [OF assms(1) i]
      by (fastforce simp: mmu_low [where P = ?P] task_ok_def pte_view_def split: if_splits)
    moreover have "ds ! (p - 256) < 1024" using that len assms(7) by simp
    ultimately show ?thesis by (simp add: unat_of_nat)
  qed
  have sub: "(\<exists>p\<in>{256..<276}. f = unat (pte_pbase_addr (load32 (kmem s) (tbl ?P 0 p)))) \<longleftrightarrow> f \<in> set ds" for f
  proof
    assume "\<exists>p\<in>{256..<276}. f = unat (pte_pbase_addr (load32 (kmem s) (tbl ?P 0 p)))"
    then obtain p where "256 \<le> p" "p < 276" "f = ds ! (p - 256)" using frame by auto
    then show "f \<in> set ds" using len by simp
  next
    assume "f \<in> set ds"
    then obtain n where "n < 20" "ds ! n = f" using len by (metis in_set_conv_nth)
    then show "\<exists>p\<in>{256..<276}. f = unat (pte_pbase_addr (load32 (kmem s) (tbl ?P 0 p)))"
      by (intro bexI [of _ "256 + n"]) (simp_all add: frame)
  qed
  have "pool b' = pool (phys_mem s) \<union> (set ds - {256})"
    unfolding m'(4) sub using assms(7) by (auto simp: order_less_le)
  moreover have "mmu m' (tbl (l_dir_pages L) k 0) p =
      (if k = i \<and> 256 \<le> p \<and> p < 276 then None else mmu (kmem s) (tbl (l_dir_pages L) k 0) p)"
    if "k < 10" "p < 1024" "task_ok L (kmem s) k" for k p
    using that table_write(2) [OF assms(1) i _ m'(2) that(1,3,2)] table_write(3) [OF assms(1) i _ m'(2) _ assms(3), of p]
    by auto
  ultimately show ?thesis using m'(1,3) table_write(1) [OF assms(1) i _ m'(2)] by auto
qed

theorem free_user_pages_exact_witness:
  "\<exists>s'. free_user_pages (task_addr example_layout 0) (example_mm mapped_mem (replicate 1024 USED_FRAME)) = Some s'
     \<and> pool (phys_mem s') = {512} \<and> mmu (kmem s') 0x20000 256 = None \<and> mmu (kmem s') 0x20000 275 = None"
proof -
  let ?s = "example_mm mapped_mem (replicate 1024 USED_FRAME)"
  have b: "phys_mem ?s = replicate 1024 USED_FRAME" by (simp add: example_mm_def)
  have m: "\<forall>p. 256 \<le> p \<and> p < 276 \<longrightarrow> (\<exists>u w. mmu (kmem ?s) (tbl (l_dir_pages example_layout) 0 0) p =
      Some (of_nat (replicate 20 512 ! (p - 256)), u, w))"
    by (intro allI impI exI, elim conjE, subst example_mapped) simp_all
  obtain s' where s': "free_user_pages (task_addr example_layout 0) ?s = Some s'"
    "pool (phys_mem s') = pool (phys_mem ?s) \<union> (set (replicate 20 512) - {256})"
    "\<forall>k<10. \<forall>p<1024. task_ok example_layout (kmem ?s) k \<longrightarrow> task_ok example_layout (kmem s') k
         \<and> mmu (kmem s') (tbl (l_dir_pages example_layout) k 0) p =
            (if k = 0 \<and> 256 \<le> p \<and> p < 276 then None else mmu (kmem ?s) (tbl (l_dir_pages example_layout) k 0) p)"
    using free_user_pages_exact [OF example_layout_ok _ example_task_ok _ m] full_map(1) unfolding b by auto
  have "mmu (kmem s') 0x20000 p = None" if "256 \<le> p" "p < 276" for p
    using s'(3) example_task_ok that by (force simp: example_layout_def)
  then show ?thesis using s'(1,2) full_map(2) b by simp
qed

text \<open>
  On any page table, \<open>set_ss_pag\<close> maps one logical page, for ring 3 and writable, to
  the given frame, which \<open>get_frame\<close> then returns; \<open>del_ss_pag\<close> unmaps it again; neither
  changes another entry of any page table.
\<close>

theorem ss_pag_roundtrip:
  assumes "page_aligned PT" "page < 1024" "frame < 2 ^ 20"
  shows "get_frame (set_ss_pag m PT page frame) PT page = frame
     \<and> pte_view (dir_pte 0) (load32 (set_ss_pag m PT page frame) (PT + 4 * page)) = Some (frame, True, True)
     \<and> pte_view (dir_pte 0) (load32 (del_ss_pag m' PT page) (PT + 4 * page)) = None
     \<and> (\<forall>Q q. page_aligned Q \<and> q < 1024 \<and> (Q, q) \<noteq> (PT, page) \<longrightarrow>
       load32 (set_ss_pag m PT page frame) (Q + 4 * q) = load32 m (Q + 4 * q)
       \<and> load32 (del_ss_pag m PT page) (Q + 4 * q) = load32 m (Q + 4 * q))"
proof (intro conjI)
  have set: "set_ss_pag m PT page frame = store32 m (PT + 4 * page) (data_pte frame)"
    by (simp add: set_ss_pag_def Let_def upd32_store32 data_pte_def)
  have slot: "Q + 4 * q = tbl Q 0 (unat q)" for Q q :: dword
    by (simp add: tbl_def)
  have fr: "take_bit 20 frame = frame"
    using assms(3) by (simp only: word_unat_eq_iff unsigned_take_bit_eq word_less_nat_alt)
      (simp add: take_bit_nat_eq_self)
  show "get_frame (set_ss_pag m PT page frame) PT page = frame"
    by (simp add: get_frame_def set data_pte_def fr)
  show "pte_view (dir_pte 0) (load32 (set_ss_pag m PT page frame) (PT + 4 * page)) = Some (frame, True, True)"
    by (simp add: set fr)
  show "pte_view (dir_pte 0) (load32 (del_ss_pag m' PT page) (PT + 4 * page)) = None"
    by (simp add: del_ss_pag_def)
  have "load32 (store32 m (PT + 4 * page) v) (Q + 4 * q) = load32 m (Q + 4 * q)"
    if "page_aligned Q" "q < 1024" "(Q, q) \<noteq> (PT, page)" for Q q v
  proof -
    have u: "unat page < 1024" "unat q < 1024" using assms(2) that(2) by (simp_all add: word_less_nat_alt)
    show ?thesis unfolding slot using assms(1) that u
      by (intro load32_store32_other) (auto simp: aligned4_slot slot_eq_iff word_unat_eq_iff [of q page])
  qed
  then show "\<forall>Q q. page_aligned Q \<and> q < 1024 \<and> (Q, q) \<noteq> (PT, page) \<longrightarrow>
       load32 (set_ss_pag m PT page frame) (Q + 4 * q) = load32 m (Q + 4 * q)
       \<and> load32 (del_ss_pag m PT page) (Q + 4 * q) = load32 m (Q + 4 * q)"
    by (simp add: set del_ss_pag_def)
qed

theorem ss_pag_roundtrip_witness:
  "get_frame (set_ss_pag (\<lambda>_. 0) 0x2A000 300 0x101) 0x2A000 300 = 0x101"
  by (rule ss_pag_roundtrip [THEN conjunct1]) (simp_all add: page_aligned_def)

text \<open>
  \<open>current\<close> finds the task whose stack is in use: for every stack pointer inside the
  page of task \<open>i\<close> it returns the address of that task, so it is right at every depth of
  the kernel stack that starts at \<open>INITIAL_ESP\<close>, from the first push to the last word.
\<close>

theorem current_finds_task:
  assumes "layout_ok L" "i < NR_TASKS" "n < 4096"
  shows "current (task_addr L i + of_nat n) = task_addr L i
     \<and> current (INITIAL_ESP L - of_nat (n + 1)) = task_addr L 1"
proof (intro conjI)
  have cur: "current (task_addr L k + of_nat n) = task_addr L k" if k: "k < 10" and n: "n < 4096" for k n
  proof -
    obtain q where q: "unat (task_addr L k) = 4096 * q" "q < 2 ^ 20"
      using layout_rows(3) [OF assms(1) k] by (metis page_alignedE task_addr_row)
    have "unat (task_addr L k + of_nat n) = 4096 * q + n"
      using unat_add_small [of "task_addr L k" n] q n by simp
    moreover have "(esp AND 0xfffff000) = push_bit 12 (drop_bit 12 esp)" for esp :: dword
    proof -
      have hi: "(0xfffff000 :: dword) = push_bit 12 (mask 20)" by (simp add: mask_eq_exp_minus_1)
      show ?thesis unfolding hi by (rule bit_word_eqI) (auto simp: bit_simps)
    qed
    ultimately show ?thesis
      unfolding current_def word_unat_eq_iff using q n
      by (simp add: push_bit_eq_mult drop_bit_eq_div unat_word_ariths unat_div)
  qed
  show "current (task_addr L i + of_nat n) = task_addr L i" using cur assms by simp
  have "INITIAL_ESP L - of_nat (n + 1) = task_addr L 1 + of_nat (4095 - n)"
    using assms(3) by (simp add: INITIAL_ESP_def of_nat_diff)
  then show "current (INITIAL_ESP L - of_nat (n + 1)) = task_addr L 1"
    using cur [of 1 "4095 - n"] by simp
qed

theorem current_finds_task_witness:
  "current (task_addr example_layout 3 + of_nat 100) = task_addr example_layout 3"
  by (rule current_finds_task [OF example_layout_ok, THEN conjunct1]) simp_all

end
