(* ===== verification/Zeos_Interrupt.thy ===== *)
theory Zeos_Interrupt
  imports Zeos_Types Zeos_Devices
begin

text \<open>
  The processor state that \<^verbatim>\<open>hardware.c\<close> and the inline assembler of
  \<^verbatim>\<open>system.c\<close> change, the descriptor tables (\<^verbatim>\<open>interrupt.c\<close> and
  \<open>setGdt\<close>, \<open>setTSS\<close> of \<^verbatim>\<open>mm.c\<close>) and \<open>print_page_fault\<close>. \<open>set_handlers\<close>
  belongs to the binary \<^verbatim>\<open>libzeos.a\<close> and is a parameter; so are the addresses of
  the handlers and of the tables, which the linker chooses.
\<close>

section \<open>Processor registers (hardware.c)\<close>

record cpu =
  eflags :: dword
  r_ds :: word16
  r_es :: word16
  r_fs :: word16
  r_gs :: word16
  r_ss :: word16
  r_esp :: dword
  r_cs :: word16
  r_eip :: dword
  idtr :: Register
  gdtr :: Register
  ldtr :: word16
  tr :: word16
  msr :: "dword \<Rightarrow> dword"
  pic_mask :: byte

definition get_eflags :: "'a cpu_scheme \<Rightarrow> dword" where
  "get_eflags c = eflags c"

text \<open>\<open>popfl\<close> of 0; bit 1 of the register is fixed to 1.\<close>

definition set_eflags :: "'a cpu_scheme \<Rightarrow> 'a cpu_scheme" where
  "set_eflags c = c\<lparr>eflags := 0x2\<rparr>"

definition set_idt_reg :: "Register \<Rightarrow> 'a cpu_scheme \<Rightarrow> 'a cpu_scheme" where
  "set_idt_reg r c = c\<lparr>idtr := r\<rparr>"

definition set_gdt_reg :: "Register \<Rightarrow> 'a cpu_scheme \<Rightarrow> 'a cpu_scheme" where
  "set_gdt_reg r c = c\<lparr>gdtr := r\<rparr>"

definition set_ldt_reg :: "word16 \<Rightarrow> 'a cpu_scheme \<Rightarrow> 'a cpu_scheme" where
  "set_ldt_reg l c = c\<lparr>ldtr := l\<rparr>"

definition set_task_reg :: "word16 \<Rightarrow> 'a cpu_scheme \<Rightarrow> 'a cpu_scheme" where
  "set_task_reg t c = c\<lparr>tr := t\<rparr>"

text \<open>\<open>delay\<close> jumps to the next instruction.\<close>

definition delay :: "'a cpu_scheme \<Rightarrow> 'a cpu_scheme" where [simp]:
  "delay c = c"

text \<open>\<open>outb\<close> to the interrupt controller, then \<open>sti\<close> (bit 9 of the flags).\<close>

definition enable_int :: "'a cpu_scheme \<Rightarrow> 'a cpu_scheme" where
  "enable_int c = (let c = c\<lparr>pic_mask := 0xfc\<rparr>; c = delay c in c\<lparr>eflags := eflags c OR 0x200\<rparr>)"

text \<open>
  \<open>return_gate\<close> loads the data selectors, stores the double word \<open>*p_rdtr\<close> at
  \<open>esp + 12\<close> of the new stack, and leaves through \<open>lret\<close>, which pops the new
  instruction and stack pointers from the kernel stack. The words pushed for it lie below
  the kernel's stack pointer and are dead afterwards.
\<close>

definition return_gate ::
  "word16 \<Rightarrow> word16 \<Rightarrow> dword \<Rightarrow> word16 \<Rightarrow> dword \<Rightarrow> dword \<Rightarrow> mem \<times> 'a cpu_scheme \<Rightarrow> mem \<times> 'a cpu_scheme" where
  "return_gate ds ss esp cs eip p_rdtr mc =
     (let (m, c) = mc;
          c = c\<lparr>r_es := ds, r_ds := ds\<rparr>;
          m = store32 m (esp + 12) (load32 m p_rdtr)
      in (m, c\<lparr>r_eip := eip, r_cs := cs, r_esp := esp, r_ss := ss\<rparr>))"

definition set_seg_regs :: "word16 \<Rightarrow> word16 \<Rightarrow> dword \<Rightarrow> 'a cpu_scheme \<Rightarrow> 'a cpu_scheme" where
  "set_seg_regs data_sel stack_sel esp c =
     (let esp = esp - 5 * 4;
          c = c\<lparr>eflags := eflags c AND NOT 0x400\<rparr>
      in c\<lparr>r_ds := data_sel, r_es := data_sel, r_fs := data_sel, r_gs := data_sel,
           r_ss := stack_sel, r_esp := esp\<rparr>)"

definition writeMsr :: "dword \<Rightarrow> dword \<Rightarrow> 'a cpu_scheme \<Rightarrow> 'a cpu_scheme" where
  "writeMsr n v c = c\<lparr>msr := (msr c)(n := v)\<rparr>"

section \<open>Descriptor tables\<close>

definition IDT_ENTRIES :: nat where [simp]: "IDT_ENTRIES = 256"

record tables = cpu +
  idt :: "Gate list"
  idtR :: Register
  gdt :: "Descriptor list"
  gdtR :: Register
  tss :: TSS

definition make_gate :: "dword \<Rightarrow> word16 \<Rightarrow> Gate \<Rightarrow> Gate" where
  "make_gate handler flags g =
     g\<lparr>lowOffset := lowWord handler, segmentSelector := KERNEL_CS, g_flags := flags,
       highOffset := highWord handler\<rparr>"

definition setInterruptHandler :: "nat \<Rightarrow> dword \<Rightarrow> dword \<Rightarrow> 'a tables_scheme \<Rightarrow> 'a tables_scheme option" where
  "setInterruptHandler vector handler maxAccessibleFromPL t = do {
     let flags = (ucast (push_bit 13 maxAccessibleFromPL) :: word16);
     let flags = flags OR 0x8E00;
     g \<leftarrow> rd (idt t) vector;
     idt' \<leftarrow> wr (idt t) vector (make_gate handler flags g);
     Some (t\<lparr>idt := idt'\<rparr>) }"

definition setTrapHandler :: "nat \<Rightarrow> dword \<Rightarrow> dword \<Rightarrow> 'a tables_scheme \<Rightarrow> 'a tables_scheme option" where
  "setTrapHandler vector handler maxAccessibleFromPL t = do {
     let flags = (ucast (push_bit 13 maxAccessibleFromPL) :: word16);
     let flags = flags OR 0x8E00;
     g \<leftarrow> rd (idt t) vector;
     idt' \<leftarrow> wr (idt t) vector (make_gate handler flags g);
     Some (t\<lparr>idt := idt'\<rparr>) }"

text \<open>The addresses the linker gives to the tables and the handlers.\<close>

record symbols =
  s_idt :: dword
  s_tss :: dword
  s_page_fault_handler2 :: dword
  s_keyboard_handler :: dword
  s_clock_handler :: dword
  s_syscall_handler :: dword

definition setIdt :: "symbols \<Rightarrow> (Gate list \<Rightarrow> Gate list) \<Rightarrow> 'a tables_scheme \<Rightarrow> 'a tables_scheme option" where
  "setIdt S set_handlers t = do {
     let t = t\<lparr>idtR := \<lparr>r_limit = of_nat (IDT_ENTRIES * 8 - 1), r_base = s_idt S\<rparr>\<rparr>;
     let t = t\<lparr>idt := set_handlers (idt t)\<rparr>;
     t \<leftarrow> setInterruptHandler 14 (s_page_fault_handler2 S) 0 t;
     t \<leftarrow> setInterruptHandler 33 (s_keyboard_handler S) 0 t;
     t \<leftarrow> setInterruptHandler 32 (s_clock_handler S) 0 t;
     Some (set_idt_reg (idtR t) t) }"

definition setGdt :: "symbols \<Rightarrow> 'a tables_scheme \<Rightarrow> 'a tables_scheme option" where
  "setGdt S t = do {
     let i = unat (drop_bit 3 KERNEL_TSS);
     d \<leftarrow> rd (gdt t) i;
     let d = d\<lparr>lowBase := lowWord (s_tss S), midBase := midByte (s_tss S), highBase := highByte (s_tss S)\<rparr>;
     gdt' \<leftarrow> wr (gdt t) i d;
     let t = t\<lparr>gdt := gdt', gdtR := \<lparr>r_limit = of_nat (256 * 8), r_base = GDT_START\<rparr>\<rparr>;
     Some (set_gdt_reg (gdtR t) t) }"

definition setTSS :: "dword \<Rightarrow> 'a tables_scheme \<Rightarrow> 'a tables_scheme" where
  "setTSS INITIAL_ESP t =
     (let x = \<lparr>PreviousTaskLink = 0, esp0 = INITIAL_ESP, ss0 = KERNEL_DS, esp1 = 0, ss1 = 0,
               esp2 = 0, ss2 = 0, tss_cr3 = 0, tss_eip = 0, eFlags = INITIAL_EFLAGS,
               tss_eax = 0, tss_ecx = 0, tss_edx = 0, tss_ebx = 0, tss_esp = USER_ESP,
               tss_ebp = USER_ESP, tss_esi = 0, tss_edi = 0, tss_es = USER_DS, tss_cs = USER_CS,
               tss_ss = USER_DS, tss_ds = USER_DS, tss_fs = 0, tss_gs = 0,
               LDTSegmentSelector = KERNEL_TSS, debugTrap = 0, IOMapBaseAddress = 0\<rparr>
      in set_task_reg KERNEL_TSS (t\<lparr>tss := x\<rparr>))"

section \<open>Page fault report\<close>

text \<open>\<open>buff\<close> is the uninitialised local array of 10 characters.\<close>

definition print_page_fault :: "byte list \<Rightarrow> dword \<Rightarrow> console \<Rightarrow> console option" where
  "print_page_fault buff eip con = do {
     con \<leftarrow> printk (lit ''Process generates a PAGE FAULT exception at EIP: 0x'') con;
     buff \<leftarrow> itox (sint eip) buff;
     buff \<leftarrow> wr buff 8 10;
     printk buff con }"

section \<open>Lemmas\<close>

lemma make_gate_fields [simp]:
  "gate_offset (make_gate h f g) = h" "segmentSelector (make_gate h f g) = KERNEL_CS"
  "g_flags (make_gate h f g) = f"
  by (simp_all add: make_gate_def gate_offset_def high_low_Word)

lemma gate_flags_dpl:
  assumes "pl < 4"
  shows "take_bit 2 (drop_bit 13 (ucast (push_bit 13 (pl :: dword)) OR (0x8E00 :: word16))) = ucast pl"
    and "(ucast (push_bit 13 pl) OR (0x8E00 :: word16)) AND 0x9F00 = 0x8E00"
proof -
  from assms have "pl \<in> {0, 1, 2, 3}"
    by (auto simp: word_less_nat_alt word_unat_eq_iff) 
  then show "take_bit 2 (drop_bit 13 (ucast (push_bit 13 pl) OR (0x8E00 :: word16))) = ucast pl"
    and "(ucast (push_bit 13 pl) OR (0x8E00 :: word16)) AND 0x9F00 = 0x8E00"
    by (auto simp: push_bit_eq_mult take_bit_eq_mod drop_bit_eq_div)
qed

lemma setInterruptHandler_spec:
  "vector < length (idt t) \<Longrightarrow> setInterruptHandler vector h pl t =
     Some (t\<lparr>idt := (idt t)[vector := make_gate h (ucast (push_bit 13 pl) OR 0x8E00) (idt t ! vector)]\<rparr>)"
  by (simp add: setInterruptHandler_def)

lemma setTrapHandler_eq: "setTrapHandler = setInterruptHandler"
  by (intro ext) (simp add: setInterruptHandler_def setTrapHandler_def)

lemma setGdt_spec:
  "6 < length (gdt t) \<Longrightarrow> setGdt S t = Some (t\<lparr>
     gdtr := \<lparr>r_limit = 2048, r_base = GDT_START\<rparr>,
     gdt := (gdt t)[6 := (gdt t ! 6)\<lparr>lowBase := lowWord (s_tss S), midBase := midByte (s_tss S),
       highBase := highByte (s_tss S)\<rparr>],
     gdtR := \<lparr>r_limit = 2048, r_base = GDT_START\<rparr>\<rparr>)"
  by (simp add: setGdt_def set_gdt_reg_def drop_bit_eq_div)

lemma cstring_short:
  assumes "\<And>c. c \<in> set t \<Longrightarrow> c \<noteq> 0" "length t < 8"
  shows "cstring ((t @ 0 # r)[8 := 10]) = Some t"
proof -
  have "(t @ 0 # r)[8 := 10] = t @ 0 # r[8 - Suc (length t) := 10]"
  proof -
    obtain k where "8 - length t = Suc k" "8 - Suc (length t) = k"
      using assms(2) by (metis Suc_diff_Suc)
    then show ?thesis using assms(2) by (simp add: list_update_append)
  qed
  then show ?thesis using cstring_terminated [OF assms(1)] by simp
qed

lemma cstring_long:
  assumes "\<And>c. c \<in> set t \<Longrightarrow> c \<noteq> 0" "length t = 8"
  shows "cstring ((t @ 0 # [x])[8 := 10]) = (if x = 0 then Some (t @ [10]) else None)"
proof -
  have "(t @ 0 # [x])[8 := 10] = t @ [10, x]" using assms(2) by (simp add: list_update_append)
  moreover have "takeWhile (\<lambda>c. c \<noteq> 0) (t @ [10, 0]) = t @ [10 :: byte]"
    using assms(1) by (subst takeWhile_append2) auto
  ultimately show ?thesis using assms(1) by (auto simp: cstring_def)
qed

lemma radix_digits_length_ge:
  "1 < base \<Longrightarrow> base ^ k \<le> a \<Longrightarrow> k < length (radix_digits base a)"
proof (induction k arbitrary: a)
  case 0
  then show ?case by (simp add: radix_digits_step)
next
  case (Suc k)
  have "0 < a" using Suc.prems zero_less_power [of base "Suc k"] by linarith
  moreover have "base ^ k \<le> a div base"
    using zdiv_mono1 [OF Suc.prems(2), of base] Suc.prems(1) by simp
  ultimately show ?case using Suc.IH [of "a div base"] Suc.prems(1) by (simp add: radix_digits_step)
qed

lemma hex_length_8: "0x10000000 \<le> a \<Longrightarrow> int_range a \<Longrightarrow> length (numeral_text 16 hex_char a) = 8"
  using radix_digits_length_ge [of 16 7 a] hex_text_length [of a] by (simp add: numeral_text_def split: if_splits)

lemma hex_length_short: "a < 0x10000000 \<Longrightarrow> length (numeral_text 16 hex_char a) < 8"
  using numeral_text_length [of 16 a 7 hex_char] by simp

definition page_fault_text :: "byte list" where
  "page_fault_text = map (\<lambda>c. of_nat (of_char c)) ''Process generates a PAGE FAULT exception at EIP: 0x''"

lemma printk_page_fault_text:
  "printk (lit ''Process generates a PAGE FAULT exception at EIP: 0x'') con = Some (fold printc page_fault_text con)"
  by (subst printk_eq, subst cstring_lit) (simp_all add: page_fault_text_def)

lemma print_page_fault_eq:
  assumes "length buff = 10"
  shows "print_page_fault buff eip con =
    (let digits = numeral_text 16 hex_char (uint eip) in
     if eip < 0x10000000 then Some (fold printc (page_fault_text @ digits) con)
     else if eip < 0x80000000
     then (if buff ! 9 = 0 then Some (fold printc (page_fault_text @ digits @ [10]) con) else None)
     else Some (fold printc page_fault_text con))"
proof -
  let ?d = "numeral_text 16 hex_char (sint eip)"
  let ?b = "?d @ 0 # drop (Suc (length ?d)) buff"
  have short: "length ?d \<le> 8" by (rule hex_text_length) simp
  have "itox (sint eip) buff = Some ?b" using short assms by (simp add: itox_spec)
  then have run: "print_page_fault buff eip con = map_option (\<lambda>t. fold printc (page_fault_text @ t) con) (cstring (?b[8 := 10]))"
    unfolding print_page_fault_def printk_page_fault_text using short assms by (simp add: printk_eq)
  consider "eip < 0x10000000" | "\<not> eip < 0x10000000" "eip < 0x80000000" | "\<not> eip < 0x80000000" by blast
  then show ?thesis
  proof cases
    case 1
    then have "eip < 0x80000000" by (simp add: word_less_nat_alt)
    then have u: "sint eip = uint eip" by (rule sint_eq_uint_low)
    have "cstring (?b[8 := 10]) = Some ?d"
      using 1 by (intro cstring_short hex_length_short hex_text_nonzero) (simp_all add: u word_less_def)
    with 1 show ?thesis unfolding run by (simp add: u)
  next
    case 2
    then have u: "sint eip = uint eip" by (intro sint_eq_uint_low)
    have "0x10000000 \<le> sint eip" using 2(1) by (simp add: u word_less_def)
    then have 8: "length ?d = 8" by (rule hex_length_8) simp
    have "drop (Suc (length ?d)) buff = [buff ! 9]"
      unfolding 8 using assms Cons_nth_drop_Suc [of 9 buff] by simp
    then have "cstring (?b[8 := 10]) = (if buff ! 9 = 0 then Some (?d @ [10]) else None)"
      using cstring_long [OF hex_text_nonzero 8] by simp
    with 2 show ?thesis unfolding run by (simp add: u Let_def)
  next
    case 3
    then have "sint eip < 0" by (rule sint_high)
    then have "?d = []" by simp
    then have "cstring (?b[8 := 10]) = Some []" using cstring_short [of ?d] by simp
    moreover have "\<not> eip < 0x10000000" using 3 by (simp add: word_less_nat_alt)
    ultimately show ?thesis unfolding run using 3 by (simp add: Let_def)
  qed
qed

text \<open>The processor and the tables after reset, as concrete values.\<close>

definition zero_tables :: tables where
  "zero_tables = \<lparr>eflags = 2, r_ds = 0, r_es = 0, r_fs = 0, r_gs = 0, r_ss = 0, r_esp = 0, r_cs = 0, r_eip = 0,
     idtr = \<lparr>r_limit = 0, r_base = 0\<rparr>, gdtr = \<lparr>r_limit = 0, r_base = 0\<rparr>, ldtr = 0, tr = 0,
     msr = (\<lambda>_. 0), pic_mask = 0xFF,
     idt = replicate 256 \<lparr>lowOffset = 0, segmentSelector = 0, g_flags = 0, highOffset = 0\<rparr>,
     idtR = \<lparr>r_limit = 0, r_base = 0\<rparr>,
     gdt = replicate 7 \<lparr>d_limit = 0, lowBase = 0, midBase = 0, flags1 = 0, flags2 = 0, highBase = 0\<rparr>,
     gdtR = \<lparr>r_limit = 0, r_base = 0\<rparr>,
     tss = \<lparr>PreviousTaskLink = 0, esp0 = 0, ss0 = 0, esp1 = 0, ss1 = 0,
       esp2 = 0, ss2 = 0, tss_cr3 = 0, tss_eip = 0, eFlags = 0,
       tss_eax = 0, tss_ecx = 0, tss_edx = 0, tss_ebx = 0, tss_esp = 0,
       tss_ebp = 0, tss_esi = 0, tss_edi = 0, tss_es = 0, tss_cs = 0,
       tss_ss = 0, tss_ds = 0, tss_fs = 0, tss_gs = 0,
       LDTSegmentSelector = 0, debugTrap = 0, IOMapBaseAddress = 0\<rparr>\<rparr>"

definition example_symbols :: symbols where
  "example_symbols = \<lparr>s_idt = 0x1C000, s_tss = 0x1D0A4, s_page_fault_handler2 = 0x11234,
     s_keyboard_handler = 0x11260, s_clock_handler = 0x11280, s_syscall_handler = 0x11200\<rparr>"

lemma length_zero_tables: "length (idt zero_tables) = 256" "length (gdt zero_tables) = 7"
  by (simp_all add: zero_tables_def)

section \<open>Properties\<close>

text \<open>
  \<open>setInterruptHandler\<close> for a vector of the table and a privilege level of the
  processor: the gate it writes leads to exactly the given handler in the kernel code
  segment, is present and a 32-bit interrupt gate, and is open to exactly the given
  privilege level; no other gate changes. A vector outside the table is an access outside
  \<open>idt\<close>. \<open>setTrapHandler\<close> installs the same kind of gate, so traps run with interrupts off.
\<close>

theorem setInterruptHandler_gate:
  assumes "length (idt t) = IDT_ENTRIES" "pl < 4"
  shows "(if vector < IDT_ENTRIES
      then \<exists>t'. setInterruptHandler vector h pl t = Some t' \<and> setTrapHandler vector h pl t = Some t'
        \<and> length (idt t') = IDT_ENTRIES
        \<and> gate_offset (idt t' ! vector) = h \<and> segmentSelector (idt t' ! vector) = KERNEL_CS
        \<and> gate_dpl (idt t' ! vector) = ucast pl \<and> g_flags (idt t' ! vector) AND 0x9F00 = 0x8E00
        \<and> (\<forall>v. v \<noteq> vector \<longrightarrow> idt t' ! v = idt t ! v)
      else setInterruptHandler vector h pl t = None \<and> setTrapHandler vector h pl t = None)"
  using assms gate_flags_dpl [OF assms(2)]
  by (simp add: setTrapHandler_eq setInterruptHandler_spec gate_dpl_def)
    (simp add: setInterruptHandler_def)

theorem setInterruptHandler_gate_witness:
  "\<exists>t'. setInterruptHandler 128 0x12345 3 zero_tables = Some t' \<and> gate_offset (idt t' ! 128) = 0x12345
     \<and> gate_dpl (idt t' ! 128) = 3"
  using setInterruptHandler_gate [of zero_tables 3 128 "0x12345"] length_zero_tables(1) by auto

text \<open>
  \<open>setIdt\<close>, whatever gates \<open>set_handlers\<close> installs: it completes, and then the page
  fault (14), the clock (32) and the keyboard (33) vectors lead to their own handlers in the
  kernel code segment, present, 32-bit interrupt gates, closed to ring 3; the other
  vectors keep what \<open>set_handlers\<close> gave them. The processor's IDTR holds the address of the
  table and the limit of its last byte.
\<close>

theorem setIdt_installs:
  assumes "length (set_handlers (idt t)) = IDT_ENTRIES"
  shows "\<exists>t'. setIdt S set_handlers t = Some t'
     \<and> (\<forall>v < IDT_ENTRIES. v \<notin> {14, 32, 33} \<longrightarrow> idt t' ! v = set_handlers (idt t) ! v)
     \<and> map (\<lambda>v. gate_offset (idt t' ! v)) [14, 32, 33]
         = [s_page_fault_handler2 S, s_clock_handler S, s_keyboard_handler S]
     \<and> (\<forall>v \<in> {14, 32, 33}. segmentSelector (idt t' ! v) = KERNEL_CS \<and> gate_dpl (idt t' ! v) = 0
          \<and> g_flags (idt t' ! v) = 0x8E00)
     \<and> r_base (idtr t') = s_idt S \<and> unat (r_limit (idtr t')) + 1 = 8 * length (idt t')"
  using assms by (simp add: setIdt_def setInterruptHandler_spec set_idt_reg_def gate_dpl_def drop_bit_eq_div)

theorem setIdt_installs_witness:
  "\<exists>t'. setIdt example_symbols (\<lambda>g. g) zero_tables = Some t' \<and> gate_offset (idt t' ! 33) = 0x11260"
  using setIdt_installs [of "\<lambda>g. g" zero_tables example_symbols] length_zero_tables(1)
  by (auto simp: example_symbols_def)

text \<open>
  C36. Segmentation: \<open>setGdt\<close> changes only the base of the TSS descriptor, which the
  processor then reads as the address of \<open>tss\<close>, and loads GDTR; \<open>setTSS\<close> makes ring-3 code
  enter the kernel on \<open>INITIAL_ESP\<close> in the kernel data segment and selects that descriptor
  in the task register. The limit \<open>setGdt\<close> loads is one more than that of the last byte of
  the 256 descriptors it is meant to cover.
\<close>

theorem segmentation_setup:
  assumes "6 < length (gdt t)"
  shows "\<exists>t' d. setGdt S t = Some t' \<and> d = gdt t' ! 6
     \<and> descriptor_base d = s_tss S \<and> d_limit d = d_limit (gdt t ! 6)
     \<and> flags1 d = flags1 (gdt t ! 6) \<and> flags2 d = flags2 (gdt t ! 6)
     \<and> (\<forall>i. i \<noteq> 6 \<longrightarrow> gdt t' ! i = gdt t ! i)
     \<and> r_base (gdtr t') = GDT_START \<and> unat (r_limit (gdtr t')) + 1 = 8 * 256 + 1
     \<and> tr (setTSS e t') div 8 = 6 \<and> esp0 (tss (setTSS e t')) = e \<and> ss0 (tss (setTSS e t')) = KERNEL_DS
     \<and> gdt (setTSS e t') = gdt t'"
  using assms
  by (simp add: setGdt_def setTSS_def set_gdt_reg_def set_task_reg_def drop_bit_eq_div descriptor_base_def
      high_mid_low)

theorem segmentation_setup_witness:
  "\<exists>t'. setGdt example_symbols zero_tables = Some t' \<and> descriptor_base (gdt t' ! 6) = 0x1D0A4"
  using segmentation_setup [of zero_tables example_symbols] length_zero_tables(2)
  by (auto simp: example_symbols_def)

text \<open>
  C40. \<open>print_page_fault\<close> prints its message and then the faulting address in hexadecimal
  only when that address is below 0x10000000, and without the newline it means to add,
  which it puts after the end of the string. For addresses from 0x10000000 to 0x7FFFFFFF the
  newline overwrites the terminator, and the output is right only if the uninitialised last
  character of the buffer happens to be 0 (otherwise \<open>printk\<close> reads past the array). For
  addresses from 0x80000000 no digit is printed.
\<close>

theorem print_page_fault_cases:
  assumes "length buff = 10"
  shows "print_page_fault buff eip con =
    (let digits = numeral_text 16 hex_char (uint eip) in
     if eip < 0x10000000 then Some (fold printc (page_fault_text @ digits) con)
     else if eip < 0x80000000
     then (if buff ! 9 = 0 then Some (fold printc (page_fault_text @ digits @ [10]) con) else None)
     else Some (fold printc page_fault_text con))"
  by (rule print_page_fault_eq [OF assms])

theorem print_page_fault_cases_witness:
  "print_page_fault (replicate 10 7) 0x12345678 (console_init (\<lambda>_. 0)) = None
    \<and> print_page_fault (replicate 10 7) 0x114ABC (console_init (\<lambda>_. 0))
       = Some (fold printc (page_fault_text @ [49, 49, 52, 65, 66, 67]) (console_init (\<lambda>_. 0)))"
proof -
  have "numeral_text 16 hex_char 0x114ABC = [49, 49, 52, 65, 66, 67]"
    by (simp add: numeral_text_def radix_digits_step hex_char_def)
  then show ?thesis
    using print_page_fault_cases [of "replicate 10 7" "0x114ABC" "console_init (\<lambda>_. 0)"]
      print_page_fault_cases [of "replicate 10 7" "0x12345678" "console_init (\<lambda>_. 0)"] by (simp add: Let_def)
qed

end
