(* ===== verification/Zeos_Sys.thy ===== *)
theory Zeos_Sys
  imports Zeos_Paging Zeos_Devices Zeos_Utils
begin

text \<open>
  The system calls of \<^verbatim>\<open>sys.c\<close>, the dispatch of \<^verbatim>\<open>sys_call_table.S\<close> and
  the part of the entry points of \<^verbatim>\<open>entry.S\<close> that selects the routine
  (\<open>dispatch_syscall\<close>; the rest of them is in Zeos_Entry). The kernel state is that of the
  devices (clock and console) with the memory management state. The address \<open>kb\<close> of the
  local array \<open>buff[128]\<close> of \<open>sys_write\<close> and the stack pointer \<open>esp\<close> that \<open>current\<close>
  reads are parameters; the kernel stacks lie below the user region, which is what
  \<open>kbuf_ok\<close> says of \<open>kb\<close>.
\<close>

record kernel = devices +
  kmm :: mm_state

definition LECTURA :: int where [simp]: "LECTURA = 0"
definition ESCRIPTURA :: int where [simp]: "ESCRIPTURA = 1"

definition check_fd :: "int \<Rightarrow> int \<Rightarrow> int" where
  "check_fd fd permissions =
     (if fd \<noteq> 1 then - 9
      else if permissions \<noteq> ESCRIPTURA then - 13
      else 0)"

definition sys_ni_syscall :: int where
  "sys_ni_syscall = - 38"

definition sys_getpid :: "dword \<Rightarrow> 'a kernel_scheme \<Rightarrow> int" where
  "sys_getpid esp k = sint (PID (task_at (kmem (kmm k)) (current esp)))"

definition sys_fork :: int where
  "sys_fork = (let PID = - 1 in PID)"

definition sys_exit :: "'a kernel_scheme \<Rightarrow> 'a kernel_scheme" where
  "sys_exit k = k"

text \<open>The loop of \<open>sys_write\<close>: its variables are \<open>written_chars\<close>, \<open>current\<close> and \<open>left\<close>.\<close>

function write_chunks ::
  "dword \<Rightarrow> dword \<Rightarrow> int \<times> int \<times> int \<Rightarrow> mem \<times> console \<Rightarrow> (int \<times> int \<times> int) \<times> mem \<times> console" where
  "write_chunks kb buffer (written_chars, cur, left) (m, con) =
     (if left > 128 then
        let (m, _) = copy_from_user m (buffer + word_of_int cur) kb 128;
            (con, n) = sys_write_console m kb 128 con
        in write_chunks kb buffer (written_chars + n, cur + 128, left - 128) (m, con)
      else ((written_chars, cur, left), m, con))"
  by pat_completeness auto
termination
  by (relation "measure (\<lambda>(kb, buffer, (w, c, left), s). nat left)") auto

declare write_chunks.simps [simp del]

definition sys_write :: "dword \<Rightarrow> int \<Rightarrow> dword \<Rightarrow> int \<Rightarrow> 'a kernel_scheme \<Rightarrow> 'a kernel_scheme \<times> int" where
  "sys_write kb fd buffer sz k =
     (let check = check_fd fd ESCRIPTURA
      in if check < 0 then (k, check)
         else if buffer = 0 then (k, - 22)
         else if sz < 0 then (k, - 22)
         else if \<not> access_ok LECTURA buffer (word_of_int sz) then (k, - 14)
         else
           let ((written_chars, cur, left), m, con) =
                 write_chunks kb buffer (0, 0, sz) (kmem (kmm k), kcon k);
               (m, _) = copy_from_user m (buffer + word_of_int cur) kb left;
               (con, n) = sys_write_console m kb left con
           in (k\<lparr>kcon := con, kmm := (kmm k)\<lparr>kmem := m\<rparr>\<rparr>, written_chars + n))"

definition sys_gettime :: "'a kernel_scheme \<Rightarrow> int" where
  "sys_gettime k = get_clock_ticks k"

section \<open>Dispatch (sys_call_table.S and entry.S)\<close>

datatype service = Sys_ni_syscall | Sys_write | Sys_gettime

definition sys_call_table :: "service list" where
  "sys_call_table = [Sys_ni_syscall, Sys_ni_syscall, Sys_ni_syscall, Sys_ni_syscall, Sys_write,
     Sys_ni_syscall, Sys_ni_syscall, Sys_ni_syscall, Sys_ni_syscall, Sys_ni_syscall, Sys_gettime]"

definition MAX_SYSCALL :: int where
  "MAX_SYSCALL = int (length sys_call_table)"

text \<open>
  The bounds check and the call through the table: the number in EAX and the arguments in EDX, ECX and EBX, in the order
  in which \<open>SAVE_ALL\<close> leaves them on the stack; the result is the EAX that is restored.
  \<open>jg\<close> compares signed, and a call through an entry after the table has no result.
\<close>

definition dispatch_syscall ::
  "dword \<Rightarrow> dword \<Rightarrow> dword \<Rightarrow> dword \<Rightarrow> dword \<Rightarrow> 'a kernel_scheme \<Rightarrow> ('a kernel_scheme \<times> dword) option" where
  "dispatch_syscall kb eax edx ecx ebx k =
     (if sint eax < 0 then Some (k, - 38)
      else if sint eax > MAX_SYSCALL then Some (k, - 38)
      else do {
        f \<leftarrow> rd sys_call_table (unat eax);
        case f of
          Sys_ni_syscall \<Rightarrow> Some (k, word_of_int sys_ni_syscall)
        | Sys_write \<Rightarrow> (let (k, r) = sys_write kb (sint edx) ecx (sint ebx) k in Some (k, word_of_int r))
        | Sys_gettime \<Rightarrow> Some (k, word_of_int (sys_gettime k)) })"

section \<open>Lemmas\<close>

definition kbuf_ok :: "dword \<Rightarrow> bool" where
  "kbuf_ok kb \<longleftrightarrow> unat kb + 128 \<le> unat L_USER_START"

text \<open>Memories that agree outside the kernel's buffer.\<close>

definition agree_outside :: "dword \<Rightarrow> nat \<Rightarrow> mem \<Rightarrow> mem \<Rightarrow> bool" where
  "agree_outside a n m m' \<longleftrightarrow> (\<forall>b. (\<forall>i<n. b \<noteq> a + of_nat i) \<longrightarrow> m' b = m b)"

lemma agree_outside_refl: "agree_outside a n m m"
  by (simp add: agree_outside_def)

lemma agree_outside_trans: "agree_outside a n m m' \<Longrightarrow> agree_outside a n m' m'' \<Longrightarrow> agree_outside a n m m''"
  by (simp add: agree_outside_def)

lemma agree_outside_write:
  "length bs \<le> n \<Longrightarrow> agree_outside a n m (write_bytes m a bs)"
  unfolding agree_outside_def using order_less_le_trans by (blast intro!: write_bytes_other)

lemma user_range_outside:
  assumes "kbuf_ok kb" "0x100000 \<le> unat b" "i < 128"
  shows "b \<noteq> kb + of_nat i"
  using assms unat_add_small [of kb i] by (auto simp: kbuf_ok_def)

lemma read_user_agree:
  assumes "kbuf_ok kb" "agree_outside kb 128 m m'" "0x100000 \<le> unat buffer" "unat buffer + n \<le> 2 ^ 32"
  shows "read_bytes m' buffer n = read_bytes m buffer n"
proof (rule read_bytes_cong)
  fix i assume "i < n"
  then have "0x100000 \<le> unat (buffer + of_nat i)" using assms(3,4) unat_add_small [of buffer i] by simp
  then have "\<forall>j<128. buffer + of_nat i \<noteq> kb + of_nat j"
    using user_range_outside [OF assms(1)] by blast
  then show "m' (buffer + of_nat i) = m (buffer + of_nat i)"
    using assms(2) by (simp add: agree_outside_def)
qed

text \<open>One chunk: the bytes that are copied into the buffer are the bytes that are printed.\<close>

lemma write_chunk:
  assumes "kbuf_ok kb" "0x100000 \<le> unat buffer" "unat buffer + n \<le> 2 ^ 32" "n \<le> 128"
  shows "copy_from_user m buffer kb (int n) = (write_bytes m kb (read_bytes m buffer n), 0)"
    and "sys_write_console (write_bytes m kb (read_bytes m buffer n)) kb (int n) con
       = (fold printc (read_bytes m buffer n) con, int n)"
proof -
  have "unat kb + n \<le> unat buffer" using assms by (simp add: kbuf_ok_def)
  then have "disjoint_ranges buffer kb n" using disjoint_rangesI [of kb n buffer] assms(3) by simp
  then show "copy_from_user m buffer kb (int n) = (write_bytes m kb (read_bytes m buffer n), 0)"
    by (simp add: copy_from_user_eq copy_data_spec)
  show "sys_write_console (write_bytes m kb (read_bytes m buffer n)) kb (int n) con
       = (fold printc (read_bytes m buffer n) con, int n)"
    using read_write_bytes [of "read_bytes m buffer n" m kb] assms(4)
    by (simp add: sys_write_console_spec)
qed

lemma write_chunks_spec:
  assumes "kbuf_ok kb" "0x100000 \<le> unat (buffer + word_of_int cur)" "0 \<le> left"
    and "unat (buffer + word_of_int cur) + nat left < 2 ^ 32"
  shows "\<exists>m' j. write_chunks kb buffer (w, cur, left) (m, con)
       = ((w + int j, cur + int j, left - int j), m', fold printc (read_bytes m (buffer + word_of_int cur) j) con)
     \<and> int j \<le> left \<and> left - int j \<le> 128 \<and> agree_outside kb 128 m m'"
  using assms
proof (induction "nat left" arbitrary: w cur left m con rule: less_induct)
  case less
  let ?a = "buffer + word_of_int cur"
  show ?case
  proof (cases "left > 128")
    case False
    then show ?thesis using less.prems
      by (intro exI [of _ m] exI [of _ 0]) (simp add: write_chunks.simps agree_outside_refl)
  next
    case True
    let ?m = "write_bytes m kb (read_bytes m ?a 128)"
    let ?con = "fold printc (read_bytes m ?a 128) con"
    have a: "buffer + word_of_int (cur + 128) = ?a + of_nat 128" by simp
    have ua: "unat (?a + of_nat 128) = unat ?a + 128"
      using less.prems(4) True by (intro unat_add_small) simp
    have step: "write_chunks kb buffer (w, cur, left) (m, con)
        = write_chunks kb buffer (w + 128, cur + 128, left - 128) (?m, ?con)"
      using True write_chunk [OF less.prems(1,2), of 128 m] less.prems(4)
      by (subst write_chunks.simps) (simp add: Let_def)
    have "nat (left - 128) < nat left" using True by simp
    from less.hyps [OF this less.prems(1), of "cur + 128" "w + 128" ?m ?con] True less.prems(2,4)
    obtain m' j where mj: "write_chunks kb buffer (w + 128, cur + 128, left - 128) (?m, ?con)
       = ((w + 128 + int j, cur + 128 + int j, left - 128 - int j), m',
          fold printc (read_bytes ?m (?a + of_nat 128) j) ?con)"
      "int j \<le> left - 128" "left - 128 - int j \<le> 128" "agree_outside kb 128 ?m m'"
      unfolding a ua by (auto simp: nat_diff_distrib)
    have ag: "agree_outside kb 128 m ?m" by (rule agree_outside_write) simp
    have "read_bytes ?m (?a + of_nat 128) j = read_bytes m (?a + of_nat 128) j"
      using less.prems mj(2) ua by (intro read_user_agree [OF less.prems(1) ag]) auto
    then have "fold printc (read_bytes ?m (?a + of_nat 128) j) ?con = fold printc (read_bytes m ?a (128 + j)) con"
      by (simp add: read_bytes_add)
    then show ?thesis
      using mj agree_outside_trans [OF ag mj(4)] unfolding step
      by (intro exI [of _ m'] exI [of _ "128 + j"]) (simp add: algebra_simps)
  qed
qed

lemma access_ok_user:
  assumes "int_range sz" "0 \<le> sz"
  shows "access_ok type buffer (word_of_int sz) \<longleftrightarrow> 0x100000 \<le> unat buffer \<and> unat buffer + nat sz < 0x11D000"
proof -
  have u: "uint (word_of_int sz :: dword) = sz" using assms by (intro uint_of_small) (simp_all add: int_range_def)
  have "uint (word_of_int sz :: dword) < 2 ^ 31" using assms unfolding u by (simp add: int_range_def)
  from access_ok_range [OF this, of type buffer]
  have "access_ok type buffer (word_of_int sz) \<longleftrightarrow> 0x100000 \<le> uint buffer \<and> uint buffer + sz < 0x11D000"
    unfolding u .
  moreover have "uint buffer = int (unat buffer)" by simp
  ultimately show ?thesis using assms(2) by linarith
qed

lemma sys_write_success:
  assumes "kbuf_ok kb" "int_range sz" "0 \<le> sz" "0x100000 \<le> unat buffer" "unat buffer + nat sz < 0x11D000"
  shows "\<exists>m'. sys_write kb 1 buffer sz k =
       (k\<lparr>kcon := fold printc (read_bytes (kmem (kmm k)) buffer (nat sz)) (kcon k), kmm := (kmm k)\<lparr>kmem := m'\<rparr>\<rparr>, sz)
     \<and> agree_outside kb 128 (kmem (kmm k)) m'"
proof -
  let ?m = "kmem (kmm k)"
  have acc: "access_ok LECTURA buffer (word_of_int sz)" using assms by (simp add: access_ok_user)
  have nz: "buffer \<noteq> 0" using assms(4) by auto
  obtain m1 j where m1: "write_chunks kb buffer (0, 0, sz) (?m, kcon k)
       = ((int j, int j, sz - int j), m1, fold printc (read_bytes ?m buffer j) (kcon k))"
     "int j \<le> sz" "sz - int j \<le> 128" "agree_outside kb 128 ?m m1"
    using write_chunks_spec [OF assms(1), of buffer 0 sz 0 ?m "kcon k"] assms(3-5) by auto
  define n where "n = nat sz - j"
  have n: "sz - int j = int n" "n \<le> 128" "nat sz = j + n" using m1(2,3) assms(3) by (simp_all add: n_def)
  let ?b = "buffer + of_nat j"
  have ub: "unat ?b = unat buffer + j" using assms(5) n by (intro unat_add_small) simp
  have wc: "0x100000 \<le> unat ?b" "unat ?b + n \<le> 2 ^ 32" using assms(4,5) n ub by simp_all
  let ?m2 = "write_bytes m1 kb (read_bytes m1 ?b n)"
  have rd: "read_bytes m1 ?b n = read_bytes ?m ?b n"
    using read_user_agree [OF assms(1) m1(4) wc] .
  have "sys_write kb 1 buffer sz k =
      (k\<lparr>kcon := fold printc (read_bytes m1 ?b n) (fold printc (read_bytes ?m buffer j) (kcon k)),
         kmm := (kmm k)\<lparr>kmem := ?m2\<rparr>\<rparr>, sz)"
    using acc nz assms(3) m1(1) n(1) write_chunk [OF assms(1) wc n(2), of m1]
    by (simp add: sys_write_def check_fd_def Let_def)
  then have "sys_write kb 1 buffer sz k =
      (k\<lparr>kcon := fold printc (read_bytes ?m buffer (nat sz)) (kcon k), kmm := (kmm k)\<lparr>kmem := ?m2\<rparr>\<rparr>, sz)"
    unfolding rd n(3) by (simp add: read_bytes_add)
  moreover have "agree_outside kb 128 ?m ?m2"
    using n(2) by (intro agree_outside_trans [OF m1(4)] agree_outside_write) simp
  ultimately show ?thesis by blast
qed

lemma sys_write_error:
  assumes "int_range sz" "\<not> (fd = 1 \<and> 0 \<le> sz \<and> 0x100000 \<le> unat buffer \<and> unat buffer + nat sz < 0x11D000)"
  shows "sys_write kb fd buffer sz k = (k, if fd \<noteq> 1 then - 9 else if buffer = 0 \<or> sz < 0 then - 22 else - 14)"
  using assms access_ok_user [OF assms(1), of LECTURA buffer]
  by (auto simp: sys_write_def check_fd_def Let_def)

lemma dispatch_syscall_write:
  "dispatch_syscall kb 4 edx ecx ebx k =
     (let (k, r) = sys_write kb (sint edx) ecx (sint ebx) k in Some (k, word_of_int r))"
  by (simp add: dispatch_syscall_def MAX_SYSCALL_def sys_call_table_def rd_def)

lemma dispatch_syscall_gettime: "dispatch_syscall kb 10 edx ecx ebx k = Some (k, zeos_ticks k)"
  by (simp add: dispatch_syscall_def MAX_SYSCALL_def sys_call_table_def rd_def sys_gettime_def get_clock_ticks_def)

text \<open>
  What a system call means to its caller: the bytes it prints and the value it returns, from
  the memory and the tick count; \<open>None\<close> for the number that is called past the table.
\<close>

definition syscall_spec ::
  "mem \<Rightarrow> dword \<Rightarrow> dword \<Rightarrow> dword \<Rightarrow> dword \<Rightarrow> dword \<Rightarrow> (byte list \<times> dword) option" where
  "syscall_spec m ticks n a b c =
     (if n = 11 then None
      else if n = 4 then
        if a \<noteq> 1 then Some ([], - 9)
        else if b = 0 \<or> sint c < 0 then Some ([], - 22)
        else if unat b < 0x100000 \<or> 0x11D000 \<le> unat b + unat c then Some ([], - 14)
        else Some (read_bytes m b (unat c), c)
      else if n = 10 then Some ([], ticks)
      else Some ([], - 38))"

lemma syscall_spec_total: "n \<noteq> 11 \<Longrightarrow> \<exists>t r. syscall_spec m ticks n a b c = Some (t, r)"
  by (simp add: syscall_spec_def)

lemma dispatch_refused:
  "sint n < 0 \<or> sint n > MAX_SYSCALL \<Longrightarrow> dispatch_syscall kb n a b c k = Some (k, - 38)"
  unfolding dispatch_syscall_def by presburger

lemma dispatch_unknown:
  assumes "n \<notin> {4, 10, 11}"
  shows "dispatch_syscall kb n a b c k = Some (k, - 38)"
proof (cases "sint n < 0 \<or> 11 < sint n")
  case True
  then show ?thesis by (intro dispatch_refused) (simp add: MAX_SYSCALL_def sys_call_table_def)
next
  case False
  then have "n < 0x80000000" using sint_high by force
  then have "uint n \<le> 11" using False by (simp add: sint_eq_uint_low)
  then have "unat n < 12" by (simp add: nat_le_iff flip: nat_uint_eq)
  then have "unat n \<in> {0, 1, 2, 3, 4, 5, 6, 7, 8, 9, 10, 11}" by (simp, presburger)
  then have "unat n \<in> {0, 1, 2, 3, 5, 6, 7, 8, 9}"
    using assms by (auto simp: word_unat_eq_iff)
  then show ?thesis using False
    by (auto simp: dispatch_syscall_def MAX_SYSCALL_def sys_call_table_def sys_ni_syscall_def)
qed

lemma dispatch_past: "dispatch_syscall kb 11 a b c k = None"
  by (simp add: dispatch_syscall_def MAX_SYSCALL_def sys_call_table_def)

lemma dispatch_refines:
  assumes "kbuf_ok kb" "syscall_spec (kmem (kmm k)) (zeos_ticks k) n a b c = Some (t, r)"
  shows "\<exists>m'. dispatch_syscall kb n a b c k =
       Some (k\<lparr>kcon := fold printc t (kcon k), kmm := (kmm k)\<lparr>kmem := m'\<rparr>\<rparr>, r)
     \<and> agree_outside kb 128 (kmem (kmm k)) m'"
proof -
  have self: "\<exists>m'. Some (k, r) = Some (k\<lparr>kcon := fold printc [] (kcon k), kmm := (kmm k)\<lparr>kmem := m'\<rparr>\<rparr>, r)
     \<and> agree_outside kb 128 (kmem (kmm k)) m'"
    by (intro exI [of _ "kmem (kmm k)"]) (simp add: agree_outside_refl)
  have "n \<noteq> 11" using assms(2) by (auto simp: syscall_spec_def)
  then consider "n = 4" | "n = 10" | "n \<notin> {4, 10, 11}" by blast
  then show ?thesis
  proof cases
    case 2
    then show ?thesis using assms(2) self by (auto simp: syscall_spec_def dispatch_syscall_gettime)
  next
    case 3
    then show ?thesis using assms(2) self by (auto simp: syscall_spec_def dispatch_unknown)
  next
    case 1
    let ?ok = "sint a = 1 \<and> 0 \<le> sint c \<and> 0x100000 \<le> unat b \<and> unat b + nat (sint c) < 0x11D000"
    have sc: "nat (sint c) = unat c" if "0 \<le> sint c"
      using that sint_high [of c] sint_eq_uint_low [of c] by (cases "c < 0x80000000") simp_all
    show ?thesis
    proof (cases ?ok)
      case True
      then have "t = read_bytes (kmem (kmm k)) b (unat c)" "r = c" "nat (sint c) = unat c"
        using assms(2) 1 sc by (auto simp: syscall_spec_def sint_eq_1_iff split: if_splits)
      moreover obtain m' where "sys_write kb 1 b (sint c) k =
         (k\<lparr>kcon := fold printc (read_bytes (kmem (kmm k)) b (nat (sint c))) (kcon k), kmm := (kmm k)\<lparr>kmem := m'\<rparr>\<rparr>, sint c)"
        "agree_outside kb 128 (kmem (kmm k)) m'"
        using sys_write_success [OF assms(1) int_range_sint [of c], of b k] True by blast
      ultimately show ?thesis using 1 True by (auto simp: dispatch_syscall_write)
    next
      case False
      have "t = []" "r = word_of_int (if sint a \<noteq> 1 then - 9 else if b = 0 \<or> sint c < 0 then - 22 else - 14)"
        using assms(2) 1 False sc by (auto simp: syscall_spec_def sint_eq_1_iff split: if_splits)
      then show ?thesis
        using 1 sys_write_error [OF int_range_sint False, of kb k] self by (simp add: dispatch_syscall_write)
    qed
  qed
qed

definition example_kernel :: kernel where
  "example_kernel = \<lparr>zeos_ticks = 7, kcon = console_init (\<lambda>_. 0),
     kmm = \<lparr>kmem = (\<lambda>a. ucast a), phys_mem = replicate 1024 0, cr0 = 0, cr3 = 0\<rparr>\<rparr>"

section \<open>Properties\<close>

text \<open>
  C5. \<open>sys_write\<close> on every branch. A bad descriptor gives -9, then a null buffer or a
  negative size -22, then a range that is not in the user region -14, each without any
  change of state. Otherwise the call returns the size, and has sent to the console exactly
  the bytes that the user memory held, in order, however many 128-byte chunks they took; it
  wrote to memory only inside its own buffer, and changed nothing else.
\<close>

theorem sys_write_exact:
  assumes "kbuf_ok kb" "int_range sz"
  shows "if fd = 1 \<and> 0 \<le> sz \<and> 0x100000 \<le> unat buffer \<and> unat buffer + nat sz < 0x11D000
     then \<exists>m'. sys_write kb fd buffer sz k =
         (k\<lparr>kcon := fold printc (read_bytes (kmem (kmm k)) buffer (nat sz)) (kcon k),
            kmm := (kmm k)\<lparr>kmem := m'\<rparr>\<rparr>, sz)
       \<and> agree_outside kb 128 (kmem (kmm k)) m'
     else sys_write kb fd buffer sz k =
       (k, if fd \<noteq> 1 then - 9 else if buffer = 0 \<or> sz < 0 then - 22 else - 14)"
proof (cases "fd = 1 \<and> 0 \<le> sz \<and> 0x100000 \<le> unat buffer \<and> unat buffer + nat sz < 0x11D000")
  case True
  then have "fd = 1" "0 \<le> sz" "0x100000 \<le> unat buffer" "unat buffer + nat sz < 0x11D000" by blast+
  then show ?thesis using sys_write_success [OF assms, of buffer k] True by presburger
next
  case False
  then show ?thesis unfolding if_not_P [OF False] by (intro sys_write_error assms(2))
qed

theorem sys_write_exact_witness:
  "\<exists>m'. sys_write 0x36000 1 0x100000 300 example_kernel =
      (example_kernel\<lparr>kcon := fold printc (read_bytes (kmem (kmm example_kernel)) 0x100000 (nat 300))
           (kcon example_kernel),
         kmm := (kmm example_kernel)\<lparr>kmem := m'\<rparr>\<rparr>, 300)
     \<and> agree_outside 0x36000 128 (kmem (kmm example_kernel)) m'"
  using sys_write_exact [of "0x36000" 300 1 "0x100000" example_kernel]
  by (simp add: kbuf_ok_def int_range_def)

text \<open>
  C30. Dispatch: a negative number and every number above 11 is refused with -38, and so are
  the numbers of the table that have no service; 4 is \<open>sys_write\<close> with descriptor, buffer
  and size from EDX, ECX and EBX, and 10 is \<open>sys_gettime\<close>. The number 11 passes the bounds
  check although the table ends at 10, so the handler calls through the word after it.
\<close>

theorem syscall_dispatch:
  "(sint eax < 0 \<or> 11 < sint eax \<longrightarrow> dispatch_syscall kb eax edx ecx ebx k = Some (k, - 38))
    \<and> (eax \<in> {0, 1, 2, 3, 5, 6, 7, 8, 9} \<longrightarrow> dispatch_syscall kb eax edx ecx ebx k = Some (k, - 38))
    \<and> dispatch_syscall kb 4 edx ecx ebx k =
        Some (fst (sys_write kb (sint edx) ecx (sint ebx) k), word_of_int (snd (sys_write kb (sint edx) ecx (sint ebx) k)))
    \<and> dispatch_syscall kb 10 edx ecx ebx k = Some (k, zeos_ticks k)
    \<and> dispatch_syscall kb 11 edx ecx ebx k = None"
  by (auto simp: dispatch_syscall_def MAX_SYSCALL_def sys_call_table_def rd_def sys_ni_syscall_def
      sys_gettime_def get_clock_ticks_def split: prod.splits)

theorem syscall_dispatch_witness:
  "dispatch_syscall 0x36000 0xFFFFFFFF 0 0 0 example_kernel = Some (example_kernel, - 38)
    \<and> dispatch_syscall 0x36000 5 0 0 0 example_kernel = Some (example_kernel, - 38)
    \<and> dispatch_syscall 0x36000 10 0 0 0 example_kernel = Some (example_kernel, 7)"
  using syscall_dispatch [of "0xFFFFFFFF" "0x36000" 0 0 0 example_kernel]
    syscall_dispatch [of 5 "0x36000" 0 0 0 example_kernel]
  by (simp add: example_kernel_def)

text \<open>
  C25. What a system call can do and return, for every number and all arguments: it leaves the
  clock, the frame map and the control registers alone and writes memory only in the buffer;
  its result is one of four error codes, or the size it was given (below the size of the user
  region, and then exactly that many bytes were printed), or the tick count; and it prints
  nothing otherwise.
\<close>

theorem syscall_results:
  assumes "kbuf_ok kb" "dispatch_syscall kb n a b c k = Some (k', r)"
  shows "n \<noteq> 11 \<and> zeos_ticks k' = zeos_ticks k \<and> agree_outside kb 128 (kmem (kmm k)) (kmem (kmm k'))
     \<and> phys_mem (kmm k') = phys_mem (kmm k) \<and> cr0 (kmm k') = cr0 (kmm k) \<and> cr3 (kmm k') = cr3 (kmm k)
     \<and> (n = 4 \<and> r = c \<and> unat r < 0x1D000 \<and> (\<exists>t. length t = unat r \<and> kcon k' = fold printc t (kcon k))
        \<or> kcon k' = kcon k \<and> (r \<in> {- 38, - 9, - 22, - 14} \<or> n = 10 \<and> r = zeos_ticks k))"
proof -
  have n: "n \<noteq> 11" using assms(2) by (auto simp: dispatch_past)
  then obtain t r' where sp: "syscall_spec (kmem (kmm k)) (zeos_ticks k) n a b c = Some (t, r')"
    using syscall_spec_total by blast
  then obtain m' where k': "k' = k\<lparr>kcon := fold printc t (kcon k), kmm := (kmm k)\<lparr>kmem := m'\<rparr>\<rparr>" "r = r'"
      "agree_outside kb 128 (kmem (kmm k)) m'"
    using dispatch_refines [OF assms(1) sp] assms(2) by auto
  have "n = 4 \<and> r' = c \<and> unat c < 0x1D000 \<and> length t = unat c
      \<or> t = [] \<and> (r' \<in> {- 38, - 9, - 22, - 14} \<or> n = 10 \<and> r' = zeos_ticks k)"
    using sp n by (auto simp: syscall_spec_def split: if_splits)
  then show ?thesis using n k' by auto
qed

theorem syscall_results_witness:
  "\<exists>k' r. dispatch_syscall 0x36000 4 1 0x100000 3 example_kernel = Some (k', r) \<and> zeos_ticks k' = 7
     \<and> (r = 3 \<or> r \<in> {- 38, - 9, - 22, - 14})"
proof -
  have kb: "kbuf_ok 0x36000" by (simp add: kbuf_ok_def)
  have "syscall_spec (kmem (kmm example_kernel)) (zeos_ticks example_kernel) 4 1 0x100000 3
      = Some (read_bytes (kmem (kmm example_kernel)) 0x100000 (unat (3 :: dword)), 3)"
    using sint_eq_uint_low [of 3] by (simp add: syscall_spec_def)
  then obtain k' r where k': "dispatch_syscall 0x36000 4 1 0x100000 3 example_kernel = Some (k', r)"
    using dispatch_refines [OF kb] by blast
  show ?thesis using syscall_results [OF kb k'] k' by (auto simp: example_kernel_def)
qed

end
