(* ===== verification/Zeos_Libc.thy ===== *)
theory Zeos_Libc
  imports Zeos_Sys
begin

text \<open>
  The user side: the system call wrappers of \<^verbatim>\<open>libc_sys.S\<close>, the library of
  \<^verbatim>\<open>libc.c\<close> and the program \<^verbatim>\<open>user.c\<close>. A user state is the kernel state
  with the global \<open>errno\<close>; user and kernel share the memory. Local variables whose address
  is taken live in that memory, at the addresses of the parameter \<open>env\<close>, one per call from
  the top level; \<open>env_ok\<close> says that they are in the last data page, where the user stack is,
  and that the kernel's buffer is below the user region. \<open>strlen\<close> runs until it finds a
  terminator, so it is a partial function. A function that would access an array outside its
  bounds has no result.
\<close>

record user = kernel +
  errno :: dword

record env =
  e_kb :: dword
  e_char :: dword
  e_buff :: dword

abbreviation umem :: "'a user_scheme \<Rightarrow> mem" where
  "umem u \<equiv> kmem (kmm u)"

definition set_umem :: "mem \<Rightarrow> 'a user_scheme \<Rightarrow> 'a user_scheme" where
  "set_umem m u = u\<lparr>kmm := (kmm u)\<lparr>kmem := m\<rparr>\<rparr>"

definition errno_message :: "string list" where
  "errno_message =
     [[], [], [], [], [], [], [], [],
      [], ''Bad file number'', [], [], [], ''Permission denied'', ''Bad address'', [],
      [], [], [], [], [], [], ''Invalid argument'', [],
      [], [], [], [], [], [], [], [],
      [], [], [], [], [], [], ''Function not implemented'', []] @ replicate 88 []"

definition set_errno :: "dword \<Rightarrow> 'a user_scheme \<Rightarrow> 'a user_scheme" where
  "set_errno v u = u\<lparr>errno := - v\<rparr>"

text \<open>The macro \<open>CHECK_ERROR\<close> of the wrappers.\<close>

definition check_error :: "'a user_scheme \<times> dword \<Rightarrow> 'a user_scheme \<times> dword" where
  "check_error r =
     (let (u, eax) = r in if sint eax \<ge> 0 then (u, eax) else (set_errno eax u, - 1))"

definition libc_write :: "env \<Rightarrow> dword \<Rightarrow> dword \<Rightarrow> dword \<Rightarrow> 'a user_scheme \<Rightarrow> ('a user_scheme \<times> dword) option" where
  "libc_write E fd buffer sz u = map_option check_error (dispatch_syscall (e_kb E) 4 fd buffer sz u)"

definition gettime :: "env \<Rightarrow> dword \<Rightarrow> dword \<Rightarrow> dword \<Rightarrow> 'a user_scheme \<Rightarrow> ('a user_scheme \<times> dword) option" where
  "gettime E edx ecx ebx u = map_option check_error (dispatch_syscall (e_kb E) 10 edx ecx ebx u)"

partial_function (option) strlen_from :: "mem \<Rightarrow> dword \<Rightarrow> int \<Rightarrow> int option" where
  "strlen_from m a i = (if m (a + word_of_int i) \<noteq> 0 then strlen_from m a (i + 1) else Some i)"

definition strlen :: "mem \<Rightarrow> dword \<Rightarrow> int option" where
  "strlen m a = strlen_from m a 0"

definition print :: "env \<Rightarrow> dword \<Rightarrow> 'a user_scheme \<Rightarrow> ('a user_scheme \<times> dword) option" where
  "print E buffer u = do {
     n \<leftarrow> strlen (umem u) buffer;
     libc_write E 1 buffer (word_of_int n) u }"

definition printchar :: "env \<Rightarrow> byte \<Rightarrow> 'a user_scheme \<Rightarrow> ('a user_scheme \<times> dword) option" where
  "printchar E c u = libc_write E 1 (e_char E) 1 (set_umem ((umem u)(e_char E := c)) u)"

definition printint :: "env \<Rightarrow> int \<Rightarrow> 'a user_scheme \<Rightarrow> ('a user_scheme \<times> dword) option" where
  "printint E i u = do {
     itoa_buff \<leftarrow> itoa i (read_bytes (umem u) (e_buff E) 11);
     print E (e_buff E) (set_umem (write_bytes (umem u) (e_buff E) itoa_buff) u) }"

definition printintln :: "env \<Rightarrow> int \<Rightarrow> 'a user_scheme \<Rightarrow> ('a user_scheme \<times> dword) option" where
  "printintln E i u = do {
     (u, written) \<leftarrow> printint E i u;
     if sint written < 0 then Some (u, written)
     else do {
       (u, err) \<leftarrow> printchar E 10 u;
       if sint err < 0 then Some (u, err) else Some (u, written + 1) } }"

definition println :: "env \<Rightarrow> dword \<Rightarrow> 'a user_scheme \<Rightarrow> ('a user_scheme \<times> dword) option" where
  "println E buffer u = do {
     (u, written) \<leftarrow> print E buffer u;
     if sint written < 0 then Some (u, written)
     else do {
       (u, err) \<leftarrow> printchar E 10 u;
       if sint err < 0 then Some (u, err) else Some (u, written + 1) } }"

text \<open>\<open>msgs\<close> are the pointers that \<open>errno_message\<close> holds.\<close>

definition perror :: "env \<Rightarrow> dword list \<Rightarrow> 'a user_scheme \<Rightarrow> 'a user_scheme option" where
  "perror E msgs u =
     (if sint (errno u) < 0 then None
      else do {
        p \<leftarrow> rd msgs (unat (errno u));
        (u, _) \<leftarrow> println E p u;
        Some u })"

section \<open>The user program (user.c)\<close>

text \<open>The addresses of the string literals of \<^verbatim>\<open>user.c\<close>.\<close>

record ulits =
  l_hello :: dword
  l_alive :: dword
  l_open :: dword
  l_bytes :: dword
  l_alo :: dword
  l_alo2 :: dword

definition printlntest :: "env \<Rightarrow> ulits \<Rightarrow> dword \<Rightarrow> 'a user_scheme \<Rightarrow> 'a user_scheme option" where
  "printlntest E Ls buffer u = do {
     (u, written) \<leftarrow> print E buffer u;
     if sint written < 0 then Some u
     else do {
       (u, _) \<leftarrow> print E (l_open Ls) u;
       (u, _) \<leftarrow> printint E (sint written) u;
       (u, _) \<leftarrow> println E (l_bytes Ls) u;
       Some u } }"

text \<open>\<open>main\<close> up to its final endless loop; \<open>E i\<close> is the environment of its \<open>i\<close>-th call.\<close>

definition user_main :: "(nat \<Rightarrow> env) \<Rightarrow> ulits \<Rightarrow> dword list \<Rightarrow> 'a user_scheme \<Rightarrow> 'a user_scheme option" where
  "user_main E Ls msgs u = do {
     u \<leftarrow> printlntest (E 0) Ls (l_hello Ls) u;
     u \<leftarrow> printlntest (E 1) Ls (l_alive Ls) u;
     (u, written) \<leftarrow> libc_write (E 2) 0 (l_alo Ls) 3 u;
     u \<leftarrow> (if sint written < 0 then perror (E 3) msgs u else Some u);
     (u, written) \<leftarrow> libc_write (E 4) 1 0 3 u;
     u \<leftarrow> (if sint written < 0 then perror (E 5) msgs u else Some u);
     (u, written) \<leftarrow> libc_write (E 6) 1 (l_alo2 Ls) (- 1) u;
     u \<leftarrow> (if sint written < 0 then perror (E 7) msgs u else Some u);
     Some u }"

section \<open>Lemmas\<close>

definition env_ok :: "env \<Rightarrow> bool" where
  "env_ok E \<longleftrightarrow> kbuf_ok (e_kb E) \<and> 0x113000 \<le> unat (e_char E) \<and> unat (e_char E) < 0x114000
     \<and> 0x113000 \<le> unat (e_buff E) \<and> unat (e_buff E) + 11 \<le> 0x114000"

text \<open>User memory other than the page of the stack is unchanged.\<close>

definition user_static :: "dword \<Rightarrow> bool" where
  "user_static b \<longleftrightarrow> 0x100000 \<le> unat b \<and> \<not> (0x113000 \<le> unat b \<and> unat b < 0x114000)"

definition same_static :: "mem \<Rightarrow> mem \<Rightarrow> bool" where
  "same_static m m' \<longleftrightarrow> (\<forall>b. user_static b \<longrightarrow> m' b = m b)"

definition str_at :: "mem \<Rightarrow> dword \<Rightarrow> byte list \<Rightarrow> bool" where
  "str_at m a t \<longleftrightarrow> read_bytes m a (Suc (length t)) = t @ [0] \<and> 0 \<notin> set t"

text \<open>A string literal: in the user region, outside the stack page.\<close>

definition lit_at :: "mem \<Rightarrow> dword \<Rightarrow> byte list \<Rightarrow> bool" where
  "lit_at m a t \<longleftrightarrow> str_at m a t
     \<and> (0x100000 \<le> unat a \<and> unat a + length t < 0x113000 \<or> 0x114000 \<le> unat a \<and> unat a + length t < 0x11C000)"

text \<open>From \<open>u\<close> to \<open>u'\<close> the program printed \<open>t\<close> and touched only stacks.\<close>

definition says :: "byte list \<Rightarrow> 'a user_scheme \<Rightarrow> 'a user_scheme \<Rightarrow> bool" where
  "says t u u' \<longleftrightarrow> kcon u' = fold printc t (kcon u) \<and> same_static (umem u) (umem u')
     \<and> errno u' = errno u \<and> zeos_ticks u' = zeos_ticks u"

lemma says_refl: "says [] u u"
  by (simp add: says_def same_static_def)

lemma says_trans: "says s u u' \<Longrightarrow> says t u' u'' \<Longrightarrow> says (s @ t) u u''"
  by (simp add: says_def same_static_def)

lemma strlen_from_str:
  "k \<le> length t \<Longrightarrow> str_at m a t \<Longrightarrow> strlen_from m a (int k) = Some (int (length t))"
proof (induction "length t - k" arbitrary: k)
  case 0
  have "read_bytes m a (Suc (length t)) ! k = (t @ [0]) ! k" using 0(3) by (simp add: str_at_def)
  then have "m (a + of_nat k) = 0" using 0 by (simp add: nth_append)
  then show ?case using 0 by (simp add: strlen_from.simps)
next
  case (Suc n)
  have "read_bytes m a (Suc (length t)) ! k = (t @ [0]) ! k" using Suc.prems(2) by (simp add: str_at_def)
  moreover have "t ! k \<noteq> 0" using Suc.hyps(2) Suc.prems(2) by (auto simp: str_at_def in_set_conv_nth)
  ultimately have "m (a + of_nat k) \<noteq> 0" using Suc.hyps(2) by (simp add: nth_append)
  moreover have "strlen_from m a (int (Suc k)) = Some (int (length t))"
    using Suc.hyps(2) Suc.prems by (intro Suc.hyps(1)) simp_all
  ultimately show ?case by (simp add: strlen_from.simps [of m a "int k"] add.commute)
qed

lemma strlen_str: "str_at m a t \<Longrightarrow> strlen m a = Some (int (length t))"
  using strlen_from_str [of 0 t m a] by (simp add: strlen_def)

lemma str_at_same:
  assumes "lit_at m a t" "same_static m m'"
  shows "lit_at m' a t"
proof -
  have "read_bytes m' a (Suc (length t)) = read_bytes m a (Suc (length t))"
  proof (rule read_bytes_cong)
    fix i assume "i < Suc (length t)"
    then have "user_static (a + of_nat i)"
      using assms(1) unat_add_small [of a i] by (auto simp: lit_at_def user_static_def)
    then show "m' (a + of_nat i) = m (a + of_nat i)" using assms(2) by (simp add: same_static_def)
  qed
  then show ?thesis using assms(1) by (simp add: lit_at_def str_at_def)
qed

lemma sint_of_nat_small: "n < 2 ^ 31 \<Longrightarrow> sint (of_nat n :: dword) = int n"
  using sint_word_of_int [of "int n"] by (simp add: int_range_def)

lemma write_ok:
  assumes "env_ok E" "0x100000 \<le> unat a" "unat a + n < 0x11D000"
  shows "\<exists>u'. libc_write E 1 a (of_nat n) u = Some (u', of_nat n) \<and> says (read_bytes (umem u) a n) u u'"
proof -
  have kb: "kbuf_ok (e_kb E)" using assms(1) by (simp add: env_ok_def)
  have n: "sint (of_nat n :: dword) = int n" using assms(3) by (simp add: sint_of_nat_small)
  obtain m' where m': "sys_write (e_kb E) 1 a (int n) u =
      (u\<lparr>kcon := fold printc (read_bytes (umem u) a n) (kcon u), kmm := (kmm u)\<lparr>kmem := m'\<rparr>\<rparr>, int n)"
    "agree_outside (e_kb E) 128 (umem u) m'"
    using sys_write_success [OF kb, of "int n" a u] assms(2,3) by (auto simp: int_range_def)
  have "same_static (umem u) m'"
    using m'(2) user_range_outside [OF kb] by (auto simp: same_static_def user_static_def agree_outside_def)
  then show ?thesis
    using m'(1) n by (simp add: libc_write_def dispatch_syscall_write check_error_def says_def)
qed

text \<open>
  What the library relies on: a call that sends a range of user memory. From it follows that
  a terminated string is sent as a whole.
\<close>

locale output_channel =
  fixes put :: "dword \<Rightarrow> nat \<Rightarrow> 's \<Rightarrow> ('s \<times> dword) option"
    and mem_of :: "'s \<Rightarrow> mem"
    and emits :: "byte list \<Rightarrow> 's \<Rightarrow> 's \<Rightarrow> bool"
    and ready :: "dword \<Rightarrow> nat \<Rightarrow> bool"
  assumes put_emits: "ready a n \<Longrightarrow>
      \<exists>s'. put a n s = Some (s', of_nat n) \<and> emits (read_bytes (mem_of s) a n) s s'"
    and emits_append: "emits t s s1 \<Longrightarrow> emits t' s1 s2 \<Longrightarrow> emits (t @ t') s s2"
begin

lemma put_string:
  assumes "ready a (length t)" "str_at (mem_of s) a t"
  shows "\<exists>s'. put a (length t) s = Some (s', of_nat (length t)) \<and> emits t s s'"
proof -
  have "read_bytes (mem_of s) a (length t) = t"
    using assms(2) read_bytes_add [of "mem_of s" a "length t" 1] by (simp add: str_at_def)
  then show ?thesis using put_emits [OF assms(1), of s] by simp
qed

lemma put_byte_after:
  assumes "emits t s s1" "ready a 1" "mem_of s1 a = c"
  shows "\<exists>s2. put a 1 s1 = Some (s2, 1) \<and> emits (t @ [c]) s s2"
proof -
  have "read_bytes (mem_of s1) a 1 = [c]" using assms(3) by (simp add: read_bytes_Suc)
  then show ?thesis using put_emits [OF assms(2), of s1] emits_append [OF assms(1)] by auto
qed

end

interpretation uc: output_channel "\<lambda>a n. libc_write E 1 a (of_nat n)" umem says
  "\<lambda>a n. env_ok E \<and> 0x100000 \<le> unat a \<and> unat a + n < 0x11D000" for E
  by unfold_locales (use write_ok in blast, rule says_trans)

lemma print_ok:
  assumes "env_ok E" "str_at (umem u) a t" "0x100000 \<le> unat a" "unat a + length t < 0x11D000"
  shows "\<exists>u'. print E a u = Some (u', of_nat (length t)) \<and> says t u u'"
  using uc.put_string [of E a t u] assms by (simp add: print_def strlen_str)

lemma print_lit: "env_ok E \<Longrightarrow> lit_at (umem u) a t \<Longrightarrow>
    \<exists>u'. print E a u = Some (u', of_nat (length t)) \<and> says t u u'"
  by (rule print_ok) (auto simp: lit_at_def)

lemma says_after_set_umem:
  assumes "says t (set_umem m' u) u'" "same_static (umem u) m'"
  shows "says t u u'"
  using assms by (simp add: says_def set_umem_def same_static_def)

lemma set_char_same:
  "env_ok E \<Longrightarrow> same_static (umem u) ((umem u)(e_char E := c))"
  by (auto simp: env_ok_def same_static_def user_static_def)

lemma says_set_char:
  assumes "env_ok E"
  shows "says [] u (set_umem ((umem u)(e_char E := c)) u)"
  using set_char_same [OF assms] by (simp add: says_def set_umem_def)

lemma printchar_after:
  assumes "env_ok E" "says t u u1"
  shows "\<exists>u'. printchar E c u1 = Some (u', 1) \<and> says (t @ [c]) u u'"
proof -
  let ?u = "set_umem ((umem u1)(e_char E := c)) u1"
  have "says t u ?u" using says_trans [OF assms(2) says_set_char [OF assms(1)]] by simp
  then show ?thesis
    using uc.put_byte_after [of t u ?u E "e_char E" c] assms(1)
    by (simp add: printchar_def env_ok_def set_umem_def)
qed

lemma printchar_ok: "env_ok E \<Longrightarrow> \<exists>u'. printchar E c u = Some (u', 1) \<and> says [c] u u'"
  using printchar_after [OF _ says_refl] by simp

text \<open>The common end of \<open>println\<close> and \<open>printintln\<close>.\<close>

lemma newline_after:
  assumes "env_ok E" "says t u u1" "n < 2 ^ 31"
  shows "\<exists>u'. (if sint (of_nat n :: dword) < 0 then Some (u1, of_nat n)
     else do {
       (u, err) \<leftarrow> printchar E 10 u1;
       if sint err < 0 then Some (u, err) else Some (u, of_nat n + 1) }) = Some (u', of_nat (n + 1))
     \<and> says (t @ [10]) u u'"
  using printchar_after [OF assms(1,2), of 10] assms(3) by (auto simp: sint_of_nat_small add.commute)

lemma printint_ok:
  assumes "env_ok E" "int_range i"
  shows "\<exists>u'. printint E i u = Some (u', of_nat (length (numeral_text 10 dec_char i)))
     \<and> says (numeral_text 10 dec_char i) u u'"
proof -
  let ?t = "numeral_text 10 dec_char i" and ?b = "read_bytes (umem u) (e_buff E) 11"
  have len: "length ?t \<le> 10" using assms(2) by (rule dec_text_length)
  let ?w = "?t @ 0 # drop (Suc (length ?t)) ?b"
  let ?m = "write_bytes (umem u) (e_buff E) ?w"
  have it: "itoa i ?b = Some ?w" using len by (simp add: itoa_spec)
  have lw: "length ?w = 11" using len by simp
  have "read_bytes ?m (e_buff E) 11 = ?w" using read_write_bytes [of ?w "umem u" "e_buff E"] lw by simp
  then have "read_bytes ?m (e_buff E) (Suc (length ?t)) = ?t @ [0]"
    using take_read_bytes [of "Suc (length ?t)" 11 ?m "e_buff E"] len by simp
  then have str: "str_at ?m (e_buff E) ?t" using dec_text_nonzero by (auto simp: str_at_def)
  have same: "same_static (umem u) ?m"
    unfolding same_static_def
  proof (intro allI impI write_bytes_other)
    fix b j assume b: "user_static b" and "j < length ?w"
    then have "unat (e_buff E + of_nat j) = unat (e_buff E) + j" "j < 11"
      using assms(1) lw by (auto simp: env_ok_def intro!: unat_add_small)
    then show "b \<noteq> e_buff E + of_nat j" using assms(1) b by (auto simp: env_ok_def user_static_def)
  qed
  have "0x100000 \<le> unat (e_buff E)" "unat (e_buff E) + length ?t < 0x11D000"
    using assms(1) len by (auto simp: env_ok_def)
  from print_ok [OF assms(1) _ this, of "set_umem ?m u"] str show ?thesis
    using says_after_set_umem [OF _ same] by (auto simp: printint_def it set_umem_def)
qed

lemma println_ok:
  assumes "env_ok E" "lit_at (umem u) a t"
  shows "\<exists>u'. println E a u = Some (u', of_nat (length t + 1)) \<and> says (t @ [10]) u u'"
proof -
  obtain u1 where u1: "print E a u = Some (u1, of_nat (length t))" "says t u u1"
    using print_lit [OF assms] by blast
  have "length t < 2 ^ 31" using assms(2) by (auto simp: lit_at_def)
  from newline_after [OF assms(1) u1(2) this] show ?thesis unfolding println_def u1(1) by simp
qed

lemma printintln_ok:
  assumes "env_ok E" "int_range i"
  shows "\<exists>u'. printintln E i u = Some (u', of_nat (length (numeral_text 10 dec_char i) + 1))
     \<and> says (numeral_text 10 dec_char i @ [10]) u u'"
proof -
  let ?t = "numeral_text 10 dec_char i"
  obtain u1 where u1: "printint E i u = Some (u1, of_nat (length ?t))" "says ?t u u1"
    using printint_ok [OF assms] by blast
  have "length ?t < 2 ^ 31" using dec_text_length [OF assms(2)] by simp
  from newline_after [OF assms(1) u1(2) this] show ?thesis unfolding printintln_def u1(1) by simp
qed

definition str_bytes :: "string \<Rightarrow> byte list" where
  "str_bytes s = map (\<lambda>c. of_nat (of_char c)) s"

text \<open>The pointers of \<open>errno_message\<close> lead to its literals.\<close>

definition msgs_at :: "mem \<Rightarrow> dword list \<Rightarrow> bool" where
  "msgs_at m msgs \<longleftrightarrow> length msgs = length errno_message
     \<and> (\<forall>e<length errno_message. lit_at m (msgs ! e) (str_bytes (errno_message ! e)))"

lemma msgs_at_same: "msgs_at m msgs \<Longrightarrow> same_static m m' \<Longrightarrow> msgs_at m' msgs"
  by (auto simp: msgs_at_def intro: str_at_same)

lemma length_errno_message: "length errno_message = 128"
  by (simp add: errno_message_def)

lemma perror_ok:
  assumes "env_ok E" "msgs_at (umem u) msgs" "unat (errno u) < 128"
  shows "\<exists>u'. perror E msgs u = Some u' \<and> says (str_bytes (errno_message ! unat (errno u)) @ [10]) u u'"
proof -
  have "lit_at (umem u) (msgs ! unat (errno u)) (str_bytes (errno_message ! unat (errno u)))"
    "unat (errno u) < length msgs"
    using assms(2,3) by (simp_all add: msgs_at_def length_errno_message)
  moreover have "\<not> sint (errno u) < 0"
    using sint_of_nat_small [of "unat (errno u)"] assms(3) by simp
  ultimately show ?thesis using println_ok [OF assms(1)] by (fastforce simp: perror_def)
qed

lemma perror_overrun: "length msgs = 128 \<Longrightarrow> 128 \<le> unat (errno u) \<Longrightarrow> perror E msgs u = None"
  by (simp add: perror_def)

lemma write_failed:
  assumes "\<not> (sint fd = 1 \<and> 0 \<le> sint sz \<and> 0x100000 \<le> unat a \<and> unat a + nat (sint sz) < 0x11D000)"
  shows "libc_write E fd a sz u =
    Some (u\<lparr>errno := if fd \<noteq> 1 then 9 else if a = 0 \<or> sint sz < 0 then 22 else 14\<rparr>, - 1)"
proof -
  have "sint fd = 1 \<longleftrightarrow> fd = 1" by (rule sint_eq_1_iff)
  then show ?thesis
    using sys_write_error [OF int_range_sint assms, of "e_kb E" u]
    by (simp add: libc_write_def dispatch_syscall_write check_error_def set_errno_def)
qed

text \<open>What was printed, when \<open>errno\<close> may have changed too.\<close>

definition said :: "byte list \<Rightarrow> 'a user_scheme \<Rightarrow> 'a user_scheme \<Rightarrow> bool" where
  "said t u u' \<longleftrightarrow> kcon u' = fold printc t (kcon u) \<and> same_static (umem u) (umem u')"

lemma says_said: "says t u u' \<Longrightarrow> said t u u'"
  by (simp add: says_def said_def)

lemma said_trans: "said s u u' \<Longrightarrow> said t u' u'' \<Longrightarrow> said (s @ t) u u''"
  by (simp add: said_def same_static_def)

definition test_text :: "byte list \<Rightarrow> byte list" where
  "test_text t = t @ str_bytes '' ('' @ numeral_text 10 dec_char (int (length t)) @ str_bytes '' bytes)'' @ [10]"

lemma printlntest_ok:
  assumes "env_ok E" "lit_at (umem u) a t"
    and "lit_at (umem u) (l_open Ls) (str_bytes '' ('')" "lit_at (umem u) (l_bytes Ls) (str_bytes '' bytes)'')"
  shows "\<exists>u'. printlntest E Ls a u = Some u' \<and> says (test_text t) u u'"
proof -
  have len: "length t < 2 ^ 31" using assms(2) by (auto simp: lit_at_def)
  have n: "sint (of_nat (length t) :: dword) = int (length t)" using len by (rule sint_of_nat_small)
  obtain u1 where u1: "print E a u = Some (u1, of_nat (length t))" "says t u u1"
    using print_lit [OF assms(1,2)] by blast
  have l1: "lit_at (umem u1) (l_open Ls) (str_bytes '' ('')" "lit_at (umem u1) (l_bytes Ls) (str_bytes '' bytes)'')"
    using assms(3,4) u1(2) by (auto simp: says_def intro: str_at_same)
  obtain u2 where u2: "print E (l_open Ls) u1 = Some (u2, of_nat (length (str_bytes '' ('')))" "says (str_bytes '' ('') u1 u2"
    using print_lit [OF assms(1) l1(1)] by blast
  obtain u3 where u3: "printint E (int (length t)) u2 = Some (u3, of_nat (length (numeral_text 10 dec_char (int (length t)))))"
    "says (numeral_text 10 dec_char (int (length t))) u2 u3"
    using printint_ok [OF assms(1), of "int (length t)" u2] len by (auto simp: int_range_def)
  have l3: "lit_at (umem u3) (l_bytes Ls) (str_bytes '' bytes)'')"
    using l1(2) u2(2) u3(2) by (auto simp: says_def intro: str_at_same)
  obtain u4 where u4: "println E (l_bytes Ls) u3 = Some (u4, of_nat (length (str_bytes '' bytes)'') + 1))"
    "says (str_bytes '' bytes)'' @ [10]) u3 u4"
    using println_ok [OF assms(1) l3] by blast
  have "says (test_text t) u u4"
    using says_trans [OF u1(2) says_trans [OF u2(2) says_trans [OF u3(2) u4(2)]]]
    by (simp add: test_text_def)
  then show ?thesis using u1(1) u2(1) u3(1) u4(1) n by (simp add: printlntest_def)
qed

definition hello_text :: "byte list" where
  "hello_text = 10 # str_bytes ''Hello ZeOS from user!''"

definition alive_text :: "byte list" where
  "alive_text = 10 # str_bytes ''If you read this message, I'm alive''"

definition error_line :: "nat \<Rightarrow> byte list" where
  "error_line e = str_bytes (errno_message ! e) @ [10]"

lemma failed_then_perror:
  assumes "env_ok E" "msgs_at (umem u) msgs" "e < 128"
  shows "\<exists>u'. perror E msgs (u\<lparr>errno := of_nat e\<rparr>) = Some u' \<and> said (error_line e) u u'"
proof -
  have "unat (of_nat e :: dword) = e" using assms(3) by (simp add: unat_of_nat)
  then show ?thesis
    using perror_ok [of E "u\<lparr>errno := of_nat e\<rparr>" msgs] assms by (auto simp: says_def said_def error_line_def)
qed

definition ulits_at :: "mem \<Rightarrow> ulits \<Rightarrow> bool" where
  "ulits_at m Ls \<longleftrightarrow> lit_at m (l_hello Ls) hello_text \<and> lit_at m (l_alive Ls) alive_text
     \<and> lit_at m (l_open Ls) (str_bytes '' ('') \<and> lit_at m (l_bytes Ls) (str_bytes '' bytes)'')"

lemma ulits_at_same: "ulits_at m Ls \<Longrightarrow> same_static m m' \<Longrightarrow> ulits_at m' Ls"
  by (auto simp: ulits_at_def intro: str_at_same)

text \<open>A user image with all the literals, for the concrete instances of the theorems.\<close>

definition example_env :: env where
  "example_env = \<lparr>e_kb = 0x36000, e_char = 0x113F00, e_buff = 0x113E00\<rparr>"

definition example_image :: "byte list" where
  "example_image = hello_text @ [0] @ alive_text @ [0] @ str_bytes '' ('' @ [0] @ str_bytes '' bytes)'' @ [0]
     @ str_bytes ''Bad file number'' @ [0] @ str_bytes ''Permission denied'' @ [0] @ str_bytes ''Bad address'' @ [0]
     @ str_bytes ''Invalid argument'' @ [0] @ str_bytes ''Function not implemented'' @ [0]"

definition example_user :: user where
  "example_user = \<lparr>zeos_ticks = 7, kcon = console_init (\<lambda>_. 0),
     kmm = \<lparr>kmem = write_bytes (\<lambda>_. 0) 0x100000 example_image, phys_mem = replicate 1024 0, cr0 = 0, cr3 = 0\<rparr>,
     errno = 9\<rparr>"

definition example_lits :: ulits where
  "example_lits = \<lparr>l_hello = 0x100000, l_alive = 0x100000 + 23, l_open = 0x100000 + 60,
     l_bytes = 0x100000 + 63, l_alo = 0x100000, l_alo2 = 0x100000\<rparr>"

definition example_msgs :: "dword list" where
  "example_msgs = (let z = 0x100000 + 158 in
     [z, z, z, z, z, z, z, z, z, 0x100000 + 71, z, z, z, 0x100000 + 87, 0x100000 + 105, z,
      z, z, z, z, z, z, 0x100000 + 117, z, z, z, z, z, z, z, z, z,
      z, z, z, z, z, z, 0x100000 + 134, z] @ replicate 88 z)"

lemma example_env_ok: "env_ok example_env"
  by (simp add: env_ok_def example_env_def kbuf_ok_def)

lemmas literal_defs = example_image_def hello_text_def alive_text_def str_bytes_def

lemma example_lit:
  assumes "take (Suc (length t)) (drop k example_image) = t @ [0]" "0 \<notin> set t" "k + length t < 159"
  shows "lit_at (umem example_user) (0x100000 + of_nat k) t"
proof -
  have "length example_image = 159" by (simp add: literal_defs)
  then have "read_bytes (umem example_user) (0x100000 + of_nat k) (Suc (length t)) = t @ [0]"
    using read_write_bytes_part [of k "Suc (length t)" example_image "\<lambda>_. 0" "0x100000"] assms
    by (simp add: example_user_def)
  moreover have "unat (0x100000 + of_nat k :: dword) = 0x100000 + k"
    using unat_add_small [of "0x100000" k] assms(3) by simp
  ultimately show ?thesis using assms(2,3) by (simp add: lit_at_def str_at_def)
qed

lemma example_lits_at: "ulits_at (umem example_user) example_lits"
  using example_lit [of hello_text 0] example_lit [of alive_text 23]
    example_lit [of "str_bytes '' (''" 60] example_lit [of "str_bytes '' bytes)''" 63]
  by (simp add: ulits_at_def example_lits_def literal_defs)

lemma example_msgs_at: "msgs_at (umem example_user) example_msgs"
proof -
  have "list_all2 (\<lambda>p s. lit_at (umem example_user) p (str_bytes s)) example_msgs errno_message"
    using example_lit [of "[]" 158] example_lit [of "str_bytes ''Bad file number''" 71]
      example_lit [of "str_bytes ''Permission denied''" 87] example_lit [of "str_bytes ''Bad address''" 105]
      example_lit [of "str_bytes ''Invalid argument''" 117] example_lit [of "str_bytes ''Function not implemented''" 134]
    by (simp add: example_msgs_def errno_message_def Let_def literal_defs list_all2_append list_all2_conv_all_nth [of _ "replicate _ _"])
  then show ?thesis by (simp add: msgs_at_def list_all2_conv_all_nth)
qed

section \<open>Properties\<close>

text \<open>
  C27. The \<open>write\<close> wrapper: for a valid request it returns the size, the bytes of the user
  buffer are what the console received, \<open>errno\<close> is left alone and no user memory is changed
  outside the stack; otherwise it returns -1, sets \<open>errno\<close> to EBADF, EINVAL or EFAULT by the
  first check that fails, and changes nothing else.
\<close>

theorem libc_write_contract:
  assumes "env_ok E"
  shows "if fd = 1 \<and> 0 \<le> sint sz \<and> 0x100000 \<le> unat a \<and> unat a + nat (sint sz) < 0x11D000
     then \<exists>u'. libc_write E fd a sz u = Some (u', sz) \<and> says (read_bytes (umem u) a (nat (sint sz))) u u'
     else libc_write E fd a sz u =
       Some (u\<lparr>errno := if fd \<noteq> 1 then 9 else if a = 0 \<or> sint sz < 0 then 22 else 14\<rparr>, - 1)"
proof (cases "fd = 1 \<and> 0 \<le> sint sz \<and> 0x100000 \<le> unat a \<and> unat a + nat (sint sz) < 0x11D000")
  case True
  have "(of_nat (nat (sint sz)) :: dword) = sz" using True by simp
  then show ?thesis using write_ok [OF assms, of a "nat (sint sz)" u] True by auto
next
  case False
  have "sint fd = 1 \<longleftrightarrow> fd = 1" by (rule sint_eq_1_iff)
  then show ?thesis unfolding if_not_P [OF False] using False by (intro write_failed) simp
qed

theorem libc_write_contract_witness:
  "(\<exists>u'. libc_write example_env 1 0x100000 22 example_user = Some (u', 22)
      \<and> says (read_bytes (umem example_user) 0x100000 22) example_user u')
    \<and> libc_write example_env 1 0 22 example_user = Some (example_user\<lparr>errno := 22\<rparr>, - 1)"
  using libc_write_contract [OF example_env_ok, of 1 22 "0x100000" example_user]
    libc_write_contract [OF example_env_ok, of 1 22 0 example_user] by simp

text \<open>
  The \<open>gettime\<close> wrapper returns the tick count for the first 2^31 ticks after boot; for
  the next 2^31 it reports failure instead, with an \<open>errno\<close> that names no error.
\<close>

theorem gettime_contract:
  "gettime E edx ecx ebx u =
     Some (if zeos_ticks u < 0x80000000 then (u, zeos_ticks u) else (u\<lparr>errno := - zeos_ticks u\<rparr>, - 1))"
proof -
  have "0 \<le> sint w \<longleftrightarrow> w < 0x80000000" for w :: dword
  proof
    show "0 \<le> sint w \<Longrightarrow> w < 0x80000000" using sint_high [of w] by linarith
    show "w < 0x80000000 \<Longrightarrow> 0 \<le> sint w" by (simp add: sint_eq_uint_low)
  qed
  then show ?thesis by (simp add: gettime_def dispatch_syscall_gettime check_error_def set_errno_def)
qed



text \<open>
  \<open>perror\<close> prints the message of the last error and a newline, for each of the 128
  entries of the table (the text is empty for errors that \<open>write\<close> cannot give); an \<open>errno\<close>
  outside the table is an access outside the array.
\<close>

theorem perror_message:
  assumes "env_ok E" "msgs_at (umem u) msgs"
  shows "if unat (errno u) < 128
     then \<exists>u'. perror E msgs u = Some u' \<and> says (str_bytes (errno_message ! unat (errno u)) @ [10]) u u'
     else perror E msgs u = None"
  using perror_ok [OF assms] perror_overrun [of msgs u] assms(2)
  by (auto simp: msgs_at_def length_errno_message)

theorem perror_message_witness:
  "\<exists>u'. perror example_env example_msgs example_user = Some u'
     \<and> says (str_bytes (errno_message ! 9) @ [10]) example_user u'"
  using perror_message [OF example_env_ok example_msgs_at] by (simp add: example_user_def)

text \<open>
  C11. The user program, started on any console, prints exactly its two greetings with their
  byte counts and then the messages of the three failing calls (bad descriptor, null
  pointer, negative size), and reaches its final loop: system calls, kernel buffer, chunked
  copies, errno and number printing work together.
\<close>

theorem user_main_output:
  assumes "\<forall>i. env_ok (E i)" "ulits_at (umem u) Ls" "msgs_at (umem u) msgs"
  shows "\<exists>u'. user_main E Ls msgs u = Some u' \<and> said
     (hello_text @ str_bytes '' (22 bytes)'' @ [10] @ alive_text @ str_bytes '' (36 bytes)'' @ [10]
      @ str_bytes ''Bad file number'' @ [10] @ str_bytes ''Invalid argument'' @ [10]
      @ str_bytes ''Invalid argument'' @ [10]) u u'"
proof -
  have t22: "test_text hello_text = hello_text @ str_bytes '' (22 bytes)'' @ [10]"
    and t36: "test_text alive_text = alive_text @ str_bytes '' (36 bytes)'' @ [10]"
    by (simp_all add: test_text_def hello_text_def alive_text_def str_bytes_def numeral_text_def
        radix_digits_step dec_char_def)
  obtain u1 where u1: "printlntest (E 0) Ls (l_hello Ls) u = Some u1" "says (test_text hello_text) u u1"
    using printlntest_ok assms(1,2) unfolding ulits_at_def by blast
  have st1: "ulits_at (umem u1) Ls" "msgs_at (umem u1) msgs"
    using u1(2) assms(2,3) ulits_at_same msgs_at_same by (auto simp: says_def)
  obtain u2 where u2: "printlntest (E 1) Ls (l_alive Ls) u1 = Some u2" "says (test_text alive_text) u1 u2"
    using printlntest_ok assms(1) st1(1) unfolding ulits_at_def by blast
  have m2: "msgs_at (umem u2) msgs" using st1(2) u2(2) msgs_at_same by (auto simp: says_def)
  obtain u3 where u3: "perror (E 3) msgs (u2\<lparr>errno := of_nat 9\<rparr>) = Some u3" "said (error_line 9) u2 u3"
    using failed_then_perror [of "E 3" u2 msgs 9] assms(1) m2 by auto
  have m3: "msgs_at (umem u3) msgs" using m2 u3(2) msgs_at_same by (auto simp: said_def)
  obtain u4 where u4: "perror (E 5) msgs (u3\<lparr>errno := of_nat 22\<rparr>) = Some u4" "said (error_line 22) u3 u4"
    using failed_then_perror [of "E 5" u3 msgs 22] assms(1) m3 by auto
  have m4: "msgs_at (umem u4) msgs" using m3 u4(2) msgs_at_same by (auto simp: said_def)
  obtain u5 where u5: "perror (E 7) msgs (u4\<lparr>errno := of_nat 22\<rparr>) = Some u5" "said (error_line 22) u4 u5"
    using failed_then_perror [of "E 7" u4 msgs 22] assms(1) m4 by auto
  have "user_main E Ls msgs u = Some u5"
    using u1(1) u2(1) u3(1) u4(1) u5(1) by (simp add: user_main_def write_failed)
  moreover have "error_line 9 = str_bytes ''Bad file number'' @ [10]"
    "error_line 22 = str_bytes ''Invalid argument'' @ [10]"
    by (simp_all add: error_line_def errno_message_def)
  ultimately show ?thesis
    using said_trans [OF says_said [OF u1(2)] said_trans [OF says_said [OF u2(2)]
        said_trans [OF u3(2) said_trans [OF u4(2) u5(2)]]]] by (simp add: t22 t36)
qed

theorem user_main_output_witness:
  "\<exists>u'. user_main (\<lambda>_. example_env) example_lits example_msgs example_user = Some u' \<and> said
     (hello_text @ str_bytes '' (22 bytes)'' @ [10] @ alive_text @ str_bytes '' (36 bytes)'' @ [10]
      @ str_bytes ''Bad file number'' @ [10] @ str_bytes ''Invalid argument'' @ [10]
      @ str_bytes ''Invalid argument'' @ [10]) example_user u'"
  using user_main_output [OF _ example_lits_at example_msgs_at, of "\<lambda>_. example_env"] example_env_ok by blast

end
