(* ===== verification/Zeos_System.thy ===== *)
theory Zeos_System
  imports Zeos_AddressSpace Zeos_Interrupt Zeos_Sys
begin

text \<open>
  Booting: \<open>main\<close> of \<^verbatim>\<open>system.c\<close>, which composes the components, over the whole
  machine state (processor and tables, and the kernel). \<open>set_handlers\<close> and
  \<open>monoprocess_init_addr_space\<close> belong to \<^verbatim>\<open>libzeos.a\<close> and are parameters. The
  kernel image starts at \<open>KERNEL_START\<close> with three double words that the image builder
  fills in: the sizes of the kernel and of the user image, and a magic value; the user image
  follows the kernel image.
\<close>

record system = tables +
  knl :: kernel

definition usr_main :: dword where
  "usr_main = of_nat (PAG_LOG_INIT_CODE * PAGE_SIZE)"

definition p_sys_size :: dword where [simp]: "p_sys_size = KERNEL_START"
definition p_usr_size :: dword where [simp]: "p_usr_size = KERNEL_START + 4"
definition p_rdtr :: dword where [simp]: "p_rdtr = KERNEL_START + 8"

definition init_sched :: "kernel \<Rightarrow> kernel" where "init_sched k = k"
definition init_idle :: "kernel \<Rightarrow> kernel" where "init_idle k = k"
definition init_task1 :: "kernel \<Rightarrow> kernel" where "init_task1 k = k"

definition boot_main ::
  "layout \<Rightarrow> symbols \<Rightarrow> (Gate list \<Rightarrow> Gate list) \<Rightarrow> (mm_state \<Rightarrow> mm_state) \<Rightarrow> system \<Rightarrow> system option" where
  "boot_main L S set_handlers monoprocess_init_addr_space s = do {
     let s = set_eflags s;
     let s = set_seg_regs KERNEL_DS KERNEL_DS (task_addr L 4) s;
     con \<leftarrow> printk (lit (''Kernel Loaded!    '' @ [CHR 0x0A])) (kcon (knl s));
     let s = s\<lparr>knl := (knl s)\<lparr>kcon := con\<rparr>\<rparr>;
     s \<leftarrow> setGdt S s;
     s \<leftarrow> setIdt S set_handlers s;
     let s = setTSS (INITIAL_ESP L) s;
     let s = writeMsr 0x174 (ucast KERNEL_CS) s;
     let s = writeMsr 0x175 (INITIAL_ESP L) s;
     let s = writeMsr 0x176 (s_syscall_handler S) s;
     mm \<leftarrow> init_mm L (kmm (knl s));
     let mm = monoprocess_init_addr_space mm;
     let k = init_task1 (init_idle (init_sched ((knl s)\<lparr>kmm := mm\<rparr>)));
     let m = kmem (kmm k);
     let m = copy_data m (KERNEL_START + load32 m p_sys_size) L_USER_START (sint (load32 m p_usr_size));
     let k = reset_clock_ticks k;
     con \<leftarrow> printk (lit (''Entering user mode...'' @ [CHR 0x0A])) (kcon k);
     let s = enable_int s;
     let (m, s) = return_gate USER_DS USER_DS USER_ESP USER_CS usr_main p_rdtr (m, s);
     Some (s\<lparr>knl := k\<lparr>kcon := con, kmm := (kmm k)\<lparr>kmem := m\<rparr>\<rparr>\<rparr>) }"

section \<open>Specification\<close>

text \<open>The kernel image as the linker and the image builder lay it out.\<close>

definition image_ok :: "layout \<Rightarrow> mem \<Rightarrow> bool" where
  "image_ok L m \<longleftrightarrow>
     (\<forall>a\<in>{l_dir_pages L, l_pagusr_table L, l_task L}.
        0x1000C \<le> unat a \<and> unat a + 40960 \<le> 0x10000 + unat (load32 m p_sys_size))
     \<and> 0x10000 + unat (load32 m p_sys_size) + unat (load32 m p_usr_size) \<le> 0x100000"

text \<open>
  The library call sets up page tables and user memory; after \<open>init_mm\<close> it leaves the rest of
  the kernel image alone.
\<close>

definition keeps_image :: "layout \<Rightarrow> (mm_state \<Rightarrow> mm_state) \<Rightarrow> bool" where
  "keeps_image L f \<longleftrightarrow> (\<forall>mm b. task_ok L (kmem mm) 0 \<and> phys_mem mm = fresh_map
     \<and> 0x10000 \<le> unat b \<and> unat b < 0x100000 \<and> outside L b \<longrightarrow> kmem (f mm) b = kmem mm b)"

definition boot_text :: "byte list" where
  "boot_text = map (\<lambda>c. of_nat (of_char c))
     (''Kernel Loaded!    '' @ [CHR 0x0A] @ ''Entering user mode...'' @ [CHR 0x0A])"

text \<open>The bytes of the image that boot keeps: header words and the user image.\<close>

lemma image_outside:
  assumes "image_ok L m"
  shows "unat b < 0x1000C \<Longrightarrow> outside L b" and "0x10000 + unat (load32 m p_sys_size) \<le> unat b \<Longrightarrow> outside L b"
  using assms by (auto simp: image_ok_def outside_def)

lemma boot_memory:
  assumes L: "layout_ok L" and I: "image_ok L m" and m1: "inited L m m1"
    and m2: "\<And>b. 0x10000 \<le> unat b \<Longrightarrow> unat b < 0x100000 \<Longrightarrow> outside L b \<Longrightarrow> m2 b = m1 b"
  shows "\<And>p. p \<in> {0x10000, 0x10004, 0x10008} \<Longrightarrow> load32 m2 p = load32 m p"
    and "read_bytes m2 (0x10000 + load32 m 0x10000) (unat (load32 m 0x10004))
       = read_bytes m (0x10000 + load32 m 0x10000) (unat (load32 m 0x10004))"
proof -
  have keep: "m2 b = m b" if "0x10000 \<le> unat b" "unat b < 0x100000" "outside L b" for b
    using m2 [OF that] inited_outside [OF L m1 that(3)] by simp
  show "load32 m2 p = load32 m p" if "p \<in> {0x10000, 0x10004, 0x10008}" for p
  proof (rule load32_cong)
    fix b assume "b \<in> entry_bytes p"
    then have "0x10000 \<le> unat b" "unat b < 0x1000C" using that by (auto simp: entry_bytes_def)
    then show "m2 b = m b" using image_outside(1) [OF I] by (intro keep) simp_all
  qed
  let ?sys = "load32 m 0x10000" and ?usr = "load32 m 0x10004"
  have bd: "0x10000 + unat ?sys + unat ?usr \<le> 0x100000" using I by (simp add: image_ok_def)
  have ua: "unat (0x10000 + ?sys) = 0x10000 + unat ?sys" using bd by (simp add: unat_word_ariths)
  show "read_bytes m2 (0x10000 + ?sys) (unat ?usr) = read_bytes m (0x10000 + ?sys) (unat ?usr)"
  proof (rule read_bytes_cong)
    fix i assume "i < unat ?usr"
    then have "unat (0x10000 + ?sys + of_nat i) = 0x10000 + unat ?sys + i" "0x10000 + unat ?sys + i < 0x100000"
      using bd ua by (simp_all add: unat_add_small)
    then show "m2 (0x10000 + ?sys + of_nat i) = m (0x10000 + ?sys + of_nat i)"
      using image_outside(2) [OF I] by (intro keep) simp_all
  qed
qed

lemma copy_user:
  fixes sys usr :: dword
  assumes "0x10000 + unat sys + unat usr \<le> 0x100000"
  shows "copy_data m (0x10000 + sys) 0x100000 (sint usr)
     = write_bytes m 0x100000 (read_bytes m (0x10000 + sys) (unat usr))"
proof -
  have "usr < 0x80000000" using assms by (simp add: word_less_nat_alt)
  then have u: "sint usr = int (unat usr)" by (simp add: sint_eq_uint_low)
  have "unat (0x10000 + sys) = 0x10000 + unat sys" using assms by (simp add: unat_word_ariths)
  then have "disjoint_ranges (0x10000 + sys) 0x100000 (unat usr)"
    using assms by (intro disjoint_rangesI(1)) simp_all
  then show ?thesis unfolding u by (simp add: copy_data_spec)
qed

lemma user_image_kept:
  assumes "n \<le> 0x100000" "i < n" "i < 0x13FFC \<or> 0x14000 \<le> i" "length bs = n"
  shows "store32 (write_bytes m 0x100000 bs) 0x113FFC v (0x100000 + of_nat i) = bs ! i"
proof -
  have "unat (0x100000 + of_nat i :: dword) = 0x100000 + i"
    using unat_add_small [of "0x100000" i] assms(1,2) by simp
  then have "0x100000 + of_nat i \<notin> entry_bytes (0x113FFC :: dword)"
    using assms(3) by (auto simp: entry_bytes_def)
  then show ?thesis using write_bytes_at [of i bs m "0x100000"] assms by (simp add: store32_outside)
qed

lemma load32_low_write:
  assumes "unat p + 3 < 0x100000" "length bs \<le> 0x100000"
  shows "load32 (write_bytes m 0x100000 bs) p = load32 m p"
proof (intro load32_cong write_bytes_other)
  fix b i assume b: "b \<in> entry_bytes p" and "i < length bs"
  then have "unat (0x100000 + of_nat i :: dword) = 0x100000 + i"
    using unat_add_small [of "0x100000" i] assms(2) by simp
  moreover have "unat b < 0x100000"
    using b assms(1) unat_add_small [of p 1] unat_add_small [of p 2] unat_add_small [of p 3]
    by (auto simp: entry_bytes_def)
  ultimately show "b \<noteq> 0x100000 + of_nat i" by auto
qed

lemmas boot_defs = boot_main_def Let_def printk_lit setGdt_spec setIdt_def setInterruptHandler_spec set_idt_reg_def
  setTSS_def set_task_reg_def writeMsr_def set_eflags_def set_seg_regs_def enable_int_def return_gate_def
  reset_clock_ticks_def init_sched_def init_idle_def init_task1_def

text \<open>What \<open>main\<close> has done, with the memory management state \<open>mm\<close> after \<open>init_mm\<close>.\<close>

lemma boot_result:
  fixes m :: mem
  defines "sys \<equiv> load32 m p_sys_size" and "usr \<equiv> load32 m p_usr_size"
  assumes L: "layout_ok L" and I: "image_ok L m" and K: "keeps_image L mono_init"
    and s: "kmem (kmm (knl s)) = m" "length (phys_mem (kmm (knl s))) = TOTAL_PAGES" "6 < length (gdt s)"
    and h: "length (set_handlers (idt s)) = IDT_ENTRIES"
  obtains mm s' where "init_mm L (kmm (knl s)) = Some mm" "task_ok L (kmem mm) 0" "inited L m (kmem mm)"
     "phys_mem mm = fresh_map" "boot_main L S set_handlers mono_init s = Some s'"
     "kmm (knl s') = (mono_init mm)\<lparr>kmem := store32 (write_bytes (kmem (mono_init mm)) 0x100000
         (read_bytes m (0x10000 + sys) (unat usr))) 0x113FFC (load32 m p_rdtr)\<rparr>"
     "zeos_ticks (knl s') = 0" "kcon (knl s') = fold printc boot_text (kcon (knl s))"
     "r_cs s' = USER_CS \<and> r_ss s' = USER_DS \<and> r_ds s' = USER_DS \<and> r_eip s' = 0x114000 \<and> r_esp s' = USER_ESP
       \<and> eflags s' = 0x202 \<and> pic_mask s' = 0xFC
       \<and> map (msr s') [0x174, 0x175, 0x176] = [ucast KERNEL_CS, INITIAL_ESP L, s_syscall_handler S]
       \<and> map (\<lambda>v. gate_offset (idt s' ! v)) [14, 32, 33]
           = [s_page_fault_handler2 S, s_clock_handler S, s_keyboard_handler S]
       \<and> tr s' = KERNEL_TSS \<and> descriptor_base (gdt s' ! 6) = s_tss S \<and> esp0 (tss s') = INITIAL_ESP L"
proof -
  have len: "length (phys_mem (kmm (knl s))) = 1024" using s(2) by simp
  obtain m1 where m1: "init_mm L (kmm (knl s)) = Some ((kmm (knl s))\<lparr>kmem := m1, phys_mem := fresh_map,
      cr3 := tbl (l_dir_pages L) 0 0, cr0 := cr0 (kmm (knl s)) OR 0x80000000\<rparr>)" "task_ok L m1 0" "inited L m m1"
    by (rule init_mm_spec [OF L len]) (auto simp: s(1))
  let ?mm1 = "(kmm (knl s))\<lparr>kmem := m1, phys_mem := fresh_map,
      cr3 := tbl (l_dir_pages L) 0 0, cr0 := cr0 (kmm (knl s)) OR 0x80000000\<rparr>"
  let ?mm = "mono_init ?mm1"
  have keep: "kmem ?mm b = m1 b" if "0x10000 \<le> unat b" "unat b < 0x100000" "outside L b" for b
    using K m1(2) that by (simp add: keeps_image_def)
  note words = boot_memory(1) [OF L I m1(3) keep]
  have hdr: "load32 (kmem ?mm) 0x10000 = sys" "load32 (kmem ?mm) 0x10004 = usr"
      "load32 (kmem ?mm) 0x10008 = load32 m 0x10008"
    using words by (simp_all add: sys_def usr_def)
  have bd: "0x10000 + unat sys + unat usr \<le> 0x100000" using I by (simp add: image_ok_def sys_def usr_def)
  let ?bs = "read_bytes m (0x10000 + sys) (unat usr)"
  let ?m3 = "write_bytes (kmem ?mm) 0x100000 ?bs"
  have cp: "copy_data (kmem ?mm) (0x10000 + sys) 0x100000 (sint usr) = ?m3"
    using copy_user [OF bd] boot_memory(2) [OF L I m1(3) keep] by (simp add: sys_def usr_def)
  have magic: "load32 ?m3 0x10008 = load32 m 0x10008"
    unfolding hdr(3) [symmetric] using bd by (intro load32_low_write) simp_all
  have "\<exists>s'. boot_main L S set_handlers mono_init s = Some s'
     \<and> kmm (knl s') = ?mm\<lparr>kmem := store32 ?m3 0x113FFC (load32 m p_rdtr)\<rparr>
     \<and> zeos_ticks (knl s') = 0 \<and> kcon (knl s') = fold printc boot_text (kcon (knl s))
     \<and> (r_cs s' = USER_CS \<and> r_ss s' = USER_DS \<and> r_ds s' = USER_DS \<and> r_eip s' = 0x114000 \<and> r_esp s' = USER_ESP
     \<and> eflags s' = 0x202 \<and> pic_mask s' = 0xFC
     \<and> map (msr s') [0x174, 0x175, 0x176] = [ucast KERNEL_CS, INITIAL_ESP L, s_syscall_handler S]
     \<and> map (\<lambda>v. gate_offset (idt s' ! v)) [14, 32, 33]
         = [s_page_fault_handler2 S, s_clock_handler S, s_keyboard_handler S]
     \<and> tr s' = KERNEL_TSS \<and> descriptor_base (gdt s' ! 6) = s_tss S \<and> esp0 (tss s') = INITIAL_ESP L)" (is "\<exists>s'. ?P s'")
    using s(3) h m1(1) hdr cp magic
    by (simp add: boot_defs boot_text_def usr_main_def descriptor_base_def high_mid_low)
  then obtain s' where s': "?P s'" by (rule exE)
  note S = s' [THEN conjunct1] s' [THEN conjunct2, THEN conjunct1] s' [THEN conjunct2, THEN conjunct2, THEN conjunct1]
    s' [THEN conjunct2, THEN conjunct2, THEN conjunct2, THEN conjunct1]
    s' [THEN conjunct2, THEN conjunct2, THEN conjunct2, THEN conjunct2]
  show thesis by (rule that [OF m1(1) _ _ _ S]) (use m1(2,3) in simp_all)
qed

lemma boot_runs:
  fixes m :: mem
  defines "sys \<equiv> load32 m p_sys_size" and "usr \<equiv> load32 m p_usr_size"
  assumes L: "layout_ok L" and I: "image_ok L m" and K: "keeps_image L mono_init"
    and s: "kmem (kmm (knl s)) = m" "length (phys_mem (kmm (knl s))) = TOTAL_PAGES" "6 < length (gdt s)"
    and h: "length (set_handlers (idt s)) = IDT_ENTRIES"
  shows "\<exists>s'. boot_main L S set_handlers mono_init s = Some s'
     \<and> r_cs s' = USER_CS \<and> r_ss s' = USER_DS \<and> r_ds s' = USER_DS \<and> r_eip s' = 0x114000 \<and> r_esp s' = USER_ESP
     \<and> eflags s' = 0x202 \<and> pic_mask s' = 0xFC
     \<and> map (msr s') [0x174, 0x175, 0x176] = [ucast KERNEL_CS, INITIAL_ESP L, s_syscall_handler S]
     \<and> map (\<lambda>v. gate_offset (idt s' ! v)) [14, 32, 33]
         = [s_page_fault_handler2 S, s_clock_handler S, s_keyboard_handler S]
     \<and> tr s' = KERNEL_TSS \<and> descriptor_base (gdt s' ! 6) = s_tss S \<and> esp0 (tss s') = INITIAL_ESP L
     \<and> zeos_ticks (knl s') = 0 \<and> kcon (knl s') = fold printc boot_text (kcon (knl s))
     \<and> (\<forall>i<unat usr. i < 0x13FFC \<or> 0x14000 \<le> i \<longrightarrow>
          kmem (kmm (knl s')) (0x100000 + of_nat i) = m (0x10000 + sys + of_nat i))
     \<and> load32 (kmem (kmm (knl s'))) 0x113FFC = load32 m p_rdtr"
proof -
  have bd: "unat usr \<le> 0x100000" using I by (simp add: image_ok_def sys_def usr_def)
  obtain mm s' where s': "boot_main L S set_handlers mono_init s = Some s'"
     "kmm (knl s') = (mono_init mm)\<lparr>kmem := store32 (write_bytes (kmem (mono_init mm)) 0x100000
         (read_bytes m (0x10000 + sys) (unat usr))) 0x113FFC (load32 m p_rdtr)\<rparr>"
     "zeos_ticks (knl s') = 0" "kcon (knl s') = fold printc boot_text (kcon (knl s))"
     "r_cs s' = USER_CS \<and> r_ss s' = USER_DS \<and> r_ds s' = USER_DS \<and> r_eip s' = 0x114000 \<and> r_esp s' = USER_ESP
       \<and> eflags s' = 0x202 \<and> pic_mask s' = 0xFC
       \<and> map (msr s') [0x174, 0x175, 0x176] = [ucast KERNEL_CS, INITIAL_ESP L, s_syscall_handler S]
       \<and> map (\<lambda>v. gate_offset (idt s' ! v)) [14, 32, 33]
           = [s_page_fault_handler2 S, s_clock_handler S, s_keyboard_handler S]
       \<and> tr s' = KERNEL_TSS \<and> descriptor_base (gdt s' ! 6) = s_tss S \<and> esp0 (tss s') = INITIAL_ESP L"
    by (rule boot_result [where set_handlers = set_handlers and mono_init = mono_init and S = S, OF L I K s h,
          folded sys_def usr_def]) (rule that)
  have "kmem (kmm (knl s')) (0x100000 + of_nat i) = m (0x10000 + sys + of_nat i)"
    if "i < unat usr" "i < 0x13FFC \<or> 0x14000 \<le> i" for i
    using user_image_kept [OF bd that, of "read_bytes m (0x10000 + sys) (unat usr)"] that(1) by (simp add: s'(2))
  then show ?thesis using s' by (intro exI [of _ s']) simp
qed

text \<open>A concrete machine with a kernel of 0x30000 and a user image of 0x15000 bytes.\<close>

definition example_image_mem :: mem where
  "example_image_mem = store32 (store32 (\<lambda>a. ucast a) 0x10000 0x30000) 0x10004 0x15000"

definition example_system :: system where
  "example_system = tables.extend zero_tables (system.fields \<lparr>zeos_ticks = 5, kcon = console_init (\<lambda>_. 0),
     kmm = \<lparr>kmem = example_image_mem, phys_mem = replicate 1024 0, cr0 = 0x11, cr3 = 0\<rparr>\<rparr>)"

lemma example_image_sizes:
  "load32 example_image_mem 0x10000 = 0x30000" "load32 example_image_mem 0x10004 = 0x15000"
  by (simp_all add: example_image_mem_def load32_store32_other aligned4_def)

lemma example_image_ok: "image_ok example_layout example_image_mem"
  by (simp add: image_ok_def example_layout_def example_image_sizes)

lemma example_system_fields:
  "kmem (kmm (knl example_system)) = example_image_mem" "length (phys_mem (kmm (knl example_system))) = 1024"
  "length (gdt example_system) = 7" "length (idt example_system) = 256"
  by (simp_all add: example_system_def system.defs tables.defs zero_tables_def)

section \<open>Properties\<close>



end
