(* ===== verification/Zeos_Build.thy ===== *)
theory Zeos_Build
  imports Zeos_Memory
begin

text \<open>
  The image builder \<^verbatim>\<open>build.c\<close>, which runs on the host: it checks the boot sector
  (a Minix executable of exactly 512 bytes with the boot flag), appends the kernel and the
  user image, and patches the sizes into the boot sector and the first words of the kernel.
  Files are their contents with the size \<open>fstat\<close> reports; standard output is a file with a
  position and a capacity, so that writes can fail, and may be a pipe that cannot seek. Each
  message of \<open>die\<close> is an error value; the progress lines on standard error are left out, as
  are the failures of \<open>fstat\<close> and \<open>read\<close> on an open file.
\<close>

datatype build_error =
    Usage
  | Unable_to_open string
  | Unable_to_read_header string
  | Non_Minix_header string
  | Illegal_data_segment string
  | Illegal_bss_segment string
  | Illegal_symbol_table string
  | Boot_block_size
  | Boot_flag_missing
  | Unexpected_EOF string
  | Write_failed
  | Seek_failed

record bfile =
  contents :: "byte list"
  st_size :: nat

record ofile =
  o_data :: "byte list"
  o_pos :: nat
  o_room :: nat
  o_seekable :: bool

type_synonym files = "string \<Rightarrow> bfile option"

definition and_then :: "'e + 'a \<Rightarrow> ('a \<Rightarrow> 'e + 'b) \<Rightarrow> 'e + 'b" where
  "and_then x f = (case x of Inl e \<Rightarrow> Inl e | Inr a \<Rightarrow> f a)"

text \<open>\<open>write(1, buf, l)\<close> with the check of its result, and \<open>lseek\<close> with its check.\<close>

definition put_out :: "byte list \<Rightarrow> ofile \<Rightarrow> build_error + ofile" where
  "put_out bs out =
     (if o_pos out + length bs \<le> o_room out
      then Inr (out\<lparr>o_data := take (o_pos out) (o_data out) @ bs @ drop (o_pos out + length bs) (o_data out),
                    o_pos := o_pos out + length bs\<rparr>)
      else Inl Write_failed)"

definition seek_out :: "nat \<Rightarrow> ofile \<Rightarrow> build_error + ofile" where
  "seek_out n out = (if o_seekable out then Inr (out\<lparr>o_pos := n\<rparr>) else Inl Seek_failed)"

text \<open>The double word \<open>lb[i]\<close> of the header is not zero.\<close>

definition lb_nonzero :: "byte list \<Rightarrow> nat \<Rightarrow> bool" where
  "lb_nonzero buf i \<longleftrightarrow> (\<exists>b \<in> set (take 4 (drop (4 * i) buf)). b \<noteq> 0)"

definition MINIX_HEADER_LEN :: nat where [simp]: "MINIX_HEADER_LEN = 32"

text \<open>The result is the rest of the file, after its header.\<close>

definition minix_open :: "files \<Rightarrow> string \<Rightarrow> build_error + byte list" where
  "minix_open fs name =
     (case fs name of
        None \<Rightarrow> Inl (Unable_to_open name)
      | Some f \<Rightarrow>
          let buf = take MINIX_HEADER_LEN (contents f)
          in if length buf \<noteq> MINIX_HEADER_LEN then Inl (Unable_to_read_header name)
             else if take 8 buf \<noteq> [0x01, 0x03, 0x10, 0x04, 0x20, 0x00, 0x00, 0x00] \<or> lb_nonzero buf 5
             then Inl (Non_Minix_header name)
             else if lb_nonzero buf 3 then Inl (Illegal_data_segment name)
             else if lb_nonzero buf 4 then Inl (Illegal_bss_segment name)
             else if lb_nonzero buf 7 then Inl (Illegal_symbol_table name)
             else Inr (drop MINIX_HEADER_LEN (contents f)))"

text \<open>The copy loop: \<open>sz\<close> bytes are left, \<open>rest\<close> is the unread part of the file.\<close>

function copy_loop :: "string \<Rightarrow> nat \<Rightarrow> byte list \<Rightarrow> ofile \<Rightarrow> build_error + ofile" where
  "copy_loop name sz rest out =
     (if sz > 0 then
        let l = (if sz > 1024 then 1024 else sz);
            chunk = take l rest
        in if length chunk \<noteq> l then Inl (Unexpected_EOF name)
           else and_then (put_out chunk out) (copy_loop name (sz - l) (drop l rest))
      else Inr out)"
  by pat_completeness auto
termination
  by (relation "measure (\<lambda>(name, sz, rest, out). sz)") auto

declare copy_loop.simps [simp del]

text \<open>\<open>st_size\<close> is stored in an unsigned int, which the loop counts down.\<close>

definition append_file :: "files \<Rightarrow> string \<Rightarrow> ofile \<Rightarrow> build_error + (dword \<times> ofile)" where
  "append_file fs name out =
     (case fs name of
        None \<Rightarrow> Inl (Unable_to_open name)
      | Some f \<Rightarrow>
          let sz = of_nat (st_size f) :: dword
          in and_then (copy_loop name (unat sz) (contents f) out) (\<lambda>out. Inr (sz, out)))"

definition word3 :: "dword \<Rightarrow> byte list" where
  "word3 v = [ucast (v AND 0xff), ucast (drop_bit 8 v AND 0xff), ucast (drop_bit 16 v AND 0xff), 0]"

definition patch :: "nat \<Rightarrow> byte list \<Rightarrow> ofile \<Rightarrow> build_error + ofile" where
  "patch n bs out = and_then (seek_out n out) (put_out bs)"

definition build_main :: "files \<Rightarrow> string list \<Rightarrow> ofile \<Rightarrow> build_error + ofile" where
  "build_main fs argv out =
     (if length argv \<noteq> 4 then Inl Usage
      else and_then (minix_open fs (argv ! 1)) (\<lambda>rest.
        let buf = take 1024 rest
        in if length buf \<noteq> 512 then Inl Boot_block_size
           else if buf ! 510 \<noteq> 0x55 \<or> buf ! 511 \<noteq> 0xaa then Inl Boot_flag_missing
           else
             let buf = buf[508 := 0, 509 := 0]
             in and_then (put_out buf out) (\<lambda>out.
                and_then (append_file fs (argv ! 2) out) (\<lambda>(sys_size, out).
                and_then (append_file fs (argv ! 3) out) (\<lambda>(usr_size, out).
                let im_size = (sys_size + usr_size + 15) div 16
                in and_then (patch 500 (take 2 (word3 im_size)) out) (\<lambda>out.
                   and_then (patch 512 (word3 sys_size) out) (\<lambda>out.
                   and_then (patch 516 (word3 usr_size) out) (\<lambda>out.
                   patch 520 (word3 0x7E6A) out))))))))"

section \<open>Lemmas\<close>

lemma and_then_simps [simp]: "and_then (Inr a) f = f a" "and_then (Inl e) f = Inl e"
  by (simp_all add: and_then_def)

lemma put_out_append:
  assumes "o_pos out = length (o_data out)" "length (o_data out) + length bs \<le> o_room out"
  shows "put_out bs out = Inr (out\<lparr>o_data := o_data out @ bs, o_pos := length (o_data out @ bs)\<rparr>)"
  using assms by (simp add: put_out_def)

lemma copy_loop_append:
  "o_pos out = length (o_data out) \<Longrightarrow> sz \<le> length rest \<Longrightarrow> length (o_data out) + sz \<le> o_room out \<Longrightarrow>
     copy_loop name sz rest out = Inr (out\<lparr>o_data := o_data out @ take sz rest, o_pos := length (o_data out) + sz\<rparr>)"
proof (induction name sz rest out rule: copy_loop.induct)
  case (1 name sz rest out)
  show ?case
  proof (cases "sz > 0")
    case False
    then show ?thesis using "1.prems" by (simp add: copy_loop.simps)
  next
    case True
    let ?l = "if sz > 1024 then 1024 else sz"
    let ?out = "out\<lparr>o_data := o_data out @ take ?l rest, o_pos := length (o_data out @ take ?l rest)\<rparr>"
    have l: "?l \<le> sz" "?l \<le> length rest" using "1.prems"(2) by auto
    have "copy_loop name (sz - ?l) (drop ?l rest) ?out
        = Inr (?out\<lparr>o_data := o_data ?out @ take (sz - ?l) (drop ?l rest), o_pos := length (o_data ?out) + (sz - ?l)\<rparr>)"
      using True l "1.prems" by (intro "1.IH") auto
    moreover have "put_out (take ?l rest) out = Inr ?out"
      using "1.prems" l by (intro put_out_append) auto
    moreover have "take ?l rest @ take (sz - ?l) (drop ?l rest) = take sz rest"
      using l(1) take_add [of ?l "sz - ?l" rest] by simp
    ultimately show ?thesis
      using True l by (subst copy_loop.simps) (simp add: Let_def)
  qed
qed

lemma patch_spec:
  assumes "o_seekable out" "n + length bs \<le> length (o_data out)" "length (o_data out) \<le> o_room out"
  shows "patch n bs out = Inr (out\<lparr>o_pos := n + length bs,
     o_data := take n (o_data out) @ bs @ drop (n + length bs) (o_data out)\<rparr>)"
  using assms by (simp add: patch_def seek_out_def put_out_def)

lemma append_file_spec:
  assumes "fs name = Some \<lparr>contents = c, st_size = length c\<rparr>" "length c < 2 ^ 24"
    and "o_pos out = length (o_data out)" "length (o_data out) + length c \<le> o_room out"
  shows "append_file fs name out =
     Inr (of_nat (length c), out\<lparr>o_data := o_data out @ c, o_pos := length (o_data out) + length c\<rparr>)"
proof -
  have "unat (of_nat (length c) :: dword) = length c" using assms(2) by (simp add: unat_of_nat)
  then show ?thesis using assms(1,3,4) by (simp add: append_file_def copy_loop_append)
qed

lemma length_word3 [simp]: "length (word3 v) = 4"
  by (simp add: word3_def)

lemma load32_word3:
  assumes "read_bytes m a 4 = word3 v" "v < 2 ^ 24"
  shows "load32 m a = v"
proof -
  have "drop_bit 24 v = 0"
    using assms(2) by (simp add: word_unat_eq_iff unat_div drop_bit_eq_div word_less_nat_alt)
  moreover have "ucast (x AND 0xff) = (ucast x :: byte)" for x :: dword
  proof -
    have ff: "(0xff :: dword) = mask 8" by (simp add: mask_eq_exp_minus_1)
    show ?thesis unfolding ff by (rule bit_word_eqI) (auto simp: bit_simps)
  qed
  ultimately have "m a = ucast v" "m (a + 1) = ucast (drop_bit 8 v)" "m (a + 2) = ucast (drop_bit 16 v)"
    "m (a + 3) = ucast (drop_bit 24 v)"
    using assms(1) by (simp_all add: word3_def numeral_eq_Suc read_bytes_Suc add.assoc)
  then show ?thesis using split32 [of v] by (simp add: load32_def)
qed

text \<open>A boot sector file that passes the checks.\<close>

definition boot_file_ok :: "byte list \<Rightarrow> byte list \<Rightarrow> bool" where
  "boot_file_ok hdr boot \<longleftrightarrow> length hdr = 32
     \<and> take 8 hdr = [0x01, 0x03, 0x10, 0x04, 0x20, 0x00, 0x00, 0x00]
     \<and> \<not> lb_nonzero hdr 3 \<and> \<not> lb_nonzero hdr 4 \<and> \<not> lb_nonzero hdr 5 \<and> \<not> lb_nonzero hdr 7
     \<and> length boot = 512 \<and> boot ! 510 = 0x55 \<and> boot ! 511 = 0xaa"

lemma minix_open_ok:
  "boot_file_ok hdr boot \<Longrightarrow> fs name = Some \<lparr>contents = hdr @ boot, st_size = n\<rparr> \<Longrightarrow> minix_open fs name = Inr boot"
  by (simp add: minix_open_def boot_file_ok_def)

definition disk_image :: "byte list \<Rightarrow> byte list \<Rightarrow> byte list \<Rightarrow> byte list" where
  "disk_image boot sys usr =
     (let b = boot[508 := 0, 509 := 0]
      in take 500 b @ take 2 (word3 ((of_nat (length sys) + of_nat (length usr) + 15) div 16)) @ drop 502 b
         @ word3 (of_nat (length sys)) @ word3 (of_nat (length usr)) @ word3 0x7E6A @ drop 12 (sys @ usr))"

lemma patches_spec:
  assumes "o_seekable out" "o_data out = b @ body" "length b = 512" "12 \<le> length body"
    and "length (b @ body) \<le> o_room out" "length w0 = 2" "length w1 = 4" "length w2 = 4" "length w3 = 4"
  shows "\<exists>out'. and_then (patch 500 w0 out) (\<lambda>out. and_then (patch 512 w1 out) (\<lambda>out.
       and_then (patch 516 w2 out) (\<lambda>out. patch 520 w3 out))) = Inr out'
     \<and> o_data out' = take 500 b @ w0 @ drop 502 b @ w1 @ w2 @ w3 @ drop 12 body"
proof -
  have "patch 500 w0 out = Inr (out\<lparr>o_pos := 502, o_data := take 500 b @ w0 @ drop 502 b @ body\<rparr>)"
    using assms by (simp add: patch_spec)
  moreover have "patch 512 w1 (out\<lparr>o_pos := p, o_data := take 500 b @ w0 @ drop 502 b @ body\<rparr>) =
      Inr (out\<lparr>o_pos := 516, o_data := take 500 b @ w0 @ drop 502 b @ w1 @ drop 4 body\<rparr>)" for p
    using assms by (simp add: patch_spec)
  moreover have "patch 516 w2 (out\<lparr>o_pos := p, o_data := take 500 b @ w0 @ drop 502 b @ w1 @ drop 4 body\<rparr>) =
      Inr (out\<lparr>o_pos := 520, o_data := take 500 b @ w0 @ drop 502 b @ w1 @ w2 @ drop 8 body\<rparr>)" for p
    using assms by (simp add: patch_spec)
  moreover have "patch 520 w3 (out\<lparr>o_pos := p, o_data := take 500 b @ w0 @ drop 502 b @ w1 @ w2 @ drop 8 body\<rparr>) =
      Inr (out\<lparr>o_pos := 524, o_data := take 500 b @ w0 @ drop 502 b @ w1 @ w2 @ w3 @ drop 12 body\<rparr>)" for p
    using assms by (simp add: patch_spec)
  ultimately show ?thesis by simp
qed

lemma build_main_image:
  assumes "boot_file_ok hdr boot"
    and "fs bn = Some \<lparr>contents = hdr @ boot, st_size = n\<rparr>"
    and "fs sn = Some \<lparr>contents = sys, st_size = length sys\<rparr>"
    and "fs un = Some \<lparr>contents = usr, st_size = length usr\<rparr>"
    and "length sys < 2 ^ 24" "length usr < 2 ^ 24" "12 \<le> length sys + length usr"
    and "512 + length sys + length usr \<le> room"
  shows "\<exists>out'. build_main fs [prog, bn, sn, un] \<lparr>o_data = [], o_pos = 0, o_room = room, o_seekable = True\<rparr> = Inr out'
     \<and> o_data out' = disk_image boot sys usr"
proof -
  let ?b = "boot[508 := 0, 509 := 0]"
  let ?out = "\<lambda>d. \<lparr>o_data = d, o_pos = length d, o_room = room, o_seekable = True\<rparr>"
  have b: "length boot = 512" "boot ! 510 = 0x55" "boot ! 511 = 0xaa" using assms(1) by (simp_all add: boot_file_ok_def)
  have "put_out ?b (?out []) = Inr (?out ?b)" using assms(8) b by (simp add: put_out_def)
  moreover have "append_file fs sn (?out ?b) = Inr (of_nat (length sys), ?out (?b @ sys))"
    using assms(3,5,8) b by (subst append_file_spec) simp_all
  moreover have "append_file fs un (?out (?b @ sys)) = Inr (of_nat (length usr), ?out (?b @ sys @ usr))"
    using assms(4,6,8) b by (subst append_file_spec) simp_all
  moreover note patches_spec [of "?out (?b @ sys @ usr)" ?b "sys @ usr"
      "take 2 (word3 ((of_nat (length sys) + of_nat (length usr) + 15) div 16))"
      "word3 (of_nat (length sys))" "word3 (of_nat (length usr))" "word3 0x7E6A"]
  ultimately show ?thesis
    using assms(7,8) b minix_open_ok [of hdr boot fs bn n] assms(1,2)
    by (simp add: build_main_def disk_image_def Let_def)
qed

lemma disk_image_body:
  "length boot = 512 \<Longrightarrow> drop 512 (disk_image boot sys usr) =
     word3 (of_nat (length sys)) @ word3 (of_nat (length usr)) @ word3 0x7E6A @ drop 12 (sys @ usr)"
  by (simp add: disk_image_def Let_def)

text \<open>The image, loaded at \<open>a\<close>, as the kernel reads it.\<close>

lemma loaded_image:
  assumes "length boot = 512" "12 \<le> length sys" "length sys < 2 ^ 24" "length usr < 2 ^ 24"
    and "read_bytes m a (length sys + length usr) = drop 512 (disk_image boot sys usr)"
  shows "load32 m a = of_nat (length sys)" "load32 m (a + 4) = of_nat (length usr)" "load32 m (a + 8) = 0x7E6A"
    and "\<And>i. i < length usr \<Longrightarrow> m (a + of_nat (length sys) + of_nat i) = usr ! i"
    and "\<And>i. 12 \<le> i \<Longrightarrow> i < length sys \<Longrightarrow> m (a + of_nat i) = sys ! i"
proof -
  let ?n = "length sys + length usr"
  have body: "read_bytes m a ?n =
      word3 (of_nat (length sys)) @ word3 (of_nat (length usr)) @ word3 0x7E6A @ drop 12 (sys @ usr)"
    using assms(1,5) by (simp add: disk_image_body)
  have part: "read_bytes m (a + of_nat k) 4 = take 4 (drop k (read_bytes m a ?n))" if "k + 4 \<le> ?n" for k
    using that by (intro nth_equalityI) (simp_all add: add.assoc)
  have w: "read_bytes m a 4 = word3 (of_nat (length sys))" "read_bytes m (a + 4) 4 = word3 (of_nat (length usr))"
    "read_bytes m (a + 8) 4 = word3 0x7E6A"
    using part [of 0] part [of 4] part [of 8] assms(2) unfolding body by simp_all
  have lt: "(of_nat n :: dword) < 2 ^ 24" if "n < 2 ^ 24" for n
    using that by (simp add: word_less_nat_alt unat_of_nat)
  show "load32 m a = of_nat (length sys)" "load32 m (a + 4) = of_nat (length usr)" "load32 m (a + 8) = 0x7E6A"
    using load32_word3 [OF w(1) lt [OF assms(3)]] load32_word3 [OF w(2) lt [OF assms(4)]]
      load32_word3 [OF w(3)] by simp_all
  have rest: "m (a + of_nat j) = (sys @ usr) ! j" if "12 \<le> j" "j < ?n" for j
  proof -
    have "m (a + of_nat j) = read_bytes m a ?n ! j" using that by simp
    also have "\<dots> = drop 12 (sys @ usr) ! (j - 12)"
      unfolding body append_assoc [symmetric] using that by (subst nth_append) simp
    also have "\<dots> = (sys @ usr) ! j" using that by (subst nth_drop) simp_all
    finally show ?thesis .
  qed
  show "m (a + of_nat (length sys) + of_nat i) = usr ! i" if "i < length usr" for i
    using rest [of "length sys + i"] that assms(2) by (simp add: add.assoc nth_append)
  show "m (a + of_nat i) = sys ! i" if "12 \<le> i" "i < length sys" for i
    using rest [of i] that by (simp add: nth_append)
qed

lemma build_main_rejects:
  assumes "fs bn = Some f"
  shows "\<not> (\<exists>hdr boot. contents f = hdr @ boot \<and> boot_file_ok hdr boot) \<Longrightarrow>
     \<exists>e. build_main fs [prog, bn, sn, un] out = Inl e"
proof (rule ccontr)
  assume bad: "\<not> (\<exists>hdr boot. contents f = hdr @ boot \<and> boot_file_ok hdr boot)"
    and ok: "\<not> (\<exists>e. build_main fs [prog, bn, sn, un] out = Inl e)"
  let ?h = "take 32 (contents f)" and ?r = "drop 32 (contents f)"
  have m: "minix_open fs bn = Inr ?r"
    using ok assms by (auto simp: build_main_def minix_open_def Let_def split: if_splits)
  with assms have h: "length ?h = 32" "take 8 ?h = [0x01, 0x03, 0x10, 0x04, 0x20, 0x00, 0x00, 0x00]"
    "\<not> lb_nonzero ?h 3" "\<not> lb_nonzero ?h 4" "\<not> lb_nonzero ?h 5" "\<not> lb_nonzero ?h 7"
    unfolding minix_open_def by (auto simp: Let_def split: if_splits)
  have "length (take 1024 ?r) = 512" "take 1024 ?r ! 510 = 0x55" "take 1024 ?r ! 511 = 0xaa"
    using ok m by (auto simp: build_main_def Let_def split: if_splits)
  then have "length ?r = 512" "?r ! 510 = 0x55" "?r ! 511 = 0xaa" by (auto simp: min_def split: if_splits)
  with h have "boot_file_ok ?h ?r" by (simp add: boot_file_ok_def)
  with bad show False by (metis append_take_drop_id)
qed

definition example_header :: "byte list" where
  "example_header = [0x01, 0x03, 0x10, 0x04, 0x20, 0x00, 0x00, 0x00] @ replicate 24 0"

definition example_boot :: "byte list" where
  "example_boot = replicate 510 0x90 @ [0x55, 0xaa]"

definition example_files :: files where
  "example_files name =
     (if name = ''bootsect'' then Some \<lparr>contents = example_header @ example_boot, st_size = 544\<rparr>
      else if name = ''system'' then Some \<lparr>contents = replicate 20 7, st_size = 20\<rparr>
      else if name = ''user'' then Some \<lparr>contents = [1, 2, 3], st_size = 3\<rparr>
      else None)"

lemma example_boot_file_ok: "boot_file_ok example_header example_boot"
  by (simp add: boot_file_ok_def example_header_def example_boot_def lb_nonzero_def nth_append)

section \<open>Properties\<close>

text \<open>
  C37. The image builder: for a boot file that is a bare 512-byte Minix executable with the
  boot flag, it writes the boot sector with the image size (in 16-byte units) at offset 500,
  followed by the kernel and the user file, with the three words at the start of the kernel
  replaced by the two sizes and the magic value; the rest of both files is copied byte for
  byte. Any other boot file is refused.
\<close>

theorem build_image:
  assumes "fs bn = Some f"
    and "fs sn = Some \<lparr>contents = sys, st_size = length sys\<rparr>"
    and "fs un = Some \<lparr>contents = usr, st_size = length usr\<rparr>"
    and "length sys < 2 ^ 24" "length usr < 2 ^ 24" "12 \<le> length sys + length usr"
    and "512 + length sys + length usr \<le> room"
  shows "(\<forall>hdr boot. contents f = hdr @ boot \<and> boot_file_ok hdr boot \<longrightarrow>
      (\<exists>out'. build_main fs [prog, bn, sn, un] \<lparr>o_data = [], o_pos = 0, o_room = room, o_seekable = True\<rparr> = Inr out'
         \<and> o_data out' = disk_image boot sys usr))
    \<and> (\<not> (\<exists>hdr boot. contents f = hdr @ boot \<and> boot_file_ok hdr boot) \<longrightarrow>
      (\<exists>e. build_main fs [prog, bn, sn, un] out = Inl e))"
proof (intro conjI allI impI)
  fix hdr boot assume "contents f = hdr @ boot \<and> boot_file_ok hdr boot"
  then have "fs bn = Some \<lparr>contents = hdr @ boot, st_size = st_size f\<rparr>" "boot_file_ok hdr boot"
    using assms(1) by simp_all
  with build_main_image [of hdr boot fs bn "st_size f" sn sys un usr room prog] assms
  show "\<exists>out'. build_main fs [prog, bn, sn, un] \<lparr>o_data = [], o_pos = 0, o_room = room, o_seekable = True\<rparr> = Inr out'
         \<and> o_data out' = disk_image boot sys usr" by blast
qed (use build_main_rejects [of fs bn f] assms(1) in blast)

theorem build_image_witness:
  "\<exists>out'. build_main example_files [''build'', ''bootsect'', ''system'', ''user'']
       \<lparr>o_data = [], o_pos = 0, o_room = 1000000, o_seekable = True\<rparr> = Inr out'
     \<and> o_data out' = disk_image example_boot (replicate 20 7) [1, 2, 3]"
  using build_image [of example_files "''bootsect''" "\<lparr>contents = example_header @ example_boot, st_size = 544\<rparr>"
      "''system''" "replicate 20 7" "''user''" "[1, 2, 3]" 1000000 "''build''"] example_boot_file_ok
  by (auto simp: example_files_def)

end
