(* ===== verification/Zeos_Loader.thy ===== *)
theory Zeos_Loader
  imports Zeos_Utils
begin

text \<open>
  The load loop of the boot sector \<^verbatim>\<open>bootsect.S\<close>, real-mode code: \<open>read_it\<close> loads
  the kernel image from the floppy disk to 0x10000, in runs that end with a track or with a
  64 KB segment. Addresses are linear, \<open>segment * 16 + offset\<close>.

  The BIOS is not part of the repository: \<open>int13\<close>, its disk service, is a parameter, a
  function of AX, BX, CX, DX, ES and the memory. It may change memory below 0x500 (its own
  data) and from 0x92000 on (the stack of the boot sector starts at 0x93FF4, and the screen is
  above). The pushes of the boot sector itself stay in the latter area and are left out, as is
  the dot that \<open>read_track\<close> prints.
\<close>

section \<open>The load loop\<close>

type_synonym bios = "word16 \<Rightarrow> word16 \<Rightarrow> word16 \<Rightarrow> word16 \<Rightarrow> word16 \<Rightarrow> mem \<Rightarrow> mem"

definition SEC_PISTA :: word16 where [simp]: "SEC_PISTA = 18"
definition INITSEG :: word16 where "INITSEG = 0x9000"
definition BOOTSEG :: word16 where "BOOTSEG = 0x07C0"
definition SYSSEG :: word16 where [simp]: "SYSSEG = 0x1000"

text \<open>The registers ES and BX, the three variables before \<open>read_it\<close>, and the memory.\<close>

record loader =
  l_es :: word16
  l_bx :: word16
  sread :: word16
  head :: word16
  track :: word16
  l_mem :: mem

definition linear :: "word16 \<Rightarrow> word16 \<Rightarrow> dword" where
  "linear seg off = push_bit 4 (ucast seg) + ucast off"

definition low8 :: "word16 \<Rightarrow> word16" where "low8 w = w AND 0xFF"

text \<open>
  \<open>read_track\<close>: AL sectors from sector \<open>sread + 1\<close> of the current track and head to ES:BX. The
  service reports errors in the carry flag, which the code ignores.
\<close>

definition read_track :: "bios \<Rightarrow> word16 \<Rightarrow> loader \<Rightarrow> loader" where
  "read_track int13 ax s =
     (let dx = track s;
          cx = sread s;
          cx = cx + 1;
          cx = low8 cx OR push_bit 8 (low8 dx);
          dx = head s;
          dx = low8 dx OR push_bit 8 (low8 dx);
          dx = dx AND 0x0100;
          ax = low8 ax OR 0x0200
      in s\<lparr>l_mem := int13 ax (l_bx s) cx dx (l_es s) (l_mem s)\<rparr>)"

text \<open>The number of sectors to read next: the rest of the track, or of the 64 KB segment.\<close>

definition run_length :: "loader \<Rightarrow> word16" where
  "run_length s =
     (let ax = SEC_PISTA - sread s;
          cx = push_bit 9 ax;
          carry = (2 ^ 16 \<le> unat cx + unat (l_bx s));
          cx = cx + l_bx s
      in if \<not> carry then ax
         else if cx = 0 then ax
         else drop_bit 9 (0 - l_bx s))"

text \<open>
  After a run of \<open>ax\<close> sectors: the sectors of the track that are read, or the other head and
  from there the next track.
\<close>

definition advance_track :: "word16 \<Rightarrow> loader \<Rightarrow> loader" where
  "advance_track ax s =
     (let ax = ax + sread s
      in if ax \<noteq> SEC_PISTA then s\<lparr>sread := ax\<rparr>
         else
           let ax = 1 - head s;
               s = (if ax \<noteq> 0 then s else s\<lparr>track := track s + 1\<rparr>)
           in s\<lparr>head := ax, sread := 0\<rparr>)"

text \<open>The buffer moves on; adding 0x10 to AH adds 0x1000 to AX.\<close>

definition advance_buffer :: "word16 \<Rightarrow> loader \<Rightarrow> loader" where
  "advance_buffer cx s =
     (let cx = push_bit 9 cx;
          carry = (2 ^ 16 \<le> unat (l_bx s) + unat cx);
          s = s\<lparr>l_bx := l_bx s + cx\<rparr>
      in if \<not> carry then s else s\<lparr>l_es := l_es s + 0x1000, l_bx := 0\<rparr>)"

text \<open>
  One iteration, from \<open>ok1_read\<close> to the jump back to \<open>rp_read\<close>. A run that goes past 0x90000
  overwrites the boot sector; the iteration then has no result.
\<close>

definition read_run :: "bios \<Rightarrow> loader \<Rightarrow> loader option" where
  "read_run int13 s =
     (let ax = run_length s
      in if 0x90000 < unat (linear (l_es s) (l_bx s)) + 512 * unat ax then None
         else
           let s = read_track int13 ax s;
               cx = ax;
               s = advance_track ax s
           in Some (advance_buffer cx s))"

partial_function (option) rp_read :: "bios \<Rightarrow> word16 \<Rightarrow> loader \<Rightarrow> loader option" where
  "rp_read int13 syssize s =
     (if l_es s - SYSSEG \<le> syssize
      then do { s \<leftarrow> read_run int13 s; rp_read int13 syssize s }
      else Some s)"

text \<open>
  \<open>read_it\<close>: the label \<open>die\<close> is an endless loop, here no result. Only the low byte of
  \<open>sread\<close> is written.
\<close>

definition read_it :: "bios \<Rightarrow> byte \<Rightarrow> word16 \<Rightarrow> loader \<Rightarrow> loader option" where
  "read_it int13 setup_sects syssize s =
     (let al = setup_sects + 1;
          s = s\<lparr>sread := (sread s AND 0xFF00) OR ucast al\<rparr>
      in if l_es s AND 0x0fff \<noteq> 0 then None
         else rp_read int13 syssize (s\<lparr>l_bx := 0\<rparr>))"

section \<open>The disk\<close>

text \<open>
  What the disk service does (function 2, drive 0, a disk of 80 cylinders, 2 heads and 18
  sectors of 512 bytes) with a request inside one track whose buffer stays in one 64 KB page:
  the buffer receives the sectors, and other memory keeps its contents between 0x500 and
  0x92000.
\<close>

type_synonym disk = "nat \<Rightarrow> byte"

definition sector_bytes :: "disk \<Rightarrow> nat \<Rightarrow> nat \<Rightarrow> byte list" where
  "sector_bytes d lba n = map d [512 * lba ..< 512 * (lba + n)]"

definition reads_disk :: "disk \<Rightarrow> bios \<Rightarrow> bool" where
  "reads_disk d int13 \<longleftrightarrow>
     (\<forall>n cyl h sec bx es m b. 1 \<le> n \<and> cyl < 80 \<and> h < 2 \<and> sec + n \<le> 18
        \<and> unat bx + 512 * n \<le> 2 ^ 16 \<and> 0x500 \<le> unat b \<and> unat b < 0x92000 \<and> es AND 0x0fff = 0 \<longrightarrow>
        int13 (of_nat n OR 0x0200) bx (of_nat (sec + 1) OR push_bit 8 (of_nat cyl)) (push_bit 8 (of_nat h)) es m b
          = write_bytes m (linear es bx) (sector_bytes d ((cyl * 2 + h) * 18 + sec) n) b)"

section \<open>Lemmas on the load loop\<close>

lemma write_bytes_cong: "m b = m' b \<Longrightarrow> write_bytes m a bs b = write_bytes m' a bs b"
proof (induction bs arbitrary: m m' a)
  case (Cons c bs)
  then have "(m(a := c)) b = (m'(a := c)) b" by simp
  then show ?case unfolding write_bytes.simps
    by (rule Cons.IH [where m = "m(a := c)" and m' = "m'(a := c)" and a = "a + 1"])
qed (simp only: write_bytes.simps)

lemma length_sector_bytes [simp]: "length (sector_bytes d lba n) = 512 * n"
  by (simp add: sector_bytes_def)

lemma sector_bytes_append: "sector_bytes d lba (k + n) = sector_bytes d lba k @ sector_bytes d (lba + k) n"
proof -
  have "[512 * lba ..< 512 * (lba + (k + n))] = [512 * lba ..< 512 * (lba + k)] @ [512 * (lba + k) ..< 512 * (lba + k + n)]"
    using upt_add_eq_append [of "512 * lba" "512 * (lba + k)" "512 * n"] by (simp add: algebra_simps)
  then show ?thesis by (simp add: sector_bytes_def)
qed

text \<open>The state after \<open>n\<close> sectors of the image: sector \<open>n + 1\<close> of the disk is the next one.\<close>

definition loaded :: "disk \<Rightarrow> mem \<Rightarrow> nat \<Rightarrow> loader \<Rightarrow> bool" where
  "loaded d m n s \<longleftrightarrow>
     l_es s = of_nat (0x1000 * (n div 128 + 1)) \<and> l_bx s = of_nat (512 * (n mod 128))
     \<and> sread s = of_nat ((n + 1) mod 18) \<and> head s = of_nat ((n + 1) div 18 mod 2) \<and> track s = of_nat ((n + 1) div 36)
     \<and> (\<forall>b. 0x500 \<le> unat b \<and> unat b < 0x92000 \<longrightarrow>
          l_mem s b = write_bytes m 0x10000 (sector_bytes d 1 n) b)"

text \<open>The next run: to the end of the track or of the segment.\<close>

definition next_run :: "nat \<Rightarrow> nat" where
  "next_run n = min (18 - (n + 1) mod 18) (128 - n mod 128)"

lemma next_run_bounds:
  "1 \<le> next_run n" "next_run n \<le> 18" "(n + 1) mod 18 + next_run n \<le> 18" "n mod 128 + next_run n \<le> 128"
proof -
  have min: "1 \<le> min (18 - r) (128 - q) \<and> min (18 - r) (128 - q) \<le> 18 \<and> r + min (18 - r) (128 - q) \<le> 18
      \<and> q + min (18 - r) (128 - q) \<le> 128" if "r < 18" "q < 128" for r q :: nat
    using that by linarith
  have "(n + 1) mod 18 < 18" "n mod 128 < 128" by simp_all
  from min [OF this] show "1 \<le> next_run n" "next_run n \<le> 18" "(n + 1) mod 18 + next_run n \<le> 18"
    "n mod 128 + next_run n \<le> 128" unfolding next_run_def by blast+
qed

subsection \<open>Words that hold small numbers\<close>

lemma unat_of_nat16: "x < 2 ^ 16 \<Longrightarrow> unat (of_nat x :: word16) = x"
  by (simp add: unat_of_nat)

lemma ucast_of_nat16: "x < 2 ^ 16 \<Longrightarrow> (ucast (of_nat x :: word16) :: dword) = of_nat x"
  by (simp add: word_unat_eq_iff unsigned_ucast_eq unat_of_nat unat_of_nat16 take_bit_nat_eq_self_iff)

lemma of_nat16_eq: "x < 2 ^ 16 \<Longrightarrow> y < 2 ^ 16 \<Longrightarrow> (of_nat x :: word16) = of_nat y \<longleftrightarrow> x = y"
  by (simp add: word_unat_eq_iff unat_of_nat16)

lemma push_bit_of_nat16: "push_bit 9 (of_nat x :: word16) = of_nat (512 * x)"
  by (simp add: push_bit_eq_mult)

lemma drop_bit_of_nat16: "x < 2 ^ 16 \<Longrightarrow> drop_bit 9 (of_nat x :: word16) = of_nat (x div 512)"
  by (simp add: word_unat_eq_iff unat_div unat_of_nat16 drop_bit_eq_div)

lemma minus_of_nat16: "x \<le> 2 ^ 16 \<Longrightarrow> 0 - (of_nat x :: word16) = of_nat (2 ^ 16 - x)"
  by (simp add: of_nat_diff)

lemma run_length_next:
  assumes "sread s = of_nat ((n + 1) mod 18)" "l_bx s = of_nat (512 * (n mod 128))"
  shows "run_length s = of_nat (next_run n)"
proof -
  let ?r = "18 - (n + 1) mod 18" and ?q = "n mod 128"
  have b: "?r \<le> 18" "1 \<le> ?r" "?q < 128"
    using mod_less_divisor [of 18 "n + 1"] by (simp_all add: Suc_le_eq)
  have ax: "SEC_PISTA - sread s = of_nat ?r"
    using assms(1) mod_less_divisor [of 18 "n + 1"] by (simp add: of_nat_diff)
  have u: "unat (push_bit 9 (of_nat ?r :: word16)) = 512 * ?r" "unat (l_bx s) = 512 * ?q"
    unfolding assms(2) push_bit_of_nat16 using b by (intro unat_of_nat16; simp)+
  have z: "push_bit 9 (of_nat ?r :: word16) + l_bx s = 0 \<longleftrightarrow> ?r + ?q = 128" if "128 \<le> ?r + ?q"
  proof -
    have "push_bit 9 (of_nat ?r :: word16) + l_bx s = of_nat (512 * (?r + ?q))"
      unfolding assms(2) push_bit_of_nat16 by (simp add: distrib_left)
    also have "\<dots> = of_nat (512 * (?r + ?q) - 2 ^ 16)" using that by (simp add: of_nat_diff)
    also have "\<dots> = 0 \<longleftrightarrow> 512 * (?r + ?q) - 2 ^ 16 = 0"
      using of_nat16_eq [of "512 * (?r + ?q) - 2 ^ 16" 0] b by simp
    finally show ?thesis using that by simp
  qed
  have d: "drop_bit 9 (0 - l_bx s) = of_nat (128 - ?q)" if "?q \<noteq> 0"
  proof -
    have "2 ^ 16 - 512 * ?q = 512 * (128 - ?q)" by simp
    moreover have "512 * (128 - ?q) < 2 ^ 16" using that by simp
    moreover have "0 - l_bx s = of_nat (2 ^ 16 - 512 * ?q)"
      unfolding assms(2) using b(3) by (intro minus_of_nat16) simp
    ultimately show ?thesis using drop_bit_of_nat16 [of "512 * (128 - ?q)"] by (simp only:) simp
  qed
  consider "?r + ?q < 128" | "?r + ?q = 128" | "128 < ?r + ?q" by linarith
  then show ?thesis
  proof cases
    case 1
    then have "next_run n = ?r" "\<not> 2 ^ 16 \<le> 512 * ?r + 512 * ?q" by (simp_all add: next_run_def min_def)
    then show ?thesis unfolding run_length_def Let_def ax u by simp
  next
    case 2
    then have "next_run n = ?r" by (simp add: next_run_def min_def)
    then show ?thesis unfolding run_length_def Let_def ax u using z 2 by simp
  next
    case 3
    then have "next_run n = 128 - ?q" "2 ^ 16 \<le> 512 * ?r + 512 * ?q" "?q \<noteq> 0" "?r + ?q \<noteq> 128"
      using b by (simp_all add: next_run_def min_def)
    then show ?thesis unfolding run_length_def Let_def ax u using z [OF less_imp_le [OF 3]] d by simp
  qed
qed

subsection \<open>One run\<close>

text \<open>The arguments of the disk service are the ones \<open>reads_disk\<close> speaks about.\<close>

lemma low8_of_nat: "x < 256 \<Longrightarrow> low8 (of_nat x) = of_nat x"
proof -
  assume "x < 256"
  then have "take_bit 8 (of_nat x :: word16) = of_nat x"
    by (simp add: word_unat_eq_iff unsigned_take_bit_eq unat_of_nat16 take_bit_nat_eq_self_iff)
  moreover have ff: "(0xFF :: word16) = mask 8" by (simp add: mask_eq_exp_minus_1)
  ultimately show ?thesis unfolding low8_def ff by (simp add: take_bit_eq_mask)
qed

lemma head_bits: "h < 2 \<Longrightarrow> (low8 (of_nat h) OR push_bit 8 (low8 (of_nat h))) AND 0x0100 = push_bit 8 (of_nat h :: word16)"
  by (auto simp: less_2_cases_iff low8_def)

lemma read_track_reads:
  assumes "reads_disk d int13" "sread s = of_nat sec" "head s = of_nat h" "track s = of_nat cyl"
    and "1 \<le> n" "cyl < 80" "h < 2" "sec + n \<le> 18" "unat (l_bx s) + 512 * n \<le> 2 ^ 16" "l_es s AND 0x0fff = 0"
    and "0x500 \<le> unat b" "unat b < 0x92000"
  shows "l_mem (read_track int13 (of_nat n) s) b
    = write_bytes (l_mem s) (linear (l_es s) (l_bx s)) (sector_bytes d ((cyl * 2 + h) * 18 + sec) n) b"
proof -
  have "low8 (of_nat sec + 1) = of_nat (sec + 1)" "low8 (of_nat n) = of_nat n" "low8 (of_nat cyl) = of_nat cyl"
    using low8_of_nat [of "sec + 1"] low8_of_nat [of n] low8_of_nat [of cyl] assms by (simp_all add: add.commute)
  then show ?thesis
    using assms head_bits [OF assms(7)] by (simp add: read_track_def Let_def reads_disk_def)
qed

text \<open>
  The counters after a run of \<open>c\<close> sectors: the track is left when it is used up, the segment
  when it is full.
\<close>

lemma next_sector:
  fixes n c :: nat
  assumes "(n + 1) mod 18 + c \<le> 18" "1 \<le> c"
  shows "(n + c + 1) mod 18 = (if (n + 1) mod 18 + c = 18 then 0 else (n + 1) mod 18 + c)"
    and "(n + c + 1) div 18 = (if (n + 1) mod 18 + c = 18 then (n + 1) div 18 + 1 else (n + 1) div 18)"
proof -
  define q r where qr: "q = (n + 1) div 18" "r = (n + 1) mod 18"
  have "n + 1 = 18 * q + r" by (simp add: qr)
  then have s: "n + c + 1 = 18 * q + (r + c)" by simp
  have "r + c \<le> 18" using assms by (simp add: qr)
  then show "(n + c + 1) mod 18 = (if (n + 1) mod 18 + c = 18 then 0 else (n + 1) mod 18 + c)"
    "(n + c + 1) div 18 = (if (n + 1) mod 18 + c = 18 then (n + 1) div 18 + 1 else (n + 1) div 18)"
    unfolding s qr [symmetric] by (auto simp: le_less)
qed

lemma next_offset:
  fixes n c :: nat
  assumes "n mod 128 + c \<le> 128" "1 \<le> c"
  shows "(n + c) mod 128 = (if n mod 128 + c = 128 then 0 else n mod 128 + c)"
    and "(n + c) div 128 = (if n mod 128 + c = 128 then n div 128 + 1 else n div 128)"
proof -
  define q r where qr: "q = n div 128" "r = n mod 128"
  have s: "n + c = 128 * q + (r + c)" by (simp add: qr)
  have "r + c \<le> 128" using assms by (simp add: qr)
  then show "(n + c) mod 128 = (if n mod 128 + c = 128 then 0 else n mod 128 + c)"
    "(n + c) div 128 = (if n mod 128 + c = 128 then n div 128 + 1 else n div 128)"
    unfolding s qr [symmetric] by (auto simp: le_less)
qed

lemma linear_loaded:
  assumes "n < 1024"
  shows "linear (of_nat (0x1000 * (n div 128 + 1))) (of_nat (512 * (n mod 128))) = of_nat (0x10000 + 512 * n)"
proof -
  have "n div 128 < 8" using assms by (simp add: less_mult_imp_div_less)
  then have "0x1000 * (n div 128 + 1) < (2 :: nat) ^ 16" by simp
  then have "(ucast (of_nat (0x1000 * (n div 128 + 1)) :: word16) :: dword) = of_nat (0x1000 * (n div 128 + 1))"
    by (rule ucast_of_nat16)
  moreover have "(ucast (of_nat (512 * (n mod 128)) :: word16) :: dword) = of_nat (512 * (n mod 128))"
    by (rule ucast_of_nat16) simp
  ultimately have "linear (of_nat (0x1000 * (n div 128 + 1))) (of_nat (512 * (n mod 128)))
      = of_nat (16 * (0x1000 * (n div 128 + 1)) + 512 * (n mod 128))"
    by (simp add: linear_def push_bit_eq_mult algebra_simps)
  also have "16 * (0x1000 * (n div 128 + 1)) + 512 * (n mod 128) = 0x10000 + 512 * n"
  proof -
    have "16 * (0x1000 * (q + 1)) + 512 * r = 0x10000 + 512 * n" if "128 * q + r = n" for q r
      unfolding that [symmetric] by simp
    then show ?thesis using mult_div_mod_eq by blast
  qed
  finally show ?thesis .
qed

lemma segment_aligned: "of_nat (0x1000 * k) AND (0x0fff :: word16) = 0"
proof -
  have fff: "(0x0fff :: word16) = mask 12" by (simp add: mask_eq_exp_minus_1)
  have "(of_nat (0x1000 * k) :: word16) = push_bit 12 (of_nat k)" by (simp add: push_bit_eq_mult)
  then show ?thesis unfolding fff by (simp only:) (rule bit_word_eqI, simp add: bit_simps)
qed

lemma advance_track_next:
  fixes n c :: nat
  assumes s: "sread s = of_nat ((n + 1) mod 18)" "head s = of_nat ((n + 1) div 18 mod 2)" "track s = of_nat ((n + 1) div 36)"
    and c: "(n + 1) mod 18 + c \<le> 18" "1 \<le> c"
  shows "advance_track (of_nat c) s = s\<lparr>sread := of_nat ((n + c + 1) mod 18),
     head := of_nat ((n + c + 1) div 18 mod 2), track := of_nat ((n + c + 1) div 36)\<rparr>"
proof -
  let ?r = "(n + 1) mod 18" and ?k = "(n + 1) div 18"
  have turn: "of_nat c + sread s = SEC_PISTA \<longleftrightarrow> ?r + c = 18"
  proof -
    have "of_nat c + sread s = of_nat (?r + c)" using s(1) by simp
    moreover have "SEC_PISTA = of_nat 18" by simp
    ultimately show ?thesis using of_nat16_eq [of "?r + c" 18] c(1) by (simp only:) simp
  qed
  have div36: "k div 36 = k div 18 div 2" for k :: nat by (simp add: div_mult2_eq [symmetric])
  have flip: "(k + 1) mod 2 = 1 - k mod 2" "(k + 1) div 2 = (if k mod 2 = 1 then k div 2 + 1 else k div 2)" for k :: nat
    by presburger+
  show ?thesis
  proof (cases "?r + c = 18")
    case False
    then have "advance_track (of_nat c) s = s\<lparr>sread := of_nat (?r + c)\<rparr>"
      using turn s(1) by (simp add: advance_track_def Let_def add.commute)
    then show ?thesis
      unfolding div36 next_sector [OF c] using False s div36 by (intro loader.equality) simp_all
  next
    case True
    consider "?k mod 2 = 0" | "?k mod 2 = 1" by linarith
    then show ?thesis
    proof cases
      case 1
      then have "advance_track (of_nat c) s = s\<lparr>head := 1, sread := 0\<rparr>"
        using turn True s(2) by (simp add: advance_track_def Let_def)
      then show ?thesis
        unfolding div36 next_sector [OF c] using 1 True s(3) flip div36 by (intro loader.equality) simp_all
    next
      case 2
      then have "advance_track (of_nat c) s = s\<lparr>track := track s + 1, head := 0, sread := 0\<rparr>"
        using turn True s(2) by (simp add: advance_track_def Let_def)
      then show ?thesis
        unfolding div36 next_sector [OF c] using 2 True s(3) flip div36 by (intro loader.equality) simp_all
    qed
  qed
qed

lemma advance_buffer_next:
  fixes n c :: nat
  assumes s: "l_es s = of_nat (0x1000 * (n div 128 + 1))" "l_bx s = of_nat (512 * (n mod 128))"
    and c: "n mod 128 + c \<le> 128" "1 \<le> c" "c \<le> 18"
  shows "advance_buffer (of_nat c) s = s\<lparr>l_es := of_nat (0x1000 * ((n + c) div 128 + 1)), l_bx := of_nat (512 * ((n + c) mod 128))\<rparr>"
proof -
  let ?q = "n mod 128"
  have "unat (push_bit 9 (of_nat c :: word16)) = 512 * c"
    unfolding push_bit_of_nat16 using c by (intro unat_of_nat16) simp
  moreover have "unat (l_bx s) = 512 * ?q" unfolding s(2) by (intro unat_of_nat16) simp
  ultimately have carry: "2 ^ 16 \<le> unat (l_bx s) + unat (push_bit 9 (of_nat c :: word16)) \<longleftrightarrow> ?q + c = 128"
    using c(1) by auto
  show ?thesis
  proof (cases "?q + c = 128")
    case True
    then have "advance_buffer (of_nat c) s = s\<lparr>l_es := l_es s + 0x1000, l_bx := 0\<rparr>"
      using carry by (simp add: advance_buffer_def Let_def)
    then show ?thesis
      unfolding next_offset [OF c(1,2)] using True s(1) by (intro loader.equality) simp_all
  next
    case False
    then have "advance_buffer (of_nat c) s = s\<lparr>l_bx := l_bx s + push_bit 9 (of_nat c)\<rparr>"
      using carry by (simp add: advance_buffer_def Let_def)
    then show ?thesis
      unfolding next_offset [OF c(1,2)] using False s
      by (intro loader.equality) (simp_all add: push_bit_of_nat16 distrib_left)
  qed
qed

lemma read_run_next:
  assumes disk: "reads_disk d int13" and s: "loaded d m n s" and n: "n < 1024"
  shows "\<exists>s'. read_run int13 s = Some s' \<and> loaded d m (n + next_run n) s'"
proof -
  let ?c = "next_run n" and ?h = "(n + 1) div 18 mod 2" and ?r = "(n + 1) mod 18" and ?q = "n mod 128"
  note c = next_run_bounds [of n] and f = s [unfolded loaded_def]
  have run: "run_length s = of_nat ?c" by (rule run_length_next) (use f in simp_all)
  have uc: "unat (of_nat ?c :: word16) = ?c" "unat (l_bx s) = 512 * ?q"
    using c f unat_of_nat16 [of ?c] unat_of_nat16 [of "512 * ?q"] by simp_all
  have bd: "n + ?c \<le> 1024"
  proof -
    have "n div 128 < 8" using n by (simp add: less_mult_imp_div_less)
    then have "128 * (n div 128) + 128 \<le> 1024" by simp
    moreover have "n = 128 * (n div 128) + ?q" by simp
    ultimately show ?thesis using c(4) by linarith
  qed
  have lin: "linear (l_es s) (l_bx s) = of_nat (0x10000 + 512 * n)" using linear_loaded [OF n] f by simp
  have ulin: "unat (linear (l_es s) (l_bx s)) = 0x10000 + 512 * n" unfolding lin using n by (subst unat_of_nat) simp
  have ok: "\<not> 0x90000 < unat (linear (l_es s) (l_bx s)) + 512 * unat (of_nat ?c :: word16)"
    unfolding ulin uc using bd by linarith
  have es: "l_es s AND 0x0fff = 0" using f segment_aligned [of "n div 128 + 1"] by metis
  let ?s1 = "read_track int13 (of_nat ?c) s"
  have mem: "l_mem ?s1 b = write_bytes m 0x10000 (sector_bytes d 1 (n + ?c)) b"
    if b: "0x500 \<le> unat b" "unat b < 0x92000" for b
  proof -
    have lba: "((n + 1) div 36 * 2 + ?h) * 18 + ?r = n + 1"
    proof -
      have "(n + 1) div 36 = (n + 1) div 18 div 2" by (simp add: div_mult2_eq [symmetric])
      then have "(n + 1) div 36 * 2 + ?h = (n + 1) div 18" by simp
      then show ?thesis by simp
    qed
    have "l_mem ?s1 b = write_bytes (l_mem s) (linear (l_es s) (l_bx s)) (sector_bytes d (n + 1) ?c) b"
      using read_track_reads [OF disk, of s ?r ?h "(n + 1) div 36" ?c b] f c uc es b n lba by simp
    also have "\<dots> = write_bytes (write_bytes m 0x10000 (sector_bytes d 1 n)) (linear (l_es s) (l_bx s)) (sector_bytes d (n + 1) ?c) b"
      using f b by (intro write_bytes_cong) blast
    also have "\<dots> = write_bytes m 0x10000 (sector_bytes d 1 (n + ?c)) b"
      unfolding sector_bytes_append lin write_bytes_append by (simp add: add.commute)
    finally show ?thesis .
  qed
  let ?s2 = "advance_track (of_nat ?c) ?s1"
  let ?s3 = "advance_buffer (of_nat ?c) ?s2"
  have keep: "l_es ?s1 = l_es s" "l_bx ?s1 = l_bx s" "sread ?s1 = sread s" "head ?s1 = head s" "track ?s1 = track s"
    by (simp_all add: read_track_def Let_def)
  have trk: "l_es ?s2 = l_es s" "l_bx ?s2 = l_bx s" "l_mem ?s2 = l_mem ?s1"
    "sread ?s2 = of_nat ((n + ?c + 1) mod 18)" "head ?s2 = of_nat ((n + ?c + 1) div 18 mod 2)"
    "track ?s2 = of_nat ((n + ?c + 1) div 36)"
    using advance_track_next [of ?s1 n ?c] f c(1,3) keep by simp_all
  have buf: "l_es ?s3 = of_nat (0x1000 * ((n + ?c) div 128 + 1))" "l_bx ?s3 = of_nat (512 * ((n + ?c) mod 128))"
    "l_mem ?s3 = l_mem ?s2" "sread ?s3 = sread ?s2" "head ?s3 = head ?s2" "track ?s3 = track ?s2"
    using advance_buffer_next [of ?s2 n ?c] f c(1,2,4) trk(1,2) by simp_all
  have "loaded d m (n + ?c) ?s3" unfolding loaded_def using mem by (simp add: trk buf)
  moreover have "read_run int13 s = Some ?s3" unfolding read_run_def run Let_def using ok by simp
  ultimately show ?thesis by blast
qed

lemma segments: "n div 128 \<le> k \<longleftrightarrow> n < 128 * (k + 1)" for n k :: nat
  using div_less_iff_less_mult [of 128 n "k + 1"] by (simp add: mult.commute less_Suc_eq_le)

lemma run_in_segment:
  assumes "n < 128 * (k + 1)"
  shows "n + next_run n \<le> 128 * (k + 1)"
proof -
  have "n + next_run n = 128 * (n div 128) + (n mod 128 + next_run n)"
    unfolding add.assoc [symmetric] mult_div_mod_eq ..
  also have "\<dots> \<le> 128 * k + 128"
    using assms segments [of n k] next_run_bounds(4) [of n] by (intro add_mono) simp_all
  finally show ?thesis by simp
qed

text \<open>The loop goes on while the segment to load is at most the last one of the image.\<close>

lemma loop_test:
  assumes "loaded d m n s" "n \<le> 1024"
  shows "l_es s - SYSSEG \<le> syssize \<longleftrightarrow> n div 128 \<le> unat syssize div 0x1000"
proof -
  have "n div 128 \<le> 8" using div_le_mono [OF assms(2), of 128] by simp
  then have u: "unat (l_es s - SYSSEG) = 0x1000 * (n div 128)"
    using assms(1) unat_of_nat16 [of "0x1000 * (n div 128)"] by (simp add: loaded_def)
  show ?thesis unfolding word_le_nat_alt u
    using less_eq_div_iff_mult_less_eq [of "0x1000" "n div 128" "unat syssize"] by (simp add: mult.commute)
qed

lemma rp_read_loads:
  assumes "reads_disk d int13" "syssize < 0x8000" "loaded d m n s" "n \<le> 128 * (unat syssize div 0x1000 + 1)"
  shows "\<exists>s'. rp_read int13 syssize s = Some s' \<and> loaded d m (128 * (unat syssize div 0x1000 + 1)) s'"
  using assms(3,4)
proof (induction "128 * (unat syssize div 0x1000 + 1) - n" arbitrary: n s rule: less_induct)
  case less
  let ?k = "unat syssize div 0x1000" and ?c = "next_run n"
  have k: "unat syssize < 0x8000" "?k < 8" using assms(2) by (simp_all add: word_less_nat_alt less_mult_imp_div_less)
  have go: "l_es s - SYSSEG \<le> syssize \<longleftrightarrow> n div 128 \<le> ?k"
    using less.prems k(2) by (intro loop_test) simp_all
  show ?case
  proof (cases "n div 128 \<le> ?k")
    case True
    then have n: "n < 128 * (?k + 1)" by (simp only: segments)
    also have "\<dots> \<le> 1024" using k(2) by simp
    finally have "n < 1024" .
    from read_run_next [OF assms(1) less.prems(1) this]
    obtain s1 where s1: "read_run int13 s = Some s1" "loaded d m (n + ?c) s1" by blast
    have "128 * (?k + 1) - (n + ?c) < 128 * (?k + 1) - n" using next_run_bounds(1) [of n] n by simp
    from less.hyps [OF this s1(2) run_in_segment [OF n]]
    obtain s' where "rp_read int13 syssize s1 = Some s'" "loaded d m (128 * (?k + 1)) s'" by blast
    then show ?thesis using True s1(1) go by (subst rp_read.simps) auto
  next
    case False
    then have "n = 128 * (?k + 1)" using less.prems(2) by (simp only: segments)
    then show ?thesis using False go less.prems(1) by (subst rp_read.simps) auto
  qed
qed

text \<open>An image of 0x8000 clicks or more runs into the boot sector.\<close>

lemma read_run_overrun:
  assumes "loaded d m 1024 s"
  shows "read_run int13 s = None"
proof -
  have f: "l_es s = 0x9000" "l_bx s = 0" "sread s = 17" using assms by (simp_all add: loaded_def)
  then have "run_length s = 1" by (simp add: run_length_def)
  then show ?thesis using f by (simp add: read_run_def linear_def)
qed

lemma rp_read_overruns:
  assumes "reads_disk d int13" "0x8000 \<le> syssize" "loaded d m n s" "n \<le> 1024"
  shows "rp_read int13 syssize s = None"
  using assms(3,4)
proof (induction "1024 - n" arbitrary: n s rule: less_induct)
  case less
  have "8 \<le> unat syssize div 0x1000"
    using assms(2) div_le_mono [of "0x8000" "unat syssize" "0x1000"] by (simp add: word_le_nat_alt)
  moreover have "n div 128 \<le> 8" using div_le_mono [OF less.prems(2), of 128] by simp
  ultimately have go: "l_es s - SYSSEG \<le> syssize" using loop_test [OF less.prems] by simp
  show ?case
  proof (cases "n < 1024")
    case True
    from read_run_next [OF assms(1) less.prems(1) this]
    obtain s1 where s1: "read_run int13 s = Some s1" "loaded d m (n + next_run n) s1" by blast
    have "n + next_run n \<le> 1024" "1024 - (n + next_run n) < 1024 - n"
      using True run_in_segment [of n 7] next_run_bounds(1) [of n] by simp_all
    with less.hyps [OF _ s1(2)] have "rp_read int13 syssize s1 = None" by simp
    then show ?thesis using go s1(1) by (subst rp_read.simps) simp
  next
    case False
    then have "loaded d m 1024 s" using less.prems by simp
    then show ?thesis using go read_run_overrun by (subst rp_read.simps) simp
  qed
qed

text \<open>\<open>read_it\<close> starts with the sector after the boot sector.\<close>

lemma read_it_starts:
  assumes "l_es s = SYSSEG" "sread s = 0" "head s = 0" "track s = 0"
  shows "read_it int13 0 syssize s = rp_read int13 syssize (s\<lparr>sread := 1, l_bx := 0\<rparr>)"
    and "loaded d (l_mem s) 0 (s\<lparr>sread := 1, l_bx := 0\<rparr>)"
  using assms by (simp_all add: read_it_def loaded_def sector_bytes_def)

lemma nth_sector_bytes: "i < 512 * n \<Longrightarrow> sector_bytes d lba n ! i = d (512 * lba + i)"
  by (simp add: sector_bytes_def)

lemma read_it_result:
  assumes d: "reads_disk d int13" and s: "l_es s = SYSSEG" "sread s = 0" "head s = 0" "track s = 0"
    and z: "syssize < 0x8000"
  obtains s' where "read_it int13 0 syssize s = Some s'"
    "\<And>i. i < 0x10000 * (unat syssize div 0x1000 + 1) \<Longrightarrow> l_mem s' (0x10000 + of_nat i) = d (512 + i)"
    "\<And>b. 0x500 \<le> unat b \<Longrightarrow> unat b < 0x92000 \<Longrightarrow> unat b < 0x10000 \<or> 0x10000 * (unat syssize div 0x1000 + 2) \<le> unat b \<Longrightarrow>
       l_mem s' b = l_mem s b"
proof -
  let ?n = "128 * (unat syssize div 0x1000 + 1)"
  have n: "512 * ?n \<le> 0x80000" using z by (simp add: word_less_nat_alt less_mult_imp_div_less Suc_le_eq)
  obtain s' where s': "read_it int13 0 syssize s = Some s'" "loaded d (l_mem s) ?n s'"
    using rp_read_loads [OF d z read_it_starts(2) [OF s]] read_it_starts(1) [OF s] by auto
  have mem: "l_mem s' b = write_bytes (l_mem s) 0x10000 (sector_bytes d 1 ?n) b" if "0x500 \<le> unat b" "unat b < 0x92000" for b
    using s'(2) that unfolding loaded_def by blast
  have a: "unat (0x10000 + of_nat i :: dword) = 0x10000 + i" if "i < 512 * ?n" for i
    using unat_add_small [of "0x10000" i] that n by simp
  show thesis
  proof (rule that [OF s'(1)])
    fix i assume "i < 0x10000 * (unat syssize div 0x1000 + 1)"
    then have i: "i < 512 * ?n" by simp
    have "l_mem s' (0x10000 + of_nat i) = sector_bytes d 1 ?n ! i"
      using a [OF i] i n by (subst mem) (simp_all add: write_bytes_at)
    then show "l_mem s' (0x10000 + of_nat i) = d (512 + i)" using nth_sector_bytes [OF i] by simp
  next
    fix b :: dword
    assume b: "0x500 \<le> unat b" "unat b < 0x92000" "unat b < 0x10000 \<or> 0x10000 * (unat syssize div 0x1000 + 2) \<le> unat b"
    have "b \<noteq> 0x10000 + of_nat i" if "i < 512 * ?n" for i
      using a [OF that] b(3) that by auto
    then show "l_mem s' b = l_mem s b" unfolding mem [OF b(1,2)] by (intro write_bytes_other) simp
  qed
qed

text \<open>A disk service that does what \<open>reads_disk\<close> asks for.\<close>

definition example_int13 :: "disk \<Rightarrow> bios" where
  "example_int13 d ax bx cx dx es m =
     write_bytes m (linear es bx)
       (sector_bytes d ((unat (drop_bit 8 cx) * 2 + unat (drop_bit 8 dx)) * 18 + (unat (low8 cx) - 1)) (unat (low8 ax)))"

lemma register_halves:
  assumes "x < 256" "y < 256"
  shows "low8 (of_nat x OR push_bit 8 w) = of_nat x" "drop_bit 8 (of_nat x OR push_bit 8 (of_nat y :: word16)) = of_nat y"
proof -
  have ff: "(0xFF :: word16) = mask 8" by (simp add: mask_eq_exp_minus_1)
  have hi: "\<not> bit (of_nat z :: word16) i" if "z < 256" "8 \<le> i" for z i
    using low8_of_nat [OF that(1)] that(2) unfolding low8_def ff
    by (metis bit_and_iff bit_mask_iff not_less)
  show "low8 (of_nat x OR push_bit 8 w) = of_nat x"
    unfolding low8_def ff using hi [OF assms(1)] by (intro bit_word_eqI) (auto simp: bit_simps not_le [symmetric])
  show "drop_bit 8 (of_nat x OR push_bit 8 (of_nat y :: word16)) = of_nat y"
    using hi [OF assms(1)] hi [OF assms(2)] by (intro bit_word_eqI) (auto simp: bit_simps)
qed

lemma example_reads_disk: "reads_disk d (example_int13 d)"
  unfolding reads_disk_def
proof (intro allI impI)
  fix n cyl h sec :: nat and bx es :: word16 and m b
  assume a: "1 \<le> n \<and> cyl < 80 \<and> h < 2 \<and> sec + n \<le> 18
        \<and> unat bx + 512 * n \<le> 2 ^ 16 \<and> 0x500 \<le> unat (b :: dword) \<and> unat b < 0x92000 \<and> es AND 0x0fff = (0 :: word16)"
  have "low8 (of_nat n OR 0x0200) = of_nat n"
    using register_halves(1) [of n 0 2] a by (simp add: push_bit_eq_mult)
  moreover have "low8 (of_nat (sec + 1) OR push_bit 8 (of_nat cyl)) = of_nat (sec + 1)"
    "drop_bit 8 (of_nat (sec + 1) OR push_bit 8 (of_nat cyl :: word16)) = of_nat cyl"
    "drop_bit 8 (push_bit 8 (of_nat h :: word16)) = of_nat h"
    using register_halves [of "sec + 1" cyl] register_halves(2) [of 0 h] a by simp_all
  moreover have "unat (of_nat n :: word16) = n" "unat (of_nat (sec + 1) :: word16) = sec + 1"
    "unat (of_nat cyl :: word16) = cyl" "unat (of_nat h :: word16) = h"
    using a by (intro unat_of_nat16; simp)+
  ultimately show "example_int13 d (of_nat n OR 0x0200) bx (of_nat (sec + 1) OR push_bit 8 (of_nat cyl)) (push_bit 8 (of_nat h)) es m b
      = write_bytes m (linear es bx) (sector_bytes d ((cyl * 2 + h) * 18 + sec) n) b"
    unfolding example_int13_def by (simp only: add_diff_cancel_right')
qed

section \<open>Properties\<close>

text \<open>
  C14. The loader: with a disk service that reads sectors, \<open>read_it\<close> ends for every image size
  below 0x8000 clicks of 16 bytes, and memory from 0x10000 on then holds the disk from its
  second sector on, for all the 64 KB segments the image touches; other memory between 0x500
  and 0x92000 is left alone, the boot sector at 0x90000 included. For larger sizes the loop
  reaches the boot sector itself.
\<close>

theorem read_it_loads:
  assumes "reads_disk d int13" "l_es s = SYSSEG" "sread s = 0" "head s = 0" "track s = 0"
  shows "(syssize < 0x8000 \<longrightarrow> (\<exists>s'. read_it int13 0 syssize s = Some s'
      \<and> (\<forall>i<0x10000 * (unat syssize div 0x1000 + 1). l_mem s' (0x10000 + of_nat i) = d (512 + i))
      \<and> (\<forall>b. 0x500 \<le> unat b \<and> unat b < 0x92000
           \<and> (unat b < 0x10000 \<or> 0x10000 * (unat syssize div 0x1000 + 2) \<le> unat b) \<longrightarrow> l_mem s' b = l_mem s b)))
    \<and> (0x8000 \<le> syssize \<longrightarrow> read_it int13 0 syssize s = None)"
proof (intro conjI impI)
  assume "syssize < 0x8000"
  then obtain s' where "read_it int13 0 syssize s = Some s'"
    "\<And>i. i < 0x10000 * (unat syssize div 0x1000 + 1) \<Longrightarrow> l_mem s' (0x10000 + of_nat i) = d (512 + i)"
    "\<And>b. 0x500 \<le> unat b \<Longrightarrow> unat b < 0x92000 \<Longrightarrow> unat b < 0x10000 \<or> 0x10000 * (unat syssize div 0x1000 + 2) \<le> unat b \<Longrightarrow>
       l_mem s' b = l_mem s b"
    by (rule read_it_result [OF assms]) (rule that)
  then show "\<exists>s'. read_it int13 0 syssize s = Some s'
      \<and> (\<forall>i<0x10000 * (unat syssize div 0x1000 + 1). l_mem s' (0x10000 + of_nat i) = d (512 + i))
      \<and> (\<forall>b. 0x500 \<le> unat b \<and> unat b < 0x92000
           \<and> (unat b < 0x10000 \<or> 0x10000 * (unat syssize div 0x1000 + 2) \<le> unat b) \<longrightarrow> l_mem s' b = l_mem s b)"
    by blast
next
  assume "0x8000 \<le> syssize"
  then show "read_it int13 0 syssize s = None"
    using rp_read_overruns [OF assms(1) _ read_it_starts(2) [OF assms(2-5)]] read_it_starts(1) [OF assms(2-5)] by simp
qed

definition example_loader :: loader where
  "example_loader = \<lparr>l_es = 0x1000, l_bx = 5, sread = 0, head = 0, track = 0, l_mem = \<lambda>_. 0\<rparr>"

theorem read_it_loads_witness:
  "\<exists>s'. read_it (example_int13 (\<lambda>a. of_nat (a div 512))) 0 0x7F00 example_loader = Some s'
     \<and> l_mem s' (0x10000 + of_nat 0x12345) = of_nat (0x12545 div 512) \<and> l_mem s' 0x901F4 = 0"
proof -
  let ?d = "\<lambda>a. of_nat (a div 512) :: byte"
  obtain s' where s': "read_it (example_int13 ?d) 0 0x7F00 example_loader = Some s'"
    "\<forall>i<0x10000 * (unat (0x7F00 :: word16) div 0x1000 + 1). l_mem s' (0x10000 + of_nat i) = ?d (512 + i)"
    "\<forall>b. 0x500 \<le> unat b \<and> unat b < 0x92000
       \<and> (unat b < 0x10000 \<or> 0x10000 * (unat (0x7F00 :: word16) div 0x1000 + 2) \<le> unat b) \<longrightarrow> l_mem s' b = l_mem example_loader b"
    using read_it_loads [OF example_reads_disk [of ?d], of example_loader "0x7F00"] by (auto simp: example_loader_def)
  have "l_mem s' (0x10000 + of_nat 0x12345) = ?d (512 + 0x12345)" by (rule s'(2) [rule_format]) simp
  moreover have "l_mem s' 0x901F4 = l_mem example_loader 0x901F4" by (rule s'(3) [rule_format]) simp
  ultimately show ?thesis using s'(1) by (simp add: example_loader_def)
qed

end
