(* ===== verification/Zeos_A20.thy ===== *)
theory Zeos_A20
  imports Zeos_Loader
begin

text \<open>
  How the boot sector \<^verbatim>\<open>bootsect.S\<close> opens the address line A20: two bytes for the
  keyboard controller, each after \<open>empty_8042\<close> has waited for room, and then \<open>a20_wait\<close>, which
  compares a word of the first megabyte with its alias above until the two are different.

  The devices behind the ports are not part of the repository. Each is a function of what the
  boot sector has done at the ports so far, the history (oldest event first), so that any
  deterministic device is covered: \<open>b_in\<close> is the byte that a read of a port gives, \<open>b_gate\<close>
  says whether A20 is open at the n-th comparison after a history.
\<close>

section \<open>The devices\<close>

datatype port_event = In word16 byte | Out word16 byte

record board =
  b_int13 :: bios
  b_in :: "port_event list \<Rightarrow> word16 \<Rightarrow> byte"
  b_gate :: "port_event list \<Rightarrow> nat \<Rightarrow> bool"

fun outs :: "port_event list \<Rightarrow> (word16 \<times> byte) list" where
  "outs [] = []"
| "outs (Out p v # h) = (p, v) # outs h"
| "outs (In p v # h) = outs h"

definition load16 :: "mem \<Rightarrow> dword \<Rightarrow> word16" where
  "load16 m a = ucast (m a) OR push_bit 8 (ucast (m (a + 1)))"

definition store16 :: "mem \<Rightarrow> dword \<Rightarrow> word16 \<Rightarrow> mem" where
  "store16 m a v = m(a := ucast v, a + 1 := ucast (drop_bit 8 v))"

section \<open>The code\<close>

lemma dec_less: "ecx - 1 \<noteq> 0 \<Longrightarrow> unat (ecx - 1 - 1) < unat (ecx - 1 :: dword)"
  by (rule measure_unat)

text \<open>
  Bit 0 of the status says that the controller has a byte, which the code reads away; bit 1
  that it has not taken the last byte written. The loop gives up when ECX gets to 0.
\<close>

function empty_8042_loop :: "(port_event list \<Rightarrow> word16 \<Rightarrow> byte) \<Rightarrow> dword \<Rightarrow> port_event list \<Rightarrow> port_event list" where
  "empty_8042_loop inb ecx h =
     (let ecx = ecx - 1
      in if ecx = 0 then h
         else
           let al = inb h 0x64;
               h = h @ [In 0x64 al]
           in if al AND 1 \<noteq> 0 then empty_8042_loop inb ecx (h @ [In 0x60 (inb h 0x60)])
              else if al AND 2 \<noteq> 0 then empty_8042_loop inb ecx h
              else h)"
  by pat_completeness auto
termination
  by (relation "measure (\<lambda>(_, ecx, _). unat (ecx - 1))") (use dec_less in auto)

declare empty_8042_loop.simps [simp del]

definition empty_8042 :: "(port_event list \<Rightarrow> word16 \<Rightarrow> byte) \<Rightarrow> port_event list \<Rightarrow> port_event list" where
  "empty_8042 inb h = empty_8042_loop inb 0xFFFFFF h"

definition open_a20 :: "board \<Rightarrow> port_event list \<Rightarrow> port_event list" where
  "open_a20 B h =
     (let h = empty_8042 (b_in B) h;
          h = h @ [Out 0x64 0xD1];
          h = empty_8042 (b_in B) h;
          h = h @ [Out 0x60 0xDF]
      in empty_8042 (b_in B) h)"

definition TEST_ADDR :: word16 where "TEST_ADDR = 0x7C"

text \<open>While the line is closed, bit 20 of every address is 0.\<close>

definition a20_address :: "bool \<Rightarrow> dword \<Rightarrow> dword" where
  "a20_address open_line a = (if open_line then a else a AND NOT (push_bit 20 1))"

partial_function (option) a20_wait :: "(nat \<Rightarrow> bool) \<Rightarrow> nat \<Rightarrow> word16 \<Rightarrow> mem \<Rightarrow> mem option" where
  "a20_wait gate n ax m =
     (let ax = ax + 1;
          m = store16 m (linear 0 TEST_ADDR) ax
      in if ax = load16 m (a20_address (gate n) (linear 0xFFFF (TEST_ADDR + 0x10)))
         then a20_wait gate (Suc n) ax m
         else Some m)"

definition wait_a20 :: "(nat \<Rightarrow> bool) \<Rightarrow> mem \<Rightarrow> mem option" where
  "wait_a20 gate m = do {
     let bx = load16 m (linear 0 TEST_ADDR);
     m \<leftarrow> a20_wait gate 0 0xFFFF m;
     Some (store16 m (linear 0 TEST_ADDR) bx) }"

section \<open>Specification\<close>

text \<open>A status in which the controller has no byte for the code and room for one.\<close>

definition free :: "byte \<Rightarrow> bool" where
  "free s \<longleftrightarrow> s AND 1 = 0 \<and> s AND 2 = 0"

text \<open>A poll that finds the controller not free.\<close>

definition poll :: "(port_event list \<Rightarrow> word16 \<Rightarrow> byte) \<Rightarrow> port_event list \<Rightarrow> port_event list" where
  "poll inb h =
     (let s = inb h 0x64;
          h = h @ [In 0x64 s]
      in if s AND 1 \<noteq> 0 then h @ [In 0x60 (inb h 0x60)] else h)"

text \<open>
  The history shows the command to write the output port of the controller and the value with
  bit 1, the gate, each put into a free controller.
\<close>

definition commanded :: "port_event list \<Rightarrow> bool" where
  "commanded h \<longleftrightarrow> (\<exists>h1 s1 h2 s2 h3. h = h1 @ [In 0x64 s1, Out 0x64 0xD1] @ h2 @ [In 0x64 s2, Out 0x60 0xDF] @ h3
     \<and> free s1 \<and> free s2 \<and> outs h2 = [] \<and> outs h3 = [])"

text \<open>
  The documented behaviour of the devices: the controller is free after fewer than 0xFFFFFE
  polls, and opens A20, some time after it has been told to.
\<close>

definition responsive :: "(port_event list \<Rightarrow> word16 \<Rightarrow> byte) \<Rightarrow> bool" where
  "responsive inb \<longleftrightarrow> (\<forall>h. \<exists>k<0xFFFFFE. free (inb ((poll inb ^^ k) h) 0x64))"

definition opens_a20 :: "board \<Rightarrow> bool" where
  "opens_a20 B \<longleftrightarrow> responsive (b_in B) \<and> (\<forall>h. commanded h \<longrightarrow> (\<exists>n. \<forall>k\<ge>n. b_gate B h k))"

section \<open>Lemmas\<close>

lemma outs_append [simp]: "outs (h @ h') = outs h @ outs h'"
  by (induction h rule: outs.induct) simp_all

lemma outs_poll [simp]: "outs (poll inb h) = outs h"
  by (simp add: poll_def Let_def)

lemma outs_polls [simp]: "outs ((poll inb ^^ k) h) = outs h"
  by (induction k) simp_all

text \<open>The loop, with \<open>n\<close> polls left.\<close>

lemma empty_8042_loop_step:
  assumes "Suc n < 2 ^ 32"
  shows "empty_8042_loop inb (of_nat (Suc n)) h =
     (if n = 0 then h
      else if free (inb h 0x64) then h @ [In 0x64 (inb h 0x64)]
      else empty_8042_loop inb (of_nat n) (poll inb h))"
proof -
  have "of_nat (Suc n) - 1 = (of_nat n :: dword)" by simp
  moreover have "(of_nat n :: dword) = 0 \<longleftrightarrow> n = 0" using assms of_nat_inj32 [of n 0] by simp
  ultimately show ?thesis
    by (simp add: empty_8042_loop.simps [of _ "of_nat (Suc n)"] Let_def poll_def free_def del: of_nat_Suc)
qed

lemma empty_8042_loop_frees:
  assumes "\<And>j. j < k \<Longrightarrow> \<not> free (inb ((poll inb ^^ j) h) 0x64)" "free (inb ((poll inb ^^ k) h) 0x64)"
    and "k < n" "Suc n < 2 ^ 32"
  shows "empty_8042_loop inb (of_nat (Suc n)) h = (poll inb ^^ k) h @ [In 0x64 (inb ((poll inb ^^ k) h) 0x64)]"
  using assms
proof (induction k arbitrary: h n)
  case 0
  then show ?case by (simp add: empty_8042_loop_step del: of_nat_Suc)
next
  case (Suc k)
  then obtain n' where n: "n = Suc n'" by (cases n) simp_all
  have "\<not> free (inb ((poll inb ^^ j) (poll inb h)) 0x64)" if "j < k" for j
    using Suc.prems(1) [of "Suc j"] that by (simp add: funpow_swap1)
  moreover have "free (inb ((poll inb ^^ k) (poll inb h)) 0x64)"
    using Suc.prems(2) by (simp add: funpow_swap1)
  ultimately have "empty_8042_loop inb (of_nat (Suc n')) (poll inb h)
      = (poll inb ^^ Suc k) h @ [In 0x64 (inb ((poll inb ^^ Suc k) h) 0x64)]"
    using Suc.IH [of "poll inb h" n'] Suc.prems(3,4) n by (simp add: funpow_swap1 del: of_nat_Suc)
  moreover have "\<not> free (inb h 0x64)" using Suc.prems(1) [of 0] by simp
  ultimately show ?case using Suc.prems(4) unfolding n by (simp only: empty_8042_loop_step) simp
qed

lemma empty_8042_loop_gives_up:
  assumes "\<And>j. j < n \<Longrightarrow> \<not> free (inb ((poll inb ^^ j) h) 0x64)" "Suc n < 2 ^ 32"
  shows "empty_8042_loop inb (of_nat (Suc n)) h = (poll inb ^^ n) h"
  using assms
proof (induction n arbitrary: h)
  case 0
  then show ?case by (simp only: empty_8042_loop_step) simp
next
  case (Suc n)
  have "\<not> free (inb ((poll inb ^^ j) (poll inb h)) 0x64)" if "j < n" for j
    using Suc.prems(1) [of "Suc j"] that by (simp add: funpow_swap1)
  then have "empty_8042_loop inb (of_nat (Suc n)) (poll inb h) = (poll inb ^^ Suc n) h"
    using Suc.IH [of "poll inb h"] Suc.prems(2) by (simp add: funpow_swap1 del: of_nat_Suc)
  moreover have "\<not> free (inb h 0x64)" using Suc.prems(1) [of 0] by simp
  ultimately show ?case using Suc.prems(2) by (simp only: empty_8042_loop_step) simp
qed

lemma poll_extends: "\<exists>e. poll inb h = h @ e \<and> outs e = []"
  by (cases "inb h 0x64 AND 1 = 0") (simp_all add: poll_def Let_def)

lemma polls_extend: "\<exists>e. (poll inb ^^ k) h = h @ e \<and> outs e = []"
proof (induction k)
  case (Suc k)
  then obtain e where e: "(poll inb ^^ k) h = h @ e" "outs e = []" by blast
  obtain d where "poll inb (h @ e) = (h @ e) @ d" "outs d = []" using poll_extends by blast
  then show ?case using e by (intro exI [of _ "e @ d"]) simp
qed (rule exI [of _ "[]"], simp)

text \<open>The two ways out of \<open>empty_8042\<close>: the controller is free, or all polls are used up.\<close>

lemma empty_8042_cases:
  obtains (freed) k where "k < 0xFFFFFE" "free (inb ((poll inb ^^ k) h) 0x64)"
      "empty_8042 inb h = (poll inb ^^ k) h @ [In 0x64 (inb ((poll inb ^^ k) h) 0x64)]"
  | (given_up) "\<And>j. j < 0xFFFFFE \<Longrightarrow> \<not> free (inb ((poll inb ^^ j) h) 0x64)"
      "empty_8042 inb h = (poll inb ^^ 0xFFFFFE) h"
proof -
  let ?free = "\<lambda>j. free (inb ((poll inb ^^ j) h) 0x64)"
  have start: "empty_8042 inb h = empty_8042_loop inb (of_nat (Suc 0xFFFFFE)) h" by (simp add: empty_8042_def)
  show thesis
  proof (cases "\<exists>j<0xFFFFFE. ?free j")
    case True
    then obtain k0 where k0: "k0 < 0xFFFFFE" "?free k0" by blast
    define k where "k = (LEAST j. ?free j)"
    have k: "?free k" "\<And>j. j < k \<Longrightarrow> \<not> ?free j" "k < 0xFFFFFE"
      using LeastI [of ?free, OF k0(2)] not_less_Least [of _ ?free] Least_le [of ?free, OF k0(2)] k0(1)
      unfolding k_def by auto
    show thesis
      by (rule freed [OF k(3,1)], unfold start, rule empty_8042_loop_frees) (use k in simp_all)
  next
    case False
    then have none: "\<not> ?free j" if "j < 0xFFFFFE" for j using that by blast
    show thesis
      by (rule given_up [OF none], assumption, unfold start, rule empty_8042_loop_gives_up) (use none in simp_all)
  qed
qed

lemma empty_8042_extends: "\<exists>e. empty_8042 inb h = h @ e \<and> outs e = []"
proof (cases rule: empty_8042_cases [of inb h])
  case (freed k)
  then show ?thesis using polls_extend [of k inb h] by (elim exE conjE) simp
next
  case given_up
  then show ?thesis using polls_extend [of _ inb h] by simp
qed

lemma empty_8042_frees:
  assumes "responsive inb"
  obtains e s where "empty_8042 inb h = h @ e @ [In 0x64 s]" "free s" "outs e = []"
proof (cases rule: empty_8042_cases [of inb h])
  case (freed k)
  obtain e where "(poll inb ^^ k) h = h @ e" "outs e = []" using polls_extend by blast
  with freed show thesis using that by simp
next
  case given_up
  then show thesis using assms unfolding responsive_def by blast
qed

lemma open_a20_outs: "outs (open_a20 B h) = outs h @ [(0x64, 0xD1), (0x60, 0xDF)]"
proof -
  have "outs (empty_8042 inb h) = outs h" for inb h using empty_8042_extends [of inb h] by auto
  then show ?thesis by (simp add: open_a20_def Let_def)
qed

lemma open_a20_commands:
  assumes "responsive (b_in B)"
  shows "commanded (open_a20 B h)"
proof -
  obtain e1 s1 where e1: "empty_8042 (b_in B) h = h @ e1 @ [In 0x64 s1]" "free s1"
    using empty_8042_frees [OF assms] .
  obtain e2 s2 where e2: "empty_8042 (b_in B) (empty_8042 (b_in B) h @ [Out 0x64 0xD1])
      = (empty_8042 (b_in B) h @ [Out 0x64 0xD1]) @ e2 @ [In 0x64 s2]" "free s2" "outs e2 = []"
    using empty_8042_frees [OF assms] .
  obtain e3 where e3: "empty_8042 (b_in B) ((empty_8042 (b_in B) h @ [Out 0x64 0xD1]) @ e2 @ [In 0x64 s2] @ [Out 0x60 0xDF])
      = ((empty_8042 (b_in B) h @ [Out 0x64 0xD1]) @ e2 @ [In 0x64 s2] @ [Out 0x60 0xDF]) @ e3" "outs e3 = []"
    using empty_8042_extends by blast
  show ?thesis unfolding commanded_def
    by (rule exI [of _ "h @ e1"], rule exI [of _ s1], rule exI [of _ e2], rule exI [of _ s2], rule exI [of _ e3])
      (use e1 e2 e3 in \<open>simp add: open_a20_def Let_def\<close>)
qed

subsection \<open>Waiting for the line\<close>

lemma load16_cong: "m' a = m a \<Longrightarrow> m' (a + 1) = m (a + 1) \<Longrightarrow> load16 m' a = load16 m a"
  by (simp add: load16_def)

lemma split16: "ucast (ucast v :: byte) OR push_bit 8 (ucast (ucast (drop_bit 8 v) :: byte)) = (v :: word16)" (is "?l = v")
proof (rule bit_word_eqI)
  fix n assume "n < LENGTH(16)"
  then consider "n < 8" | "8 \<le> n" "n < 16" by fastforce
  then show "bit ?l n = bit v n" by cases (auto simp: bit_simps)
qed

lemma split16_bytes: "ucast (ucast a OR push_bit 8 (ucast b) :: word16) = (a :: byte)"
  "ucast (drop_bit 8 (ucast a OR push_bit 8 (ucast b) :: word16)) = (b :: byte)"
  by (rule bit_word_eqI; auto simp: bit_simps dest: bit_imp_le_length)+

lemma load16_store16 [simp]: "load16 (store16 m a v) a = v"
  using split16 [of v] by (simp add: load16_def store16_def)

lemma store16_load16: "\<forall>x. x \<noteq> a \<and> x \<noteq> a + 1 \<longrightarrow> m' x = m x \<Longrightarrow> store16 m' a (load16 m a) = m"
  unfolding store16_def load16_def split16_bytes by (auto simp: fun_eq_iff)

lemma a20_addresses:
  "linear 0 TEST_ADDR = 0x7C" "a20_address True (linear 0xFFFF (TEST_ADDR + 0x10)) = 0x10007C"
  "a20_address False (linear 0xFFFF (TEST_ADDR + 0x10)) = 0x7C"
  by (simp_all add: linear_def TEST_ADDR_def a20_address_def push_bit_eq_mult)

lemma a20_wait_step:
  "a20_wait gate n ax m =
     (let m' = store16 m 0x7C (ax + 1)
      in if gate n \<longrightarrow> ax + 1 = load16 m 0x10007C then a20_wait gate (Suc n) (ax + 1) m' else Some m')"
proof -
  have "load16 (store16 m 0x7C v) 0x10007C = load16 m 0x10007C" for v
    by (rule load16_cong) (simp_all add: store16_def)
  then show ?thesis
    by (cases "gate n") (simp_all add: a20_wait.simps [of gate n] Let_def a20_addresses)
qed

lemma a20_wait_exits:
  assumes "a20_wait gate n ax m = Some m'"
  shows "(\<exists>k. gate k) \<and> (\<forall>x. x \<noteq> 0x7C \<and> x \<noteq> 0x7D \<longrightarrow> m' x = m x)"
  using _ assms
proof (rule a20_wait.raw_induct)
  fix f gate n ax m m'
  assume IH: "\<And>gate n ax m m'. f gate n ax m = Some m'
      \<Longrightarrow> (\<exists>k. gate k) \<and> (\<forall>x. x \<noteq> 0x7C \<and> x \<noteq> 0x7D \<longrightarrow> m' x = m x)"
    and res: "(let ax = ax + 1; m = store16 m (linear 0 TEST_ADDR) ax
        in if ax = load16 m (a20_address (gate n) (linear 0xFFFF (TEST_ADDR + 0x10))) then f gate (Suc n) ax m else Some m) = Some m'"
  let ?m = "store16 m 0x7C (ax + 1)"
  have frame: "\<forall>x. x \<noteq> 0x7C \<and> x \<noteq> 0x7D \<longrightarrow> ?m x = m x" by (simp add: store16_def)
  show "(\<exists>k. gate k) \<and> (\<forall>x. x \<noteq> 0x7C \<and> x \<noteq> 0x7D \<longrightarrow> m' x = m x)"
  proof (cases "ax + 1 = load16 ?m (a20_address (gate n) (linear 0xFFFF (TEST_ADDR + 0x10)))")
    case True
    then have "f gate (Suc n) (ax + 1) ?m = Some m'" using res by (simp add: Let_def a20_addresses)
    then show ?thesis using IH [of gate "Suc n" "ax + 1" ?m m'] frame by simp
  next
    case False
    then have "gate n" "m' = ?m" using res by (cases "gate n"; simp add: Let_def a20_addresses)+
    then show ?thesis using frame by blast
  qed
qed

text \<open>Once the line is open, at most one of two successive values can be equal by chance.\<close>

lemma a20_wait_ends:
  assumes "\<forall>k\<ge>N. gate k"
  shows "\<exists>m'. a20_wait gate n ax m = Some m'"
proof (induction "N - n" arbitrary: n ax m)
  case 0
  then have g: "gate n" "gate (Suc n)" using assms by simp_all
  have "load16 (store16 m 0x7C v) 0x10007C = load16 m 0x10007C" for m v
    by (rule load16_cong) (simp_all add: store16_def)
  then show ?case
    using g by (simp add: a20_wait_step [of gate n] a20_wait_step [of gate "Suc n"] Let_def)
next
  case (Suc d)
  then have "N - Suc n = d" by simp
  then show ?case using Suc.hyps(1) by (simp add: a20_wait_step [of gate n] Let_def)
qed

lemma wait_a20_restores:
  assumes "wait_a20 gate m = Some m'"
  shows "m' = m" "\<exists>k. gate k"
proof -
  obtain m1 where m1: "a20_wait gate 0 0xFFFF m = Some m1" "m' = store16 m1 0x7C (load16 m 0x7C)"
    using assms by (auto simp: wait_a20_def a20_addresses Let_def split: bind_splits)
  then show "m' = m" "\<exists>k. gate k"
    using a20_wait_exits [OF m1(1)] store16_load16 [of "0x7C" m1 m] by simp_all
qed

lemma wait_a20_ends: "\<forall>k\<ge>N. gate k \<Longrightarrow> wait_a20 gate m = Some m"
  using a20_wait_ends [of N gate 0 "0xFFFF" m] wait_a20_restores(1) [of gate m]
  by (auto simp: wait_a20_def Let_def)

lemma a20_opens:
  assumes "opens_a20 B"
  shows "wait_a20 (b_gate B (open_a20 B h)) m = Some m"
proof -
  obtain n where "\<forall>k\<ge>n. b_gate B (open_a20 B h) k"
    using assms open_a20_commands [of B h] unfolding opens_a20_def by blast
  then show ?thesis by (rule wait_a20_ends)
qed

section \<open>Properties\<close>

text \<open>
  C16. Opening A20: whatever the devices do, the two bytes for the keyboard controller are
  written, once and in this order, since \<open>empty_8042\<close> gives up after 0xFFFFFE polls; and if the
  wait ends, the line was found open and the memory is as it was, the interrupt vector that
  the test uses included, so that with a line that never opens it does not end. With a
  controller that gets free within the polls, each byte is written into a free controller; if
  the controller then opens the line, however late, the wait ends.
\<close>

theorem a20_opened:
  "outs (open_a20 B h) = outs h @ [(0x64, 0xD1), (0x60, 0xDF)]
   \<and> (\<forall>m'. wait_a20 (b_gate B (open_a20 B h)) m = Some m' \<longrightarrow> m' = m \<and> (\<exists>n. b_gate B (open_a20 B h) n))
   \<and> (responsive (b_in B) \<longrightarrow> commanded (open_a20 B h))
   \<and> (opens_a20 B \<longrightarrow> wait_a20 (b_gate B (open_a20 B h)) m = Some m)"
  using open_a20_outs open_a20_commands a20_opens wait_a20_restores by blast

text \<open>
  A board whose controller has a key code at first, is busy for one poll after every byte
  written, and opens the line at the fourth comparison.
\<close>

definition example_board :: "disk \<Rightarrow> board" where
  "example_board d = \<lparr>b_int13 = example_int13 d,
     b_in = (\<lambda>h port. if port = 0x64 then (if h = [] then 1 else case last h of Out _ _ \<Rightarrow> 2 | In _ _ \<Rightarrow> 0) else 0x1E),
     b_gate = (\<lambda>h n. 3 \<le> n)\<rparr>"

lemma example_responsive: "responsive (b_in (example_board d))"
proof -
  let ?inb = "b_in (example_board d)"
  have "free (?inb ((poll ?inb ^^ 1) h) 0x64)" for h
    by (simp add: poll_def Let_def example_board_def free_def)
  then show ?thesis unfolding responsive_def by (intro allI exI [of _ 1]) simp
qed

lemma example_opens: "opens_a20 (example_board d)"
  using example_responsive by (auto simp: opens_a20_def example_board_def)

lemma example_board_reads: "reads_disk d (b_int13 (example_board d))"
  using example_reads_disk by (simp add: example_board_def)

theorem a20_opened_witness:
  "let B = example_board (\<lambda>a. 0); h = open_a20 B [] in
     outs h = [(0x64, 0xD1), (0x60, 0xDF)] \<and> commanded h \<and> wait_a20 (b_gate B h) (\<lambda>a. 5) = Some (\<lambda>a. 5)"
  using a20_opened [of "example_board (\<lambda>a. 0)" "[]" "\<lambda>a. 5"] example_responsive example_opens
  by (simp add: Let_def)

end
