(* ===== verification/Zeos_Bootsect.thy ===== *)
theory Zeos_Bootsect
  imports Zeos_A20 Zeos_System
begin

text \<open>
  The boot sector \<^verbatim>\<open>bootsect.S\<close> as a whole: the BIOS has put it at 0x7C00; it moves itself
  to 0x90000, loads the kernel image with \<open>read_it\<close>, opens A20, programs the two interrupt
  controllers, loads the descriptor table that lies at its end and enters the kernel in
  protected mode.

  Left out are the console services of the BIOS, the stack, which stays above 0x92000, and the
  arithmetic flags. The variables
  \<open>sread\<close>, \<open>head\<close> and \<open>track\<close> start as the source initialises them; \<open>setup_sects\<close>,
  \<open>syssize\<close> and the tables are read from the sector in memory.
\<close>

section \<open>The interrupt controllers\<close>

text \<open>
  The 8259A: bit 4 of a command starts the initialisation (with a slave and a fourth word, as
  0x11 asks for); the data port then takes the vector base, the wiring and the mode, and after
  that the mask.
\<close>

datatype icw = Expect_base | Expect_wiring | Expect_mode | Running

record pic =
  p_expect :: icw
  p_base :: byte
  p_mask :: byte

definition pic_command :: "byte \<Rightarrow> pic \<Rightarrow> pic" where
  "pic_command v p = (if bit v 4 then p\<lparr>p_expect := Expect_base, p_mask := 0\<rparr> else p)"

definition pic_data :: "byte \<Rightarrow> pic \<Rightarrow> pic" where
  "pic_data v p = (case p_expect p of
     Expect_base \<Rightarrow> p\<lparr>p_base := v AND 0xF8, p_expect := Expect_wiring\<rparr>
   | Expect_wiring \<Rightarrow> p\<lparr>p_expect := Expect_mode\<rparr>
   | Expect_mode \<Rightarrow> p\<lparr>p_expect := Running\<rparr>
   | Running \<Rightarrow> p\<lparr>p_mask := v\<rparr>)"

definition pic_out :: "word16 \<times> byte \<Rightarrow> pic \<times> pic \<Rightarrow> pic \<times> pic" where
  "pic_out = (\<lambda>(port, v) (master, slave).
     if port = 0x20 then (pic_command v master, slave)
     else if port = 0x21 then (pic_data v master, slave)
     else if port = 0xA0 then (master, pic_command v slave)
     else if port = 0xA1 then (master, pic_data v slave)
     else (master, slave))"

definition pic_program :: "(word16 \<times> byte) list" where
  "pic_program =
     [(0x20, 0x11), (0xA0, 0x11),
      (0x21, 0x20), (0xA1, 0x28),
      (0x21, 0x04), (0xA1, 0x02),
      (0x21, 0x01), (0xA1, 0x01),
      (0xA1, 0xFF), (0x21, 0xFB)]"

text \<open>The vector of an interrupt line, if the line is open; line 2 is the slave.\<close>

definition irq_vector :: "pic \<times> pic \<Rightarrow> nat \<Rightarrow> nat option" where
  "irq_vector = (\<lambda>(master, slave) i.
     if i < 8 then
       if p_expect master = Running \<and> i \<noteq> 2 \<and> \<not> bit (p_mask master) i then Some (unat (p_base master) + i) else None
     else if i < 16 \<and> p_expect slave = Running \<and> \<not> bit (p_mask slave) (i - 8) \<and> \<not> bit (p_mask master) 2
     then Some (unat (p_base slave) + (i - 8)) else None)"

section \<open>The data of the sector\<close>

text \<open>From \<open>.org 435\<close> to the end of the sector.\<close>

definition gdt_data :: "byte list" where
  "gdt_data =
     [0, 0, 0, 0, 0, 0, 0, 0,
      0, 0, 0, 0, 0, 0, 0, 0,
      0xFF, 0xFF, 0, 0, 0, 0x9a, 0xcf, 0,
      0xFF, 0xFF, 0, 0, 0, 0x92, 0xcf, 0,
      0xFF, 0xFF, 0, 0, 0, 0xfa, 0xcf, 0,
      0xFF, 0xFF, 0, 0, 0, 0xf2, 0xcf, 0,
      104, 0, 0, 0, 0, 0x89, 0, 0]"

definition boot_tables :: "byte list \<Rightarrow> byte list" where
  "boot_tables syssize =
     gdt_data
     @ [0, 0, 0, 0, 0, 0]
     @ [0] @ [0, 0]
     @ syssize
     @ [0x00, 0x80] @ [0xB3, 0x01, 0x09, 0x00]
     @ [0, 0] @ [0x55, 0xAA]"

definition idt_48 :: word16 where "idt_48 = 491"
definition setup_sects :: word16 where "setup_sects = 497"
definition syssize :: word16 where "syssize = 500"
definition gdt_48 :: word16 where "gdt_48 = 502"

text \<open>\<open>lidt\<close> and \<open>lgdt\<close> in real mode take a base of 24 bits.\<close>

definition table_register :: "mem \<Rightarrow> dword \<Rightarrow> Register" where
  "table_register m a = \<lparr>r_limit = load16 m a, r_base = load32 m (a + 2) AND 0xFFFFFF\<rparr>"

definition descriptor_at :: "mem \<Rightarrow> dword \<Rightarrow> Descriptor" where
  "descriptor_at m a = \<lparr>d_limit = load16 m a, lowBase = load16 m (a + 2), midBase = m (a + 4),
     flags1 = m (a + 5), flags2 = m (a + 6), highBase = m (a + 7)\<rparr>"

section \<open>The code\<close>

text \<open>\<open>rep movsw\<close> with CX words, from linear address \<open>p\<close> to \<open>q\<close>.\<close>

fun rep_movsw :: "nat \<Rightarrow> dword \<Rightarrow> dword \<Rightarrow> mem \<Rightarrow> mem" where
  "rep_movsw 0 p q m = m"
| "rep_movsw (Suc cx) p q m = rep_movsw cx (p + 2) (q + 2) (m(q := m p, q + 1 := m (p + 1)))"

definition bootsect_main :: "board \<Rightarrow> pic \<times> pic \<times> system \<Rightarrow> (pic \<times> pic \<times> system) option" where
  "bootsect_main B = (\<lambda>(master, slave, s). do {
     let m = kmem (kmm (knl s));
     let m = rep_movsw 256 (linear BOOTSEG 0) (linear INITSEG 0) m;
     l \<leftarrow> read_it (b_int13 B) (m (linear INITSEG setup_sects)) (load16 m (linear INITSEG syssize))
            \<lparr>l_es = SYSSEG, l_bx = 7, sread = 0, head = 0, track = 0, l_mem = m\<rparr>;
     let h = [Out 0x3F2 0x00];
     let eflags1 = eflags s AND NOT 0x600;
     let h = open_a20 B (h @ [Out 0x70 0x80]);
     m \<leftarrow> wait_a20 (b_gate B h) (l_mem l);
     let h = h @ map (\<lambda>(port, v). Out port v) pic_program;
     let (master, slave) = fold pic_out (outs h) (master, slave);
     let idtr1 = table_register m (linear INITSEG idt_48);
     let gdtr1 = table_register m (linear INITSEG gdt_48);
     let mm = (kmm (knl s))\<lparr>kmem := m, cr0 := 1\<rparr>;
     Some (master, slave, s\<lparr>eflags := eflags1, r_ds := INITSEG, r_es := l_es l, r_gs := 0xFFFF,
       r_ss := INITSEG, r_esp := (r_esp s AND 0xFFFF0000) OR (0x4000 - 12),
       r_cs := KERNEL_CS, r_eip := 0x10010, idtr := idtr1, gdtr := gdtr1, pic_mask := p_mask master,
       gdt := map (\<lambda>i. descriptor_at m (r_base gdtr1 + 8 * of_nat i)) [0..<7],
       knl := (knl s)\<lparr>kmm := mm\<rparr>\<rparr>) })"

section \<open>Specification\<close>

text \<open>The segment that a descriptor describes.\<close>

definition descriptor_limit :: "Descriptor \<Rightarrow> dword" where
  "descriptor_limit d =
     (let l = push_bit 16 (ucast (flags2 d AND 0xF)) OR ucast (d_limit d)
      in if bit (flags2 d) 7 then push_bit 12 l OR 0xFFF else l)"

definition descriptor_dpl :: "Descriptor \<Rightarrow> byte" where
  "descriptor_dpl d = take_bit 2 (drop_bit 5 (flags1 d))"

definition flat_segment :: "bool \<Rightarrow> Descriptor \<Rightarrow> bool" where
  "flat_segment code d \<longleftrightarrow> descriptor_base d = 0 \<and> descriptor_limit d = 0xFFFFFFFF
     \<and> bit (flags1 d) 7 \<and> bit (flags1 d) 4 \<and> (bit (flags1 d) 3 \<longleftrightarrow> code) \<and> bit (flags1 d) 1 \<and> bit (flags2 d) 6"

definition select :: "Descriptor list \<Rightarrow> word16 \<Rightarrow> Descriptor" where
  "select g sel = g ! unat (drop_bit 3 sel)"

definition boot_gdt :: "Descriptor list" where
  "boot_gdt =
     (let flat = (\<lambda>f. \<lparr>d_limit = 0xFFFF, lowBase = 0, midBase = 0, flags1 = f, flags2 = 0xcf, highBase = 0\<rparr>);
          empty = \<lparr>d_limit = 0, lowBase = 0, midBase = 0, flags1 = 0, flags2 = 0, highBase = 0\<rparr>
      in [empty, empty, flat 0x9a, flat 0x92, flat 0xfa, flat 0xf2, empty\<lparr>d_limit := 104, flags1 := 0x89\<rparr>])"

section \<open>Lemmas\<close>

lemma rep_movsw_spec:
  "disjoint_ranges p q (2 * n) \<Longrightarrow> rep_movsw n p q m = write_bytes m q (read_bytes m p (2 * n))"
proof (induction n arbitrary: p q m)
  case 0
  then show ?case by simp
next
  case (Suc n)
  then have d: "disjoint_ranges p q (2 + 2 * n)" by simp
  have "q \<noteq> p + 1" using d [unfolded disjoint_ranges_def, rule_format, of 1 0] by simp
  then have step: "m(q := m p, q + 1 := m (p + 1)) = write_bytes m q (read_bytes m p 2)"
    by (simp add: numeral_eq_Suc read_bytes_Suc)
  show ?case
    using Suc.IH [of "p + 2" "q + 2"] disjoint_ranges_shift [OF d] write_read_chunk [OF d, of m] step
    by simp
qed

lemma outs_map_Out [simp]: "outs (map (\<lambda>(port, v). Out port v) ws) = ws"
  by (induction ws) auto

lemma pics_programmed:
  "fold pic_out pic_program p =
     (\<lparr>p_expect = Running, p_base = 0x20, p_mask = 0xFB\<rparr>, \<lparr>p_expect = Running, p_base = 0x28, p_mask = 0xFF\<rparr>)"
proof -
  obtain a b where "p = (a, b)" by (cases p)
  then show ?thesis by (simp add: pic_program_def pic_out_def pic_command_def pic_data_def)
qed

lemma boot_addresses [simp]:
  "linear INITSEG setup_sects = 0x901F1" "linear INITSEG syssize = 0x901F4" "linear INITSEG idt_48 = 0x901EB"
  "linear INITSEG gdt_48 = 0x901F6" "linear INITSEG 0 = 0x90000" "linear BOOTSEG 0 = 0x7C00"
  by (simp_all add: linear_def push_bit_eq_mult INITSEG_def BOOTSEG_def setup_sects_def syssize_def idt_48_def gdt_48_def)

text \<open>A sector with the tables, in memory at 0x90000.\<close>

definition boot_sector :: "byte \<Rightarrow> byte \<Rightarrow> byte list \<Rightarrow> bool" where
  "boot_sector z0 z1 sec \<longleftrightarrow> length sec = 512 \<and> drop 435 sec = boot_tables [z0, z1]"

lemma table_bytes:
  assumes "boot_sector z0 z1 sec" "read_bytes m 0x90000 512 = sec"
  shows "read_bytes m 0x901B3 77 = boot_tables [z0, z1]"
proof -
  have "read_bytes m 0x90000 (435 + 77) = sec" using assms(2) by simp
  then have "read_bytes m 0x90000 435 @ read_bytes m 0x901B3 77 = sec" unfolding read_bytes_add by simp
  then have "drop 435 sec = read_bytes m 0x901B3 77" by (metis append_eq_conv_conj length_read_bytes)
  then show ?thesis using assms(1) by (simp add: boot_sector_def)
qed

lemma tables_in_memory:
  assumes "boot_sector z0 z1 sec" "read_bytes m 0x90000 512 = sec"
  shows "m 0x901F1 = 0" "load16 m 0x901F4 = ucast z0 OR push_bit 8 (ucast z1)"
    and "table_register m 0x901EB = \<lparr>r_limit = 0, r_base = 0\<rparr>"
    and "table_register m 0x901F6 = \<lparr>r_limit = 0x8000, r_base = GDT_START\<rparr>"
    and "map (\<lambda>i. descriptor_at m (GDT_START + 8 * of_nat i)) [0..<7] = boot_gdt"
proof -
  have T: "map (\<lambda>i. m (0x901B3 + of_nat i)) [0..<77] = boot_tables [z0, z1]"
    using table_bytes [OF assms] by (simp add: read_bytes_def)
  note F = T [unfolded boot_tables_def gdt_data_def, simplified list.map upt_conv_Cons append.simps, simplified]
  show "m 0x901F1 = 0" "load16 m 0x901F4 = ucast z0 OR push_bit 8 (ucast z1)"
    using F by (simp_all add: load16_def)
  show "table_register m 0x901EB = \<lparr>r_limit = 0, r_base = 0\<rparr>"
    "table_register m 0x901F6 = \<lparr>r_limit = 0x8000, r_base = GDT_START\<rparr>"
    using F by (simp_all add: table_register_def load16_def load32_def push_bit_eq_mult)
  show "map (\<lambda>i. descriptor_at m (GDT_START + 8 * of_nat i)) [0..<7] = boot_gdt"
    using F by (simp add: boot_gdt_def Let_def upt_conv_Cons descriptor_at_def load16_def push_bit_eq_mult)
qed

lemma boot_gdt_segments:
  "flat_segment True (select boot_gdt KERNEL_CS)" "descriptor_dpl (select boot_gdt KERNEL_CS) = 0"
  "flat_segment False (select boot_gdt KERNEL_DS)" "descriptor_dpl (select boot_gdt KERNEL_DS) = 0"
  "flat_segment True (select boot_gdt USER_CS)" "descriptor_dpl (select boot_gdt USER_CS) = 3"
  "flat_segment False (select boot_gdt USER_DS)" "descriptor_dpl (select boot_gdt USER_DS) = 3"
  "descriptor_limit (select boot_gdt KERNEL_TSS) = 104" "descriptor_dpl (select boot_gdt KERNEL_TSS) = 0"
  by (simp_all add: boot_gdt_def Let_def select_def flat_segment_def descriptor_base_def descriptor_limit_def descriptor_dpl_def
      drop_bit_eq_div take_bit_eq_mod push_bit_eq_mult)

text \<open>The image size in the sector, in units of 16 bytes.\<close>

definition image_clicks :: "byte \<Rightarrow> byte \<Rightarrow> word16" where
  "image_clicks z0 z1 = ucast z0 OR push_bit 8 (ucast z1)"

lemma moved_sector:
  defines "m' m \<equiv> rep_movsw 256 0x7C00 0x90000 m"
  shows "read_bytes (m' m) 0x90000 512 = read_bytes m 0x7C00 512"
    and "\<And>b. unat b < 0x90000 \<Longrightarrow> m' m b = m b"
proof -
  have "disjoint_ranges 0x7C00 0x90000 512" by (rule disjoint_rangesI(1)) simp_all
  then have w: "m' m = write_bytes m 0x90000 (read_bytes m 0x7C00 512)"
    using rep_movsw_spec [of "0x7C00" "0x90000" 256 m] by (simp add: m'_def)
  show "read_bytes (m' m) 0x90000 512 = read_bytes m 0x7C00 512"
    using read_write_bytes [of "read_bytes m 0x7C00 512" m "0x90000"] by (simp add: w)
  fix b :: dword assume "unat b < 0x90000"
  moreover have "unat (0x90000 + of_nat i :: dword) = 0x90000 + i" if "i < 512" for i
    using unat_add_small [of "0x90000" i] that by simp
  ultimately have "b \<noteq> 0x90000 + of_nat i" if "i < 512" for i using that by fastforce
  then show "m' m b = m b" unfolding w by (intro write_bytes_other) simp
qed

lemma bootsect_result:
  assumes d: "reads_disk d (b_int13 B)" and a20: "opens_a20 B"
    and sec: "boot_sector z0 z1 (read_bytes (kmem (kmm (knl s))) 0x7C00 512)"
    and z: "image_clicks z0 z1 < 0x8000"
  obtains master' slave' s' where "bootsect_main B (master, slave, s) = Some (master', slave', s')"
    "master' = \<lparr>p_expect = Running, p_base = 0x20, p_mask = 0xFB\<rparr>"
    "slave' = \<lparr>p_expect = Running, p_base = 0x28, p_mask = 0xFF\<rparr>"
    "r_cs s' = KERNEL_CS" "r_eip s' = 0x10010" "eflags s' = eflags s AND NOT 0x600" "pic_mask s' = 0xFB"
    "gdtr s' = \<lparr>r_limit = 0x8000, r_base = GDT_START\<rparr>" "idtr s' = \<lparr>r_limit = 0, r_base = 0\<rparr>"
    "gdt s' = boot_gdt" "idt s' = idt s" "phys_mem (kmm (knl s')) = phys_mem (kmm (knl s))" "cr0 (kmm (knl s')) = 1"
    "read_bytes (kmem (kmm (knl s'))) 0x90000 512 = read_bytes (kmem (kmm (knl s))) 0x7C00 512"
    "\<And>i. i < 0x10000 * (unat (image_clicks z0 z1) div 0x1000 + 1) \<Longrightarrow> kmem (kmm (knl s')) (0x10000 + of_nat i) = d (512 + i)"
    "kcon (knl s') = kcon (knl s)"
proof -
  let ?m = "rep_movsw 256 0x7C00 0x90000 (kmem (kmm (knl s)))"
  let ?l = "\<lparr>l_es = SYSSEG, l_bx = 7, sread = 0, head = 0, track = 0, l_mem = ?m\<rparr>"
  let ?k = "unat (image_clicks z0 z1) div 0x1000"
  have sec1: "boot_sector z0 z1 (read_bytes ?m 0x90000 512)" using sec by (simp only: moved_sector)
  obtain l where l: "read_it (b_int13 B) 0 (image_clicks z0 z1) ?l = Some l"
    "\<And>i. i < 0x10000 * (?k + 1) \<Longrightarrow> l_mem l (0x10000 + of_nat i) = d (512 + i)"
    "\<And>b. 0x500 \<le> unat b \<Longrightarrow> unat b < 0x92000 \<Longrightarrow> unat b < 0x10000 \<or> 0x10000 * (?k + 2) \<le> unat b \<Longrightarrow>
       l_mem l b = l_mem ?l b"
    by (rule read_it_result [OF d, of ?l, OF _ _ _ _ z]) simp_all
  have k: "?k < 8" using z by (simp add: word_less_nat_alt less_mult_imp_div_less)
  have keep: "read_bytes (l_mem l) 0x90000 512 = read_bytes ?m 0x90000 512"
  proof (rule read_bytes_cong)
    fix i :: nat assume "i < 512"
    then have "unat (0x90000 + of_nat i :: dword) = 0x90000 + i" "i < 512"
      using unat_add_small [of "0x90000" i] by simp_all
    moreover have "0x10000 * (?k + 2) \<le> 0x90000" using k by simp
    ultimately show "l_mem l (0x90000 + of_nat i) = ?m (0x90000 + of_nat i)" using l(3) by simp
  qed
  note tab = tables_in_memory [OF sec1 refl] tables_in_memory [OF sec1 keep]
  obtain s' where s': "bootsect_main B (master, slave, s) =
      Some (\<lparr>p_expect = Running, p_base = 0x20, p_mask = 0xFB\<rparr>, \<lparr>p_expect = Running, p_base = 0x28, p_mask = 0xFF\<rparr>, s')"
    "r_cs s' = KERNEL_CS" "r_eip s' = 0x10010" "eflags s' = eflags s AND NOT 0x600" "pic_mask s' = 0xFB"
    "gdtr s' = \<lparr>r_limit = 0x8000, r_base = GDT_START\<rparr>" "idtr s' = \<lparr>r_limit = 0, r_base = 0\<rparr>"
    "gdt s' = boot_gdt" "idt s' = idt s" "phys_mem (kmm (knl s')) = phys_mem (kmm (knl s))" "cr0 (kmm (knl s')) = 1"
    "kmem (kmm (knl s')) = l_mem l" "kcon (knl s') = kcon (knl s)"
    using l(1) tab a20_opens [OF a20] unfolding bootsect_main_def image_clicks_def
    by (simp add: pics_programmed Let_def del: GDT_START_def SYSSEG_def)
  show thesis
    by (rule that [OF s'(1) refl refl s'(2-11)]) (simp_all only: s'(12,13) keep moved_sector l(2))
qed

text \<open>An image that is too large is not loaded.\<close>

lemma bootsect_overruns:
  assumes d: "reads_disk d (b_int13 B)" and sec: "boot_sector z0 z1 (read_bytes (kmem (kmm (knl s))) 0x7C00 512)"
    and z: "0x8000 \<le> image_clicks z0 z1"
  shows "bootsect_main B (master, slave, s) = None"
proof -
  let ?m = "rep_movsw 256 0x7C00 0x90000 (kmem (kmm (knl s)))"
  let ?l = "\<lparr>l_es = SYSSEG, l_bx = 7, sread = 0, head = 0, track = 0, l_mem = ?m\<rparr>"
  have "boot_sector z0 z1 (read_bytes ?m 0x90000 512)" using sec by (simp only: moved_sector)
  note tab = tables_in_memory [OF this refl]
  have l: "l_es ?l = SYSSEG" "sread ?l = 0" "head ?l = 0" "track ?l = 0" by simp_all
  have "read_it (b_int13 B) 0 (image_clicks z0 z1) ?l = None"
    using rp_read_overruns [OF d z read_it_starts(2) [OF l]] read_it_starts(1) [OF l] by simp
  then show ?thesis using tab(1,2) by (simp add: bootsect_main_def image_clicks_def del: SYSSEG_def)
qed

lemma below8: "j < 8 \<Longrightarrow> j = 0 \<or> j = 1 \<or> j = 2 \<or> j = 3 \<or> j = 4 \<or> j = 5 \<or> j = 6 \<or> j = (7 :: nat)"
  by linarith

lemma irq_closed:
  "irq_vector (\<lparr>p_expect = Running, p_base = 0x20, p_mask = 0xFB\<rparr>, \<lparr>p_expect = Running, p_base = 0x28, p_mask = 0xFF\<rparr>) i = None"
proof -
  have "bit (0xFB :: byte) j" if "j < 8" "j \<noteq> 2" for j
    using below8 [OF that(1)] that(2) by (elim disjE) simp_all
  moreover have "bit (0xFF :: byte) j" if "j < 8" for j
    using below8 [OF that] by (elim disjE) simp_all
  ultimately show ?thesis by (auto simp: irq_vector_def)
qed

lemma irq_open:
  "irq_vector (\<lparr>p_expect = Running, p_base = 0x20, p_mask = 0xFC\<rparr>, \<lparr>p_expect = Running, p_base = 0x28, p_mask = 0xFF\<rparr>) i
     = (if i < 2 then Some (32 + i) else None)"
proof -
  have "bit (0xFC :: byte) j \<longleftrightarrow> 2 \<le> j" if "j < 8" for j
    using below8 [OF that] by (elim disjE) simp_all
  then show ?thesis by (auto simp: irq_vector_def)
qed

section \<open>Properties\<close>

text \<open>
  C15. The boot sector, from any state with the sector at 0x7C00: for an image below 0x8000
  clicks it enters the kernel in protected mode at 0x10:0x10010 with interrupts off; the four
  selectors of the kernel name flat 4 GB segments of the right kind and privilege, and the
  task segment has the limit of the TSS; the image is in memory, the sector itself is at
  0x90000, where the kernel expects its descriptor table. No interrupt line is open; once
  \<open>enable_int\<close> has run, the timer and the keyboard, and only they, come in at the vectors
  32 and 33. A larger image overwrites the loader.
\<close>

theorem boot_sector_enters_kernel:
  assumes "reads_disk d (b_int13 B)" "opens_a20 B" "boot_sector z0 z1 (read_bytes (kmem (kmm (knl s))) 0x7C00 512)"
  shows "(image_clicks z0 z1 < 0x8000 \<longrightarrow>
      (\<exists>master' slave' s'. bootsect_main B (master, slave, s) = Some (master', slave', s')
        \<and> r_cs s' = KERNEL_CS \<and> r_eip s' = KERNEL_START + 16 \<and> cr0 (kmm (knl s')) = 1 \<and> \<not> bit (eflags s') 9
        \<and> gdtr s' = \<lparr>r_limit = 0x8000, r_base = GDT_START\<rparr>
        \<and> gdt s' = map (\<lambda>i. descriptor_at (kmem (kmm (knl s'))) (GDT_START + 8 * of_nat i)) [0..<7]
        \<and> (\<forall>(sel, code, dpl)\<in>{(KERNEL_CS, True, 0), (KERNEL_DS, False, 0), (USER_CS, True, 3), (USER_DS, False, 3)}.
             flat_segment code (select (gdt s') sel) \<and> descriptor_dpl (select (gdt s') sel) = dpl)
        \<and> descriptor_limit (select (gdt s') KERNEL_TSS) = 104
        \<and> (\<forall>i. irq_vector (master', slave') i = None)
        \<and> (\<forall>i. irq_vector (pic_data (pic_mask (enable_int s')) master', slave') i = (if i < 2 then Some (32 + i) else None))
        \<and> read_bytes (kmem (kmm (knl s'))) 0x90000 512 = read_bytes (kmem (kmm (knl s))) 0x7C00 512
        \<and> (\<forall>i<0x10000 * (unat (image_clicks z0 z1) div 0x1000 + 1). kmem (kmm (knl s')) (0x10000 + of_nat i) = d (512 + i))))
    \<and> (0x8000 \<le> image_clicks z0 z1 \<longrightarrow> bootsect_main B (master, slave, s) = None)"
proof (intro conjI impI)
  assume "image_clicks z0 z1 < 0x8000"
  then obtain master' slave' s' where s': "bootsect_main B (master, slave, s) = Some (master', slave', s')"
    "master' = \<lparr>p_expect = Running, p_base = 0x20, p_mask = 0xFB\<rparr>"
    "slave' = \<lparr>p_expect = Running, p_base = 0x28, p_mask = 0xFF\<rparr>"
    "r_cs s' = KERNEL_CS" "r_eip s' = 0x10010" "eflags s' = eflags s AND NOT 0x600"
    "gdtr s' = \<lparr>r_limit = 0x8000, r_base = GDT_START\<rparr>" "gdt s' = boot_gdt" "cr0 (kmm (knl s')) = 1"
    "read_bytes (kmem (kmm (knl s'))) 0x90000 512 = read_bytes (kmem (kmm (knl s))) 0x7C00 512"
    "\<And>i. i < 0x10000 * (unat (image_clicks z0 z1) div 0x1000 + 1) \<Longrightarrow> kmem (kmm (knl s')) (0x10000 + of_nat i) = d (512 + i)"
    by (rule bootsect_result [OF assms, where master = master and slave = slave]) (rule that)
  have "\<not> bit (eflags s') 9" unfolding s'(6) by (simp add: bit_simps)
  moreover have "gdt s' = map (\<lambda>i. descriptor_at (kmem (kmm (knl s'))) (GDT_START + 8 * of_nat i)) [0..<7]"
    using tables_in_memory(5) [OF assms(3) s'(10)] s'(8) by simp
  moreover have "irq_vector (pic_data (pic_mask (enable_int s')) master', slave') i = (if i < 2 then Some (32 + i) else None)" for i
    using irq_open by (simp add: enable_int_def Let_def pic_data_def s'(2,3))
  ultimately show "\<exists>master' slave' s'. bootsect_main B (master, slave, s) = Some (master', slave', s')
        \<and> r_cs s' = KERNEL_CS \<and> r_eip s' = KERNEL_START + 16 \<and> cr0 (kmm (knl s')) = 1 \<and> \<not> bit (eflags s') 9
        \<and> gdtr s' = \<lparr>r_limit = 0x8000, r_base = GDT_START\<rparr>
        \<and> gdt s' = map (\<lambda>i. descriptor_at (kmem (kmm (knl s'))) (GDT_START + 8 * of_nat i)) [0..<7]
        \<and> (\<forall>(sel, code, dpl)\<in>{(KERNEL_CS, True, 0), (KERNEL_DS, False, 0), (USER_CS, True, 3), (USER_DS, False, 3)}.
             flat_segment code (select (gdt s') sel) \<and> descriptor_dpl (select (gdt s') sel) = dpl)
        \<and> descriptor_limit (select (gdt s') KERNEL_TSS) = 104
        \<and> (\<forall>i. irq_vector (master', slave') i = None)
        \<and> (\<forall>i. irq_vector (pic_data (pic_mask (enable_int s')) master', slave') i = (if i < 2 then Some (32 + i) else None))
        \<and> read_bytes (kmem (kmm (knl s'))) 0x90000 512 = read_bytes (kmem (kmm (knl s))) 0x7C00 512
        \<and> (\<forall>i<0x10000 * (unat (image_clicks z0 z1) div 0x1000 + 1). kmem (kmm (knl s')) (0x10000 + of_nat i) = d (512 + i))"
    using s'(1,4,5,7,9-11) boot_gdt_segments irq_closed
    by (intro exI [of _ master'] exI [of _ slave'] exI [of _ s'] conjI)
      (simp_all add: s'(2,3,8) del: KERNEL_CS_def KERNEL_DS_def USER_CS_def USER_DS_def KERNEL_TSS_def GDT_START_def)
qed (rule bootsect_overruns [OF assms(1,3)])

text \<open>A sector that is all \<open>nop\<close> before the tables, and a machine with it at 0x7C00.\<close>

definition example_sector :: "byte list" where
  "example_sector = replicate 435 0x90 @ boot_tables [0x00, 0x7F]"

definition sector_loaded :: "byte list \<Rightarrow> system \<Rightarrow> system" where
  "sector_loaded sec s = s\<lparr>knl := (knl s)\<lparr>kmm := (kmm (knl s))\<lparr>kmem := write_bytes (kmem (kmm (knl s))) 0x7C00 sec\<rparr>\<rparr>\<rparr>"

lemma example_sector: "boot_sector 0x00 0x7F example_sector" "length example_sector = 512"
  by (simp_all add: boot_sector_def example_sector_def boot_tables_def gdt_data_def)

lemma sector_loaded_bytes:
  "length sec = 512 \<Longrightarrow> read_bytes (kmem (kmm (knl (sector_loaded sec s)))) 0x7C00 512 = sec"
  using read_write_bytes [of sec "kmem (kmm (knl s))" "0x7C00"] by (simp add: sector_loaded_def)

definition example_pic :: pic where
  "example_pic = \<lparr>p_expect = Running, p_base = 0x08, p_mask = 0\<rparr>"

theorem boot_sector_enters_kernel_witness:
  "\<exists>master' slave' s'. bootsect_main (example_board (\<lambda>a. of_nat (a div 512))) (example_pic, example_pic, sector_loaded example_sector example_system)
       = Some (master', slave', s')
     \<and> r_eip s' = 0x10010 \<and> irq_vector (pic_data (pic_mask (enable_int s')) master', slave') 1 = Some 33
     \<and> kmem (kmm (knl s')) (0x10000 + of_nat 0x23456) = of_nat (0x23656 div 512)"
proof -
  let ?d = "\<lambda>a. of_nat (a div 512) :: byte" and ?s = "sector_loaded example_sector example_system"
  have sec: "boot_sector 0x00 0x7F (read_bytes (kmem (kmm (knl ?s))) 0x7C00 512)"
    using example_sector by (simp add: sector_loaded_bytes)
  have z: "image_clicks 0x00 0x7F = 0x7F00" by (simp add: image_clicks_def push_bit_eq_mult)
  obtain master' slave' s' where s': "bootsect_main (example_board ?d) (example_pic, example_pic, ?s) = Some (master', slave', s')"
    "r_eip s' = KERNEL_START + 16"
    "\<forall>i. irq_vector (pic_data (pic_mask (enable_int s')) master', slave') i = (if i < 2 then Some (32 + i) else None)"
    "\<forall>i<0x10000 * (unat (image_clicks 0x00 0x7F) div 0x1000 + 1). kmem (kmm (knl s')) (0x10000 + of_nat i) = ?d (512 + i)"
    using boot_sector_enters_kernel [OF example_board_reads [of ?d] example_opens sec, of example_pic example_pic] z by auto
  have "kmem (kmm (knl s')) (0x10000 + of_nat 0x23456) = ?d (512 + 0x23456)"
    by (rule s'(4) [rule_format]) (simp add: z)
  then show ?thesis using s'(1,2) s'(3) [rule_format, of 1] by (intro exI conjI) simp_all
qed

end
