(* ===== verification/Zeos_BootChain.thy ===== *)
theory Zeos_BootChain
  imports Zeos_Build Zeos_Bootsect
begin

text \<open>
  From the files to the kernel in memory: the sector that the image builder patches is the one
  the boot sector reads its image size from, and what the loader puts at \<open>KERNEL_START\<close> is the
  rest of the image.
\<close>

section \<open>The patched sector\<close>

text \<open>A boot file that is assembled from \<^verbatim>\<open>bootsect.S\<close>, with the default \<open>SYSSIZE\<close>.\<close>

definition boot_file :: "byte list \<Rightarrow> byte list \<Rightarrow> bool" where
  "boot_file hdr bs \<longleftrightarrow> boot_file_ok hdr bs \<and> drop 435 bs = boot_tables [0x00, 0x7F]"

definition image_size :: "byte list \<Rightarrow> byte list \<Rightarrow> nat" where
  "image_size sys usr = (length sys + length usr + 15) div 16"

lemma image_clicks_split:
  "image_clicks (ucast (v AND 0xff)) (ucast (drop_bit 8 v AND 0xff)) = ucast (v :: dword)" (is "?l = ?r")
proof (rule bit_word_eqI)
  have ff: "(0xff :: dword) = mask 8" by (simp add: mask_eq_exp_minus_1)
  fix n assume "n < LENGTH(16)"
  then consider "n < 8" | "8 \<le> n" "n < 16" by fastforce
  then show "bit ?l n = bit ?r n" unfolding image_clicks_def ff by cases (auto simp: bit_simps)
qed

lemma patched_sector:
  assumes "boot_file hdr bs" "length sys + length usr < 2 ^ 25"
  obtains z0 z1 where "boot_sector z0 z1 (take 512 (disk_image bs sys usr))"
    "image_clicks z0 z1 = of_nat (image_size sys usr)"
proof -
  let ?im = "(of_nat (length sys) + of_nat (length usr) + 15) div 16 :: dword"
  let ?b = "bs[508 := 0, 509 := 0]"
  let ?z0 = "ucast (?im AND 0xff) :: byte" and ?z1 = "ucast (drop_bit 8 ?im AND 0xff) :: byte"
  have len: "length bs = 512" and tab: "drop 435 bs = boot_tables [0x00, 0x7F]"
    using assms(1) by (simp_all add: boot_file_def boot_file_ok_def)
  have b: "drop 435 ?b = boot_tables [0x00, 0x7F]"
    using tab by (simp add: drop_update_swap boot_tables_def gdt_data_def)
  have sec: "take 512 (disk_image bs sys usr) = take 500 ?b @ [?z0, ?z1] @ drop 502 ?b"
    using len by (simp add: disk_image_def Let_def word3_def)
  have "drop 435 (take 500 ?b) = take 65 (drop 435 ?b)" "drop 502 ?b = drop 67 (drop 435 ?b)"
    by (subst drop_take, simp) (simp only: drop_drop, simp)
  then have "drop 435 (take 512 (disk_image bs sys usr))
      = take 65 (boot_tables [0x00, 0x7F]) @ [?z0, ?z1] @ drop 67 (boot_tables [0x00, 0x7F])"
    unfolding sec b [symmetric] using len by simp
  also have "\<dots> = boot_tables [?z0, ?z1]" by (simp add: boot_tables_def gdt_data_def)
  finally have "boot_sector ?z0 ?z1 (take 512 (disk_image bs sys usr))"
    using len by (simp add: boot_sector_def sec)
  moreover have "image_clicks ?z0 ?z1 = of_nat (image_size sys usr)"
  proof -
    have "unat (of_nat (length sys) + of_nat (length usr) + 15 :: dword) = length sys + length usr + 15"
      using assms(2) unat_of_nat [of "length sys + length usr + 15", where ?'a = 32] by simp
    then have "?im = of_nat (image_size sys usr)"
      using assms(2) by (simp add: word_unat_eq_iff unat_div unat_of_nat image_size_def)
    then show ?thesis unfolding image_clicks_split
      by (simp add: word_unat_eq_iff unsigned_ucast_eq unat_of_nat take_bit_eq_mod mod_mod_cancel)
  qed
  ultimately show thesis by (rule that)
qed

lemma unat_clicks: "unat (of_nat (image_size sys usr) :: word16) = image_size sys usr mod 0x10000"
  by (simp add: unat_of_nat)

lemma length_disk_image:
  "length bs = 512 \<Longrightarrow> 12 \<le> length sys + length usr \<Longrightarrow> length (disk_image bs sys usr) = 512 + (length sys + length usr)"
  by (simp add: disk_image_def Let_def)

text \<open>An image whose size fits comes into memory as a whole.\<close>

lemma image_loaded:
  assumes "length bs = 512" "12 \<le> length sys + length usr" "image_size sys usr < 0x8000"
    and d: "\<And>i. i < length (disk_image bs sys usr) \<Longrightarrow> d i = disk_image bs sys usr ! i"
    and m: "\<And>i. i < 0x10000 * (image_size sys usr mod 0x10000 div 0x1000 + 1) \<Longrightarrow> m (0x10000 + of_nat i) = d (512 + i)"
  shows "read_bytes m 0x10000 (length sys + length usr) = drop 512 (disk_image bs sys usr)"
proof (rule nth_equalityI)
  note len = length_disk_image [OF assms(1,2)]
  show "length (read_bytes m 0x10000 (length sys + length usr)) = length (drop 512 (disk_image bs sys usr))"
    by (simp add: len)
  fix i assume "i < length (read_bytes m 0x10000 (length sys + length usr))"
  then have i: "i < length sys + length usr" by simp
  let ?k = "image_size sys usr div 0x1000"
  have "length sys + length usr \<le> 16 * image_size sys usr" unfolding image_size_def by linarith
  also have "\<dots> < 16 * (0x1000 * (?k + 1))"
    using div_less_iff_less_mult [of "0x1000" "image_size sys usr" "?k + 1"] by (simp add: mult.commute)
  finally have "i < 0x10000 * (image_size sys usr mod 0x10000 div 0x1000 + 1)" using i assms(3) by simp
  then show "read_bytes m 0x10000 (length sys + length usr) ! i = drop 512 (disk_image bs sys usr) ! i"
    using m d [of "512 + i"] i len assms(1) by simp
qed

text \<open>The state in which the boot sector enters the kernel of an image that fits.\<close>

lemma image_enters:
  assumes bf: "boot_file hdr bs" and size: "length sys + length usr \<le> 0x7FFF0"
    and disk: "reads_disk d (b_int13 B)" "opens_a20 B"
    and L: "\<forall>a\<in>{l_dir_pages L, l_pagusr_table L, l_task L}.
        0x1000C \<le> unat a \<and> unat a + 40960 \<le> 0x10000 + length sys"
    and on_disk: "\<forall>i<length (disk_image bs sys usr). d i = disk_image bs sys usr ! i"
    and first: "read_bytes (kmem (kmm (knl s))) 0x7C00 512 = take 512 (disk_image bs sys usr)"
  obtains master' slave' s1 where "bootsect_main B (master, slave, s) = Some (master', slave', s1)"
    "master' = \<lparr>p_expect = Running, p_base = 0x20, p_mask = 0xFB\<rparr>"
    "slave' = \<lparr>p_expect = Running, p_base = 0x28, p_mask = 0xFF\<rparr>"
    "6 < length (gdt s1)" "idt s1 = idt s" "phys_mem (kmm (knl s1)) = phys_mem (kmm (knl s))"
    "kcon (knl s1) = kcon (knl s)" "image_ok L (kmem (kmm (knl s1)))"
    "load32 (kmem (kmm (knl s1))) p_sys_size = of_nat (length sys)"
    "load32 (kmem (kmm (knl s1))) p_usr_size = of_nat (length usr)"
    "load32 (kmem (kmm (knl s1))) p_rdtr = 0x7E6A"
    "\<And>i. i < length usr \<Longrightarrow> kmem (kmm (knl s1)) (0x10000 + of_nat (length sys) + of_nat i) = usr ! i"
    "\<And>i. 12 \<le> i \<Longrightarrow> i < length sys \<Longrightarrow> kmem (kmm (knl s1)) (0x10000 + of_nat i) = sys ! i"
proof -
  have b: "length bs = 512" using bf by (simp add: boot_file_def boot_file_ok_def)
  have big: "12 \<le> length sys" using L by (auto dest: bspec [of _ _ "l_task L"])
  have lens: "length sys < 2 ^ 24" "length usr < 2 ^ 24" "12 \<le> length sys + length usr" "length sys + length usr < 2 ^ 25"
    using size big by simp_all
  have clicks: "image_size sys usr < 0x8000" using size by (simp add: image_size_def less_mult_imp_div_less)
  obtain z0 z1 where z: "boot_sector z0 z1 (take 512 (disk_image bs sys usr))"
    "image_clicks z0 z1 = of_nat (image_size sys usr)"
    by (rule patched_sector [OF bf lens(4)])
  have zs: "image_clicks z0 z1 < 0x8000" unfolding z(2) word_less_nat_alt unat_clicks using clicks by simp
  obtain master' slave' s1 where s1: "bootsect_main B (master, slave, s) = Some (master', slave', s1)"
    "master' = \<lparr>p_expect = Running, p_base = 0x20, p_mask = 0xFB\<rparr>"
    "slave' = \<lparr>p_expect = Running, p_base = 0x28, p_mask = 0xFF\<rparr>"
    "gdt s1 = boot_gdt" "idt s1 = idt s" "phys_mem (kmm (knl s1)) = phys_mem (kmm (knl s))"
    "kcon (knl s1) = kcon (knl s)"
    "\<And>i. i < 0x10000 * (unat (image_clicks z0 z1) div 0x1000 + 1) \<Longrightarrow> kmem (kmm (knl s1)) (0x10000 + of_nat i) = d (512 + i)"
    by (rule bootsect_result [OF disk(1,2) z(1) [folded first] zs, where master = master and slave = slave]) (rule that)
  let ?m = "kmem (kmm (knl s1))"
  have img: "read_bytes ?m 0x10000 (length sys + length usr) = drop 512 (disk_image bs sys usr)"
    using on_disk s1(8) unfolding z(2) unat_clicks by (intro image_loaded [where d = d, OF b lens(3) clicks]) blast+
  note li = loaded_image [OF b big lens(1,2) img]
  have u: "unat (load32 ?m p_sys_size) = length sys" "unat (load32 ?m p_usr_size) = length usr"
    using li(1,2) lens by (simp_all add: unat_of_nat)
  have I: "image_ok L ?m" unfolding image_ok_def u using L size by simp
  have g: "6 < length (gdt s1)" using s1(4) by (simp add: boot_gdt_def Let_def)
  show thesis by (rule that [OF s1(1-3) g s1(5-7) I]) (use li in simp_all)
qed

text \<open>The boot sector and the kernel, one after the other.\<close>

lemma image_boots:
  assumes bf: "boot_file hdr bs" and size: "length sys + length usr \<le> 0x7FFF0"
    and disk: "reads_disk d (b_int13 B)" "opens_a20 B"
    and L: "layout_ok L" "\<forall>a\<in>{l_dir_pages L, l_pagusr_table L, l_task L}.
        0x1000C \<le> unat a \<and> unat a + 40960 \<le> 0x10000 + length sys"
    and K: "keeps_image L mono_init"
    and s: "length (phys_mem (kmm (knl s))) = TOTAL_PAGES" "length (set_handlers (idt s)) = IDT_ENTRIES"
    and on_disk: "\<forall>i<length (disk_image bs sys usr). d i = disk_image bs sys usr ! i"
    and first: "read_bytes (kmem (kmm (knl s))) 0x7C00 512 = take 512 (disk_image bs sys usr)"
  shows "\<exists>master' slave' s1 s2. bootsect_main B (master, slave, s) = Some (master', slave', s1)
     \<and> boot_main L S set_handlers mono_init s1 = Some s2 \<and> r_eip s2 = 0x114000 \<and> r_cs s2 = USER_CS
     \<and> (\<forall>i<length usr. i < 0x13FFC \<or> 0x14000 \<le> i \<longrightarrow> kmem (kmm (knl s2)) (0x100000 + of_nat i) = usr ! i)
     \<and> load32 (kmem (kmm (knl s2))) 0x113FFC = 0x7E6A
     \<and> (\<forall>i. irq_vector (pic_data (pic_mask s2) master', slave') i = (if i < 2 then Some (32 + i) else None))
     \<and> map (\<lambda>i. gate_offset (idt s2 ! (32 + i))) [0, 1] = [s_clock_handler S, s_keyboard_handler S]"
proof -
  obtain master' slave' s1 where s1: "bootsect_main B (master, slave, s) = Some (master', slave', s1)"
    "master' = \<lparr>p_expect = Running, p_base = 0x20, p_mask = 0xFB\<rparr>"
    "slave' = \<lparr>p_expect = Running, p_base = 0x28, p_mask = 0xFF\<rparr>"
    "6 < length (gdt s1)" "idt s1 = idt s" "phys_mem (kmm (knl s1)) = phys_mem (kmm (knl s))"
    "image_ok L (kmem (kmm (knl s1)))"
    "load32 (kmem (kmm (knl s1))) p_sys_size = of_nat (length sys)"
    "load32 (kmem (kmm (knl s1))) p_usr_size = of_nat (length usr)"
    "load32 (kmem (kmm (knl s1))) p_rdtr = 0x7E6A"
    "\<And>i. i < length usr \<Longrightarrow> kmem (kmm (knl s1)) (0x10000 + of_nat (length sys) + of_nat i) = usr ! i"
    by (rule image_enters [where master = master and slave = slave, OF bf size disk L(2) on_disk first]) (rule that)
  have u: "unat (load32 (kmem (kmm (knl s1))) p_usr_size) = length usr"
    using s1(9) size by (simp add: unat_of_nat)
  have g: "length (phys_mem (kmm (knl s1))) = TOTAL_PAGES" "length (set_handlers (idt s1)) = IDT_ENTRIES"
    using s1(5,6) s by simp_all
  obtain s2 where s2: "boot_main L S set_handlers mono_init s1 = Some s2" "r_eip s2 = 0x114000" "r_cs s2 = USER_CS"
    "pic_mask s2 = 0xFC"
    "map (\<lambda>v. gate_offset (idt s2 ! v)) [14, 32, 33] = [s_page_fault_handler2 S, s_clock_handler S, s_keyboard_handler S]"
    "\<forall>i<length usr. i < 0x13FFC \<or> 0x14000 \<le> i \<longrightarrow>
       kmem (kmm (knl s2)) (0x100000 + of_nat i) = kmem (kmm (knl s1)) (0x10000 + load32 (kmem (kmm (knl s1))) p_sys_size + of_nat i)"
    "load32 (kmem (kmm (knl s2))) 0x113FFC = load32 (kmem (kmm (knl s1))) p_rdtr"
    using boot_runs [where L = L and m = "kmem (kmm (knl s1))" and s = s1 and S = S and set_handlers = set_handlers
        and mono_init = mono_init, OF L(1) s1(7) K refl g(1) s1(4) g(2)] unfolding u by (elim exE conjE) (rule that)
  have "irq_vector (pic_data (pic_mask s2) master', slave') i = (if i < 2 then Some (32 + i) else None)" for i
    using irq_open by (simp add: s2(4) s1(2,3) pic_data_def)
  with s1 s2 show ?thesis
    by (intro exI [of _ master'] exI [of _ slave'] exI [of _ s1] exI [of _ s2] conjI) (simp_all del: p_sys_size_def p_rdtr_def)
qed

section \<open>Properties\<close>


text \<open>A sector assembled with the default size, with a kernel of 0x30000 and a user file of 0x15000 bytes.\<close>

definition example_sys :: "byte list" where "example_sys = replicate 0x30000 0"
definition example_usr :: "byte list" where "example_usr = replicate 0x15000 9"

definition image_files :: files where
  "image_files name =
     (if name = ''bootsect'' then Some \<lparr>contents = example_header @ example_sector, st_size = 544\<rparr>
      else if name = ''system'' then Some \<lparr>contents = example_sys, st_size = length example_sys\<rparr>
      else if name = ''user'' then Some \<lparr>contents = example_usr, st_size = length example_usr\<rparr>
      else None)"

definition example_disk :: disk where
  "example_disk i = (if i < 0x45200 then disk_image example_sector example_sys example_usr ! i else 0)"

lemma example_lengths [simp]: "length example_sys = 0x30000" "length example_usr = 0x15000"
  by (simp_all add: example_sys_def example_usr_def)

lemma image_files_simps:
  "image_files ''bootsect'' = Some \<lparr>contents = example_header @ example_sector, st_size = 544\<rparr>"
  "image_files ''system'' = Some \<lparr>contents = example_sys, st_size = length example_sys\<rparr>"
  "image_files ''user'' = Some \<lparr>contents = example_usr, st_size = length example_usr\<rparr>"
  by (simp_all add: image_files_def)

lemma example_boot_file: "boot_file example_header example_sector"
  using example_boot_file_ok
  by (simp add: boot_file_def boot_file_ok_def example_sector_def boot_tables_def gdt_data_def nth_append)


end
