(* ===== verification/Zeos_Run.thy ===== *)
theory Zeos_Run
  imports Zeos_AddressSpace Zeos_Sys
begin

text \<open>
  The running system: the events that the hardware and the user program raise after boot, in
  any order and number, as a step relation on the kernel state. Handlers run with interrupts
  off (their gates are interrupt gates), so a handler is one step. A user store goes through
  the paging unit: it is possible only on a page that ring 3 may write, and reaches the frame
  the page is mapped to; frames below 256 are the kernel's, which the kernel sees at their own
  address. \<open>kb\<close> is the buffer of \<open>sys_write\<close> on the kernel stack of task 1, and \<open>show\<close> the
  clock display of \<^verbatim>\<open>libzeos.a\<close>.
\<close>

datatype event =
    Tick
  | Key byte
  | Syscall dword dword dword dword
  | Store dword byte

definition user_store :: "dword \<Rightarrow> dword \<Rightarrow> byte \<Rightarrow> mem \<Rightarrow> mem" where
  "user_store f a v m =
     (if unat f < 256 then m(push_bit 12 f + take_bit 12 a := v) else m(a := v))"

inductive step :: "dword \<Rightarrow> (dword \<Rightarrow> console \<Rightarrow> console) \<Rightarrow> kernel \<Rightarrow> event \<Rightarrow> kernel \<Rightarrow> bool"
  for kb show_clock where
  tick: "step kb show_clock k Tick (clock_routine show_clock k)"
| key: "keyboard_routine e (kcon k) = Some con \<Longrightarrow> step kb show_clock k (Key e) (k\<lparr>kcon := con\<rparr>)"
| syscall: "dispatch_syscall kb n a b c k = Some (k', r) \<Longrightarrow> step kb show_clock k (Syscall n a b c) k'"
| store: "mmu (kmem (kmm k)) (cr3 (kmm k)) (unat a div 4096) = Some (f, True, True) \<Longrightarrow>
    step kb show_clock k (Store a v) (k\<lparr>kmm := (kmm k)\<lparr>kmem := user_store f a v (kmem (kmm k))\<rparr>\<rparr>)"

inductive_cases step_tickE: "step kb show_clock k Tick k'"
inductive_cases step_keyE: "step kb show_clock k (Key e) k'"
inductive_cases step_syscallE: "step kb show_clock k (Syscall n a b c) k'"
inductive_cases step_storeE: "step kb show_clock k (Store a v) k'"

inductive run :: "('s \<Rightarrow> 'e \<Rightarrow> 's \<Rightarrow> bool) \<Rightarrow> 's \<Rightarrow> 'e list \<Rightarrow> 's \<Rightarrow> bool" for st where
  run_Nil: "run st s [] s"
| run_Cons: "st s e s1 \<Longrightarrow> run st s1 es s2 \<Longrightarrow> run st s (e # es) s2"

text \<open>A transition system with an invariant, under which an observation evolves by the events alone.\<close>

locale observed_system =
  fixes st :: "'s \<Rightarrow> 'e \<Rightarrow> 's \<Rightarrow> bool"
    and inv :: "'s \<Rightarrow> bool"
    and obs :: "'s \<Rightarrow> 'o"
    and upd :: "'e \<Rightarrow> 'o \<Rightarrow> 'o"
  assumes inv_step: "inv s \<Longrightarrow> st s e s' \<Longrightarrow> inv s'"
    and obs_step: "inv s \<Longrightarrow> st s e s' \<Longrightarrow> obs s' = upd e (obs s)"
begin

lemma run_inv: "run st s es s' \<Longrightarrow> inv s \<Longrightarrow> inv s'"
  by (induction rule: run.induct) (auto dest: inv_step)

lemma run_obs: "run st s es s' \<Longrightarrow> inv s \<Longrightarrow> obs s' = fold upd es (obs s)"
proof (induction rule: run.induct)
  case (run_Cons s e s1 es s2)
  then have "obs s1 = upd e (obs s)" "inv s1" using inv_step obs_step by blast+
  then show ?case using run_Cons.IH by simp
qed simp

end

section \<open>The invariant\<close>

definition kstack_ok :: "layout \<Rightarrow> dword \<Rightarrow> bool" where
  "kstack_ok L kb \<longleftrightarrow> unat (l_task L) + 4096 \<le> unat kb \<and> unat kb + 128 \<le> unat (l_task L) + 8192"

definition show_ok :: "(dword \<Rightarrow> console \<Rightarrow> console) \<Rightarrow> bool" where
  "show_ok show_clock \<longleftrightarrow> (\<forall>t con. console_ok con \<longrightarrow> console_ok (show_clock t con))"

text \<open>
  CR3 is the directory of task 0, of which only the first entry is used; the kernel's pages
  are mapped to themselves and closed to ring 3, and no page that ring 3 can access is on a
  kernel frame.
\<close>

definition protected :: "layout \<Rightarrow> kernel \<Rightarrow> bool" where
  "protected L k \<longleftrightarrow>
     (let m = kmem (kmm k); dir = tbl (l_dir_pages L) 0 0
      in cr3 (kmm k) = dir \<and> task_ok L m 0
         \<and> (\<forall>d. 0 < d \<and> d < 1024 \<longrightarrow> pte_present (load32 m (tbl dir 0 d)) = 0)
         \<and> (\<forall>p<256. mmu m dir p = (if p = 0 then None else Some (of_nat p, False, True)))
         \<and> (\<forall>p<1024. \<forall>f w. mmu m dir p = Some (f, True, w) \<longrightarrow> 256 \<le> unat f)
         \<and> console_ok (kcon k))"

definition sys_inv :: "layout \<Rightarrow> dword \<Rightarrow> (dword \<Rightarrow> console \<Rightarrow> console) \<Rightarrow> kernel \<Rightarrow> bool" where
  "sys_inv L kb show_clock k \<longleftrightarrow> layout_ok L \<and> kstack_ok L kb \<and> show_ok show_clock \<and> protected L k"

text \<open>The directory and the page table of task 0 and its task structure.\<close>

definition frozen :: "layout \<Rightarrow> dword \<Rightarrow> bool" where
  "frozen L b \<longleftrightarrow> (\<exists>P\<in>{l_dir_pages L, l_pagusr_table L, l_task L}. unat P \<le> unat b \<and> unat b < unat P + 4096)"

definition same_frozen :: "layout \<Rightarrow> mem \<Rightarrow> mem \<Rightarrow> bool" where
  "same_frozen L m m' \<longleftrightarrow> (\<forall>b. frozen L b \<longrightarrow> m' b = m b)"

definition ks_obs :: "kernel \<Rightarrow> dword \<times> (nat \<Rightarrow> (dword \<times> bool \<times> bool) option)" where
  "ks_obs k = (zeos_ticks k, \<lambda>p. if p < 2 ^ 20 then mmu (kmem (kmm k)) (cr3 (kmm k)) p else None)"

definition ks_upd :: "event \<Rightarrow> dword \<times> 'm \<Rightarrow> dword \<times> 'm" where
  "ks_upd e o1 = (if e = Tick then (fst o1 + 1, snd o1) else o1)"

section \<open>Lemmas\<close>

lemma entry_bytes_page:
  assumes "page_aligned P" "j < 1024" "b \<in> entry_bytes (tbl P 0 j)"
  shows "unat P \<le> unat b \<and> unat b < unat P + 4096"
proof -
  have "\<exists>d<4. unat b = unat (tbl P 0 j) + d"
    using assms(3) aligned4_offsets [OF aligned4_slot [OF assms(1,2)]]
    by (auto simp: entry_bytes_def intro: exI [of _ 0] exI [of _ 1] exI [of _ 2] exI [of _ 3])
  then show ?thesis using unat_slot [OF assms(1,2)] assms(2) by auto
qed

lemma load32_frozen:
  assumes "layout_ok L" "same_frozen L m m'" "P \<in> {l_dir_pages L, l_pagusr_table L, l_task L}" "j < 1024"
  shows "load32 m' (tbl P 0 j) = load32 m (tbl P 0 j)"
proof (rule load32_cong)
  fix b assume "b \<in> entry_bytes (tbl P 0 j)"
  moreover have "page_aligned P" using layout_rows [OF assms(1), of 0] assms(3) by auto
  ultimately have "frozen L b" using entry_bytes_page assms(3,4) unfolding frozen_def by blast
  then show "m' b = m b" using assms(2) by (simp add: same_frozen_def)
qed

lemma mmu_frozen:
  assumes L: "layout_ok L" and s: "same_frozen L m m'" and t: "task_ok L m 0"
    and d: "\<And>d. 0 < d \<Longrightarrow> d < 1024 \<Longrightarrow> pte_present (load32 m (tbl (l_dir_pages L) 0 d)) = 0" and p: "p < 2 ^ 20"
  shows "mmu m' (l_dir_pages L) p = mmu m (l_dir_pages L) p"
proof -
  have i: "p div 1024 < 1024" using p by simp
  have pde: "load32 m' (tbl (l_dir_pages L) 0 (p div 1024)) = load32 m (tbl (l_dir_pages L) 0 (p div 1024))"
    using load32_frozen [OF L s _ i] by simp
  show ?thesis
  proof (cases "p div 1024 = 0")
    case True
    have "push_bit 12 (pte_pbase_addr (load32 m (l_dir_pages L))) = l_pagusr_table L"
      using t page_addr_shift [OF layout_rows(2) [OF L, of 0]] by (simp add: task_ok_def)
    then show ?thesis
      using True pde load32_frozen [OF L s, of "l_pagusr_table L" "p mod 1024"] by (simp add: mmu_def)
  next
    case False
    then show ?thesis using d [OF _ i] pde by (simp add: mmu_def pte_view_def)
  qed
qed

lemma protected_frozen:
  assumes L: "layout_ok L" and P: "protected L k" and s: "same_frozen L (kmem (kmm k)) (kmem (kmm k'))"
    and c: "cr3 (kmm k') = cr3 (kmm k)" "console_ok (kcon k')"
  shows "protected L k'" and "snd (ks_obs k') = snd (ks_obs k)"
proof -
  let ?m = "kmem (kmm k)" and ?m' = "kmem (kmm k')"
  have t: "task_ok L ?m 0"
    and d: "pte_present (load32 ?m (tbl (l_dir_pages L) 0 d)) = 0" if "0 < d" "d < 1024" for d
    using P that by (simp_all add: protected_def Let_def)
  have t0: "task_ok L ?m 0" using P by (simp add: protected_def Let_def)
  have mm: "mmu ?m' (l_dir_pages L) p = mmu ?m (l_dir_pages L) p" if "p < 2 ^ 20" for p
    using mmu_frozen [OF L s t0 d that] .
  have "task_ok L ?m' 0"
    using t0 load32_frozen [OF L s, of "l_task L" 1] load32_frozen [OF L s, of "l_dir_pages L" 0]
    by (simp add: task_ok_def get_DIR_def task_DIR_slot)
  moreover have "pte_present (load32 ?m' (tbl (l_dir_pages L) 0 e)) = 0" if "0 < e" "e < 1024" for e
    using d [OF that] load32_frozen [OF L s, of "l_dir_pages L" e] that by simp
  ultimately show "protected L k'" using P c mm by (simp add: protected_def Let_def)
  show "snd (ks_obs k') = snd (ks_obs k)"
    using P c mm by (auto simp: ks_obs_def protected_def Let_def)
qed

lemma keyboard_ok: "keyboard_routine e con = Some con' \<Longrightarrow> console_ok con \<Longrightarrow> console_ok con'"
  by (auto simp: keyboard_routine_def Let_def bind_eq_Some_conv intro: console_ok_printc_xy split: if_splits)

lemma kstack_kbuf: "layout_ok L \<Longrightarrow> kstack_ok L kb \<Longrightarrow> kbuf_ok kb"
  by (simp add: layout_ok_def kstack_ok_def kbuf_ok_def)

lemma sys_write_effect:
  assumes "kbuf_ok kb" "int_range sz" "sys_write kb fd buffer sz k = (k', r)"
  shows "agree_outside kb 128 (kmem (kmm k)) (kmem (kmm k')) \<and> cr3 (kmm k') = cr3 (kmm k)
     \<and> zeos_ticks k' = zeos_ticks k \<and> (console_ok (kcon k) \<longrightarrow> console_ok (kcon k'))"
proof (cases "fd = 1 \<and> 0 \<le> sz \<and> 0x100000 \<le> unat buffer \<and> unat buffer + nat sz < 0x11D000")
  case True
  then obtain m' where "sys_write kb 1 buffer sz k =
       (k\<lparr>kcon := fold printc (read_bytes (kmem (kmm k)) buffer (nat sz)) (kcon k), kmm := (kmm k)\<lparr>kmem := m'\<rparr>\<rparr>, sz)"
     "agree_outside kb 128 (kmem (kmm k)) m'"
    using sys_write_success [OF assms(1,2), of buffer k] by blast
  then show ?thesis using assms(3) True con.fold_put by auto
next
  case False
  then show ?thesis using sys_write_error [OF assms(2) False, of kb k] assms(3) by (auto simp: agree_outside_refl)
qed

lemma syscall_effect:
  assumes "kbuf_ok kb" "dispatch_syscall kb n a b c k = Some (k', r)"
  shows "agree_outside kb 128 (kmem (kmm k)) (kmem (kmm k')) \<and> cr3 (kmm k') = cr3 (kmm k)
     \<and> zeos_ticks k' = zeos_ticks k \<and> (console_ok (kcon k) \<longrightarrow> console_ok (kcon k'))"
proof -
  obtain k1 r1 where w: "sys_write kb (sint a) b (sint c) k = (k1, r1)" by (cases "sys_write kb (sint a) b (sint c) k")
  have "k' = k \<or> k' = k1"
    using assms(2) w by (auto simp: dispatch_syscall_def bind_eq_Some_conv split: if_splits service.splits)
      (metis service.exhaust)
  then show ?thesis using sys_write_effect [OF assms(1) int_range_sint w] by (auto simp: agree_outside_refl)
qed

lemma agree_frozen:
  assumes "layout_ok L" "kstack_ok L kb" "agree_outside kb 128 m m'"
  shows "same_frozen L m m'"
  unfolding same_frozen_def
proof (intro allI impI)
  fix b assume b: "frozen L b"
  have "b \<noteq> kb + of_nat i" if i: "i < 128" for i
  proof -
    have "unat (kb + of_nat i) = unat kb + i"
      using i kstack_kbuf [OF assms(1,2)] by (intro unat_add_small) (simp add: kbuf_ok_def)
    then show ?thesis using b i assms(1,2)
      by (auto simp: frozen_def kstack_ok_def layout_ok_def apart_def)
  qed
  then show "m' b = m b" using assms(3) by (simp add: agree_outside_def)
qed

lemma user_page:
  fixes a :: dword
  assumes P: "protected L k"
    and a: "mmu (kmem (kmm k)) (cr3 (kmm k)) (unat a div 4096) = Some (f, True, w)"
  shows "256 \<le> unat f" "256 \<le> unat a div 4096" "unat a div 4096 < 1024"
proof -
  let ?m = "kmem (kmm k)" and ?dir = "l_dir_pages L"
  have c: "cr3 (kmm k) = ?dir"
    and low: "p < 256 \<Longrightarrow> mmu ?m ?dir p = (if p = 0 then None else Some (of_nat p, False, True))"
    and hi: "p < 1024 \<Longrightarrow> mmu ?m ?dir p = Some (f, True, w) \<Longrightarrow> 256 \<le> unat f" for p
    using P by (auto simp: protected_def Let_def)
  have d: "pte_present (load32 ?m (tbl ?dir 0 e)) = 0" if "0 < e" "e < 1024" for e
    using P that by (simp add: protected_def Let_def)
  have "unat a div 4096 < 2 ^ 20" using unsigned_less [of a, where ?'a = nat] by simp
  then show p: "unat a div 4096 < 1024"
    using a d [of "unat a div 4096 div 1024"] c
    by (cases "unat a div 4096 < 1024") (auto simp: mmu_def pte_view_def Let_def split: if_splits)
  show "256 \<le> unat f" using a c hi p by simp
  show "256 \<le> unat a div 4096"
    using a c low [of "unat a div 4096"] by (cases "unat a div 4096 < 256") (auto split: if_splits)
qed

lemma user_store_frozen:
  assumes L: "layout_ok L" and P: "protected L k"
    and a: "mmu (kmem (kmm k)) (cr3 (kmm k)) (unat a div 4096) = Some (f, True, w)"
  shows "same_frozen L m (user_store f a v m)" "user_store f a v m = m(a := v)"
proof -
  note f = user_page [OF P a]
  have "\<not> frozen L a" using f(2) L by (auto simp: frozen_def layout_ok_def)
  then show "same_frozen L m (user_store f a v m)" using f(1) by (auto simp: same_frozen_def user_store_def)
  show "user_store f a v m = m(a := v)" using f(1) by (simp add: user_store_def)
qed

lemma step_inv:
  assumes "sys_inv L kb show_clock k" "step kb show_clock k e k'"
  shows "protected L k'" and "ks_obs k' = ks_upd e (ks_obs k)"
proof -
  have L: "layout_ok L" and K: "kstack_ok L kb" and S: "show_ok show_clock" and P: "protected L k"
    using assms(1) by (simp_all add: sys_inv_def)
  have co: "console_ok (kcon k)" using P by (simp add: protected_def Let_def)
  have "same_frozen L (kmem (kmm k)) (kmem (kmm k')) \<and> cr3 (kmm k') = cr3 (kmm k) \<and> console_ok (kcon k')
      \<and> zeos_ticks k' = (if e = Tick then zeos_ticks k + 1 else zeos_ticks k)"
    using assms(2)
  proof cases
    case tick
    then show ?thesis using S co by (simp add: clock_routine_def Let_def same_frozen_def show_ok_def)
  next
    case (key x con)
    then show ?thesis using keyboard_ok co by (simp add: same_frozen_def)
  next
    case (syscall n a b c r)
    then show ?thesis
      using syscall_effect [OF kstack_kbuf [OF L K] syscall(2)] agree_frozen [OF L K] co by simp
  next
    case (store a f v)
    then show ?thesis using user_store_frozen(1) [OF L P store(3)] co by simp
  qed
  then show "protected L k'" "ks_obs k' = ks_upd e (ks_obs k)"
    using protected_frozen [OF L P, of k'] by (auto simp: ks_upd_def ks_obs_def prod_eq_iff)
qed

interpretation ks: observed_system "step kb show_clock" "sys_inv L kb show_clock" ks_obs ks_upd for L kb show_clock
  by unfold_locales (auto simp: step_inv(2) sys_inv_def dest: step_inv(1) [rotated])

lemma fold_ks_upd:
  "fold ks_upd es o1 = (fst o1 + of_nat (length (filter (\<lambda>e. e = Tick) es)), snd o1)"
  by (induction es arbitrary: o1) (simp_all add: ks_upd_def)

section \<open>The memory in every run\<close>

text \<open>
  The second observation: all memory but the buffer of \<open>sys_write\<close>. Only stores of the user
  program change it.
\<close>

definition in_kbuf :: "dword \<Rightarrow> dword \<Rightarrow> bool" where
  "in_kbuf kb a \<longleftrightarrow> (\<exists>i<128. a = kb + of_nat i)"

fun stored :: "event \<Rightarrow> mem \<Rightarrow> mem" where
  "stored (Store a v) m = m(a := v)"
| "stored _ m = m"

definition mem_obs :: "dword \<Rightarrow> kernel \<Rightarrow> mem" where
  "mem_obs kb k = (\<lambda>a. if in_kbuf kb a then 0 else kmem (kmm k) a)"

definition mem_upd :: "dword \<Rightarrow> event \<Rightarrow> mem \<Rightarrow> mem" where
  "mem_upd kb e o1 = (\<lambda>a. if in_kbuf kb a then o1 a else stored e o1 a)"

lemma step_memory:
  assumes "sys_inv L kb show_clock k" "step kb show_clock k e k'"
  shows "mem_obs kb k' = mem_upd kb e (mem_obs kb k)"
  using assms(2)
proof cases
  case tick
  then show ?thesis by (auto simp: mem_obs_def mem_upd_def clock_routine_def Let_def fun_eq_iff)
next
  case (key x con)
  then show ?thesis by (auto simp: mem_obs_def mem_upd_def fun_eq_iff)
next
  case (syscall n a b c r)
  have "kbuf_ok kb" using assms(1) kstack_kbuf [of L kb] by (simp add: sys_inv_def)
  then have "agree_outside kb 128 (kmem (kmm k)) (kmem (kmm k'))" using syscall_effect syscall(2) by blast
  then show ?thesis
    by (auto simp: syscall(1) mem_obs_def mem_upd_def in_kbuf_def agree_outside_def fun_eq_iff)
next
  case (store a f v)
  have "layout_ok L" "protected L k" using assms(1) by (simp_all add: sys_inv_def)
  then have "user_store f a v (kmem (kmm k)) = (kmem (kmm k))(a := v)"
    using user_store_frozen(2) store(3) by blast
  then show ?thesis by (auto simp: store(1,2) mem_obs_def mem_upd_def fun_eq_iff)
qed

interpretation ms: observed_system "step kb show_clock" "sys_inv L kb show_clock" "mem_obs kb" "mem_upd kb" for L kb show_clock
  using ks.inv_step step_memory by unfold_locales blast+

lemma fold_mem_upd: "\<not> in_kbuf kb a \<Longrightarrow> o1 a = m a \<Longrightarrow> fold (mem_upd kb) es o1 a = fold stored es m a"
proof (induction es arbitrary: o1 m)
  case (Cons e es)
  have "mem_upd kb e o1 a = stored e m a" using Cons.prems by (cases e) (simp_all add: mem_upd_def)
  then show ?case using Cons.IH Cons.prems(1) by simp
qed simp

lemma run_memory:
  assumes "run (step kb show_clock) k es k'" "sys_inv L kb show_clock k" "\<not> in_kbuf kb a"
  shows "kmem (kmm k') a = fold stored es (kmem (kmm k)) a"
proof -
  have "kmem (kmm k') a = mem_obs kb k' a" using assms(3) by (simp add: mem_obs_def)
  also have "\<dots> = fold (mem_upd kb) es (mem_obs kb k) a" using ms.run_obs [OF assms(1,2)] by simp
  also have "\<dots> = fold stored es (kmem (kmm k)) a"
    using assms(3) by (intro fold_mem_upd) (simp_all add: mem_obs_def)
  finally show ?thesis .
qed

lemma fold_stored_other: "\<forall>v. Store a v \<notin> set es \<Longrightarrow> fold stored es m a = m a"
  proof (induction es arbitrary: m)
  case (Cons e es)
  then have "stored e m a = m a" by (cases e) auto
  then show ?case using Cons by simp
qed simp

text \<open>The stores of a run go to pages that ring 3 may write.\<close>

lemma run_stores:
  assumes "run (step kb show_clock) k es k'" "sys_inv L kb show_clock k" "Store a v \<in> set es"
  shows "\<exists>f. snd (ks_obs k) (unat a div 4096) = Some (f, True, True)"
  using assms
proof (induction rule: run.induct)
  case (run_Cons k e k1 es k2)
  note inv = ks.inv_step [OF run_Cons.prems(1) run_Cons.hyps(1)]
  show ?case
  proof (cases "Store a v = e")
    case True
    have "unat a div 4096 < 2 ^ 20" using unsigned_less [of a, where ?'a = nat] by simp
    then show ?thesis using run_Cons.hyps(1) unfolding True [symmetric] ks_obs_def
      by (elim step_storeE) auto
  next
    case False
    then have "\<exists>f. snd (ks_obs k1) (unat a div 4096) = Some (f, True, True)"
      using run_Cons.IH [OF inv] run_Cons.prems(2) by simp
    then show ?thesis using ks.obs_step [OF run_Cons.prems(1) run_Cons.hyps(1)] by (simp add: ks_upd_def split: if_splits)
  qed
qed simp

section \<open>Progress\<close>

text \<open>
  The events that the code has an answer for: key codes inside the table and every system
  call but the one past the table; and the stores that the user program is entitled to.
\<close>

fun answered :: "event \<Rightarrow> bool" where
  "answered Tick = True"
| "answered (Key e) = (0x80 \<le> e \<or> e AND 0x7f < 98)"
| "answered (Syscall n a b c) = (n \<noteq> 11)"
| "answered (Store a v) = (256 \<le> unat a div 4096 \<and> unat a div 4096 < 276)"

lemma keyboard_answers: "(\<exists>con'. keyboard_routine e con = Some con') \<longleftrightarrow> 0x80 \<le> e \<or> e AND 0x7f < 98"
proof -
  have "unat (e AND 0x7f) < 98 \<longleftrightarrow> e AND 0x7f < 98" by (simp add: word_less_nat_alt)
  moreover have "unat e < 128 \<longleftrightarrow> \<not> 0x80 \<le> e" by (simp add: word_le_nat_alt not_le)
  ultimately show ?thesis
    by (auto simp: keyboard_routine_def byte_top rd_def char_map_length Let_def)
qed

lemma syscall_answers:
  assumes "kbuf_ok kb"
  shows "(\<exists>k' r. dispatch_syscall kb n a b c k = Some (k', r)) \<longleftrightarrow> n \<noteq> 11"
proof -
  have "\<exists>k' r. dispatch_syscall kb n a b c k = Some (k', r)" if "n \<noteq> 11"
    using syscall_spec_total [OF that] dispatch_refines [OF assms] by blast
  then show ?thesis by (auto simp: dispatch_past)
qed

lemma no_step:
  assumes "kbuf_ok kb" "step kb show_clock k e k'"
  shows "answered e \<or> (\<exists>a v. e = Store a v)"
  using assms(2)
proof cases
  case (key x con)
  then show ?thesis using keyboard_answers [of x "kcon k"] by auto
next
  case (syscall n a b c r)
  then show ?thesis using syscall_answers [OF assms(1), of n a b c k] by auto
qed auto

definition data_mapped :: "kernel \<Rightarrow> bool" where
  "data_mapped k \<longleftrightarrow> (\<forall>p. 256 \<le> p \<and> p < 276 \<longrightarrow> (\<exists>f. mmu (kmem (kmm k)) (cr3 (kmm k)) p = Some (f, True, True)))"

lemma step_possible:
  assumes "sys_inv L kb show_clock k" "data_mapped k" "answered e"
  shows "\<exists>k'. step kb show_clock k e k'"
proof (cases e)
  case Tick
  then show ?thesis using step.tick by blast
next
  case (Key x)
  then show ?thesis using assms(3) keyboard_answers [of x "kcon k"] by (auto intro: step.key)
next
  case (Syscall n a b c)
  have "kbuf_ok kb" using assms(1) kstack_kbuf [of L kb] by (simp add: sys_inv_def)
  then show ?thesis using assms(3) Syscall syscall_answers [of kb n a b c k] by (auto intro: step.syscall)
next
  case (Store a v)
  then obtain f where "mmu (kmem (kmm k)) (cr3 (kmm k)) (unat a div 4096) = Some (f, True, True)"
    using assms(2,3) by (auto simp: data_mapped_def)
  then show ?thesis unfolding Store by (blast intro: step.store)
qed

lemma data_mapped_obs: "data_mapped k \<longleftrightarrow> (\<forall>p. 256 \<le> p \<and> p < 276 \<longrightarrow> (\<exists>f. snd (ks_obs k) p = Some (f, True, True)))"
  by (simp add: data_mapped_def ks_obs_def)

lemma run_possible:
  assumes "sys_inv L kb show_clock k" "data_mapped k" "\<forall>e\<in>set es. answered e"
  shows "\<exists>k'. run (step kb show_clock) k es k'"
  using assms
proof (induction es arbitrary: k)
  case Nil
  show ?case by (rule exI, rule run_Nil)
next
  case (Cons e es)
  from Cons.prems obtain k1 where k1: "step kb show_clock k e k1" using step_possible [of L kb show_clock k e] by auto
  have "sys_inv L kb show_clock k1" using ks.inv_step [OF Cons.prems(1) k1] .
  moreover have "data_mapped k1"
    using Cons.prems(2) ks.obs_step [OF Cons.prems(1) k1] unfolding data_mapped_obs by (simp add: ks_upd_def)
  ultimately obtain k2 where "run (step kb show_clock) k1 es k2" using Cons.IH Cons.prems(3) by auto
  then show ?case using run_Cons [where st = "step kb show_clock", OF k1] by blast
qed

end
