(* ===== verification/Zeos_Physical.thy ===== *)
theory Zeos_Physical
  imports Zeos_Run
begin

text \<open>
  The memory of the model is indexed by logical addresses, as the pointers of the code are.
  Here it is related to physical memory, in which the processor finds the page tables and
  which it reaches through them: the kernel's pages at their own address, a user page in its
  frame. A physical memory is faithful to a logical one if every mapped address shows the byte
  that the logical memory has there; the steps of the running system keep it so.
\<close>

definition frame_addr :: "dword \<Rightarrow> dword \<Rightarrow> dword" where
  "frame_addr f a = push_bit 12 f + take_bit 12 a"

text \<open>The walk of the paging unit through tables in the memory \<open>P\<close>.\<close>

definition translate :: "mem \<Rightarrow> dword \<Rightarrow> dword \<Rightarrow> dword option" where
  "translate P dir a = map_option (\<lambda>(f, u, w). frame_addr f a) (mmu P dir (unat a div 4096))"

definition faithful :: "mem \<Rightarrow> dword \<Rightarrow> mem \<Rightarrow> bool" where
  "faithful P dir m \<longleftrightarrow> (\<forall>a. unat a < 0x100000 \<longrightarrow> P a = m a)
     \<and> (\<forall>a pa. translate P dir a = Some pa \<longrightarrow> P pa = m a)"

text \<open>No two pages share a frame, and no page above the kernel is on a kernel frame.\<close>

definition private_frames :: "mem \<Rightarrow> dword \<Rightarrow> bool" where
  "private_frames m dir \<longleftrightarrow>
     (\<forall>p<2 ^ 20. \<forall>q<2 ^ 20. mmu m dir p \<noteq> None \<longrightarrow> map_option fst (mmu m dir p) = map_option fst (mmu m dir q) \<longrightarrow> p = q)
     \<and> (\<forall>p<2 ^ 20. \<forall>f u w. 256 \<le> p \<longrightarrow> mmu m dir p = Some (f, u, w) \<longrightarrow> 256 \<le> unat f)"

text \<open>
  A step on physical memory: a store of the user program writes the one byte that the paging
  unit leads to; a handler, whose flat memory is \<open>m'\<close> afterwards, writes kernel pages, which
  are at their own address.
\<close>

definition phys_step :: "event \<Rightarrow> dword \<Rightarrow> mem \<Rightarrow> mem \<Rightarrow> mem" where
  "phys_step e dir m' P = (case e of
     Store a v \<Rightarrow> (case translate P dir a of Some pa \<Rightarrow> P(pa := v) | None \<Rightarrow> P)
   | _ \<Rightarrow> (\<lambda>b. if unat b < 0x100000 then m' b else P b))"

definition pstep :: "dword \<Rightarrow> (dword \<Rightarrow> console \<Rightarrow> console) \<Rightarrow> mem \<times> kernel \<Rightarrow> event \<Rightarrow> mem \<times> kernel \<Rightarrow> bool" where
  "pstep kb show_clock = (\<lambda>(P, k) e (P', k').
     step kb show_clock k e k' \<and> P' = phys_step e (cr3 (kmm k)) (kmem (kmm k')) P)"

definition phys_inv :: "layout \<Rightarrow> dword \<Rightarrow> (dword \<Rightarrow> console \<Rightarrow> console) \<Rightarrow> mem \<times> kernel \<Rightarrow> bool" where
  "phys_inv L kb show_clock = (\<lambda>(P, k). sys_inv L kb show_clock k
     \<and> faithful P (cr3 (kmm k)) (kmem (kmm k)) \<and> private_frames (kmem (kmm k)) (cr3 (kmm k)))"

section \<open>Translation\<close>

lemma mmu_frame:
  assumes "mmu m dir p = Some (f, u, w)"
  shows "unat f < 2 ^ 20"
proof -
  have "f = take_bit 20 f"
    using assms by (auto simp: mmu_def pte_view_def Let_def pte_pbase_addr_def get_field_def split: if_splits)
  then have "unat f = take_bit 20 (unat f)" by (metis unsigned_take_bit_eq)
  then show ?thesis by (metis take_bit_nat_less_exp)
qed

lemma unat_frame_addr:
  assumes "unat f < 2 ^ 20"
  shows "unat (frame_addr f a) = 4096 * unat f + unat a mod 4096"
proof -
  have "unat (push_bit 12 f) = 4096 * unat f"
    using assms by (simp add: push_bit_eq_mult unat_word_ariths)
  moreover have "unat (take_bit 12 a) = unat a mod 4096" by (simp add: unsigned_take_bit_eq take_bit_eq_mod unat_mod)
  moreover have "4096 * unat f + unat a mod 4096 < 2 ^ 32"
  proof -
    have "4096 * unat f + unat a mod 4096 < 4096 * (unat f + 1)" by simp
    also have "\<dots> \<le> 4096 * 2 ^ 20" using assms by (intro mult_le_mono2) simp
    finally show ?thesis by simp
  qed
  ultimately show ?thesis unfolding frame_addr_def by (subst unat_plus_if_size) (simp add: word_size)
qed

lemma frame_addr_eq:
  assumes "unat f < 2 ^ 20" "unat g < 2 ^ 20" "frame_addr f a = frame_addr g b"
  shows "f = g" "unat a mod 4096 = unat b mod 4096"
proof -
  have e: "4096 * unat f + unat a mod 4096 = 4096 * unat g + unat b mod 4096"
    using assms unat_frame_addr by metis
  have "(4096 * unat f + unat a mod 4096) div 4096 = unat f" "(4096 * unat g + unat b mod 4096) div 4096 = unat g"
    by simp_all
  then show "f = g" using e by (simp add: word_unat_eq_iff)
  then show "unat a mod 4096 = unat b mod 4096" using e by simp
qed

lemma page_bound: "unat (a :: dword) div 4096 < 2 ^ 20"
  using unsigned_less [of a, where ?'a = nat] by (simp add: less_mult_imp_div_less)

lemma frame_addr_id: "frame_addr (of_nat (unat a div 4096)) a = a"
proof -
  have "unat (of_nat (unat a div 4096) :: dword) = unat a div 4096"
    using page_bound [of a] by (simp add: unat_of_nat)
  then have "unat (frame_addr (of_nat (unat a div 4096)) a) = 4096 * (unat a div 4096) + unat a mod 4096"
    using unat_frame_addr [of "of_nat (unat a div 4096)" a] page_bound [of a] by metis
  then show ?thesis by (simp add: word_unat_eq_iff)
qed

lemma translate_inj:
  assumes "private_frames m dir" "translate m dir a = Some pa" "translate m dir b = Some pa"
  shows "a = b"
proof -
  obtain f u w g u' w' where m: "mmu m dir (unat a div 4096) = Some (f, u, w)" "mmu m dir (unat b div 4096) = Some (g, u', w')"
    and pa: "pa = frame_addr f a" "pa = frame_addr g b"
    using assms(2,3) by (auto simp: translate_def)
  have eq: "f = g" "unat a mod 4096 = unat b mod 4096"
    using frame_addr_eq [OF mmu_frame [OF m(1)] mmu_frame [OF m(2)]] pa by metis+
  have "unat a div 4096 = unat b div 4096"
    using assms(1) m eq(1) page_bound [of a] page_bound [of b] unfolding private_frames_def by (metis fst_conv option.distinct(1) option.simps(9))
  then show ?thesis using eq(2) by (metis div_mult_mod_eq word_unat_eq_iff)
qed

section \<open>The invariant\<close>

lemma sys_inv_low:
  assumes "sys_inv L kb sc k" "unat a < 0x100000" "translate (kmem (kmm k)) (cr3 (kmm k)) a = Some pa"
  shows "pa = a"
proof -
  have "unat a div 4096 < 256" using assms(2) by (simp add: less_mult_imp_div_less)
  then have "mmu (kmem (kmm k)) (cr3 (kmm k)) (unat a div 4096) \<in> {None, Some (of_nat (unat a div 4096), False, True)}"
    using assms(1) by (simp add: sys_inv_def protected_def Let_def)
  then show ?thesis using assms(3) by (auto simp: translate_def frame_addr_id)
qed

lemma translate_high:
  assumes "private_frames m dir" "0x100000 \<le> unat a" "translate m dir a = Some pa"
  shows "0x100000 \<le> unat pa"
proof -
  obtain f u w where f: "mmu m dir (unat a div 4096) = Some (f, u, w)" "pa = frame_addr f a"
    using assms(3) by (auto simp: translate_def)
  have "256 \<le> unat a div 4096" using div_le_mono [OF assms(2), of 4096] by simp
  then have "256 \<le> unat f" using assms(1) f(1) page_bound [of a] unfolding private_frames_def by blast
  then show ?thesis using unat_frame_addr [OF mmu_frame [OF f(1)], of a] f(2) by simp
qed

text \<open>The tables are in kernel pages, so physical and logical memory have the same ones.\<close>

lemma translate_same:
  assumes "sys_inv L kb sc k" "\<And>a. unat a < 0x100000 \<Longrightarrow> P a = kmem (kmm k) a"
  shows "translate P (cr3 (kmm k)) a = translate (kmem (kmm k)) (cr3 (kmm k)) a"
proof -
  let ?m = "kmem (kmm k)"
  have L: "layout_ok L" and c: "cr3 (kmm k) = l_dir_pages L" "task_ok L ?m 0"
    using assms(1) by (simp_all add: sys_inv_def protected_def Let_def)
  have d: "pte_present (load32 ?m (tbl (l_dir_pages L) 0 d)) = 0" if "0 < d" "d < 1024" for d
    using assms(1) that by (simp add: sys_inv_def protected_def Let_def)
  have "same_frozen L ?m P" using L assms(2) by (auto simp: same_frozen_def frozen_def layout_ok_def)
  then have "mmu P (l_dir_pages L) (unat a div 4096) = mmu ?m (l_dir_pages L) (unat a div 4096)"
    by (rule mmu_frozen [OF L _ c(2) d page_bound])
  then show ?thesis by (simp add: translate_def c(1))
qed

lemma faithful_step:
  assumes I: "sys_inv L kb sc k" and F: "faithful P (cr3 (kmm k)) (kmem (kmm k))"
    and R: "private_frames (kmem (kmm k)) (cr3 (kmm k))" and s: "step kb sc k e k'"
  shows "faithful (phys_step e (cr3 (kmm k)) (kmem (kmm k')) P) (cr3 (kmm k')) (kmem (kmm k'))"
proof -
  let ?m = "kmem (kmm k)" and ?m' = "kmem (kmm k')" and ?dir = "cr3 (kmm k)"
  let ?P' = "phys_step e ?dir ?m' P"
  have I': "sys_inv L kb sc k'" using ks.inv_step [OF I s] .
  have "protected L k" "protected L k'" using I I' by (simp_all add: sys_inv_def)
  then have dir: "cr3 (kmm k') = ?dir" by (simp add: protected_def Let_def)
  have "snd (ks_obs k') = snd (ks_obs k)" using ks.obs_step [OF I s] by (simp add: ks_upd_def)
  then have "mmu ?m' ?dir p = mmu ?m ?dir p" if "p < 2 ^ 20" for p
    using that dir by (auto simp: ks_obs_def fun_eq_iff split: if_splits)
  then have tr: "translate ?m' ?dir a = translate ?m ?dir a" for a unfolding translate_def using page_bound [of a] by metis
  have low: "P a = ?m a" if "unat a < 0x100000" for a using F that by (simp add: faithful_def)
  have trP: "translate P ?dir a = translate ?m ?dir a" for a by (rule translate_same [OF I low])
  have main: "(\<forall>a. unat a < 0x100000 \<longrightarrow> ?P' a = ?m' a) \<and> (\<forall>a pa. translate ?m ?dir a = Some pa \<longrightarrow> ?P' pa = ?m' a)"
  proof (cases "\<exists>a v. e = Store a v")
    case True
    then obtain a v where e: "e = Store a v" by blast
    from s [unfolded e] obtain f where f: "mmu ?m ?dir (unat a div 4096) = Some (f, True, True)"
      "?m' = user_store f a v ?m" by (elim step_storeE) simp
    have hi: "0x100000 \<le> unat a"
    proof (rule ccontr)
      assume "\<not> 0x100000 \<le> unat a"
      then have "unat a div 4096 < 256" by (simp add: less_mult_imp_div_less)
      then show False using I f(1) by (auto simp: sys_inv_def protected_def Let_def split: if_splits)
    qed
    have t: "translate ?m ?dir a = Some (frame_addr f a)" using f(1) by (simp add: translate_def)
    have "256 \<le> unat a div 4096" using div_le_mono [OF hi, of 4096] by simp
    then have "256 \<le> unat f" using R f(1) page_bound [of a] unfolding private_frames_def by blast
    then have m': "?m' = ?m(a := v)" using f(2) by (simp add: user_store_def)
    have P': "?P' = P(frame_addr f a := v)" by (simp add: phys_step_def e trP t)
    show ?thesis
      unfolding P' unfolding m' using hi low translate_high [OF R hi t] translate_inj [OF R _ t] F trP t
      by (auto simp: faithful_def)
  next
    case False
    then have P': "?P' = (\<lambda>b. if unat b < 0x100000 then ?m' b else P b)"
      by (cases e) (simp_all add: phys_step_def)
    have same: "?m' a = ?m a" if "0x100000 \<le> unat a" for a
      using s
    proof cases
      case (syscall n x y z r)
      have kb: "kbuf_ok kb" using I by (auto simp: sys_inv_def intro: kstack_kbuf)
      have "a \<noteq> kb + of_nat i" if "i < 128" for i
        using unat_add_small [of kb i] kb that \<open>0x100000 \<le> unat a\<close> by (auto simp: kbuf_ok_def)
      then show ?thesis using syscall_effect [OF kb syscall(2)] by (simp add: agree_outside_def)
    qed (use False in \<open>simp_all add: clock_routine_def Let_def\<close>)
    have "?P' pa = ?m' a" if t: "translate ?m ?dir a = Some pa" for a pa
    proof (cases "unat a < 0x100000")
      case True
      then show ?thesis using sys_inv_low [OF I True t] P' by simp
    next
      case False
      then have "0x100000 \<le> unat pa" using translate_high [OF R _ t] by simp
      then show ?thesis using P' same [of a] F trP t False by (auto simp: faithful_def)
    qed
    then show ?thesis using P' by simp
  qed
  have "translate ?P' ?dir a = translate ?m ?dir a" for a
    using translate_same [OF I', of ?P'] main tr dir by simp
  with main show ?thesis by (simp add: faithful_def dir)
qed

lemma private_step:
  assumes "sys_inv L kb sc k" "step kb sc k e k'" "private_frames (kmem (kmm k)) (cr3 (kmm k))"
  shows "private_frames (kmem (kmm k')) (cr3 (kmm k'))"
proof -
  have "snd (ks_obs k') = snd (ks_obs k)" using ks.obs_step [OF assms(1,2)] by (simp add: ks_upd_def)
  then have "mmu (kmem (kmm k')) (cr3 (kmm k')) p = mmu (kmem (kmm k)) (cr3 (kmm k)) p" if "p < 2 ^ 20" for p
    using that by (auto simp: ks_obs_def fun_eq_iff split: if_splits)
  then show ?thesis using assms(3) unfolding private_frames_def by metis
qed

interpretation ps: observed_system "pstep kb sc" "phys_inv L kb sc" "\<lambda>(P, k). ks_obs k" ks_upd for L kb sc
proof unfold_locales
  fix s s' e assume "phys_inv L kb sc s" "pstep kb sc s e s'"
  then show "phys_inv L kb sc s'" and "(\<lambda>(P, k). ks_obs k) s' = ks_upd e ((\<lambda>(P, k). ks_obs k) s)"
    by (auto simp: phys_inv_def pstep_def intro: ks.inv_step faithful_step private_step dest: ks.obs_step)
qed

text \<open>Runs on logical memory and runs on both memories are the same.\<close>

lemma run_lift: "run (step kb sc) k es k' \<Longrightarrow> \<exists>P'. run (pstep kb sc) (P, k) es (P', k')"
proof (induction arbitrary: P rule: run.induct)
  case (run_Nil s)
  show ?case by (rule exI, rule run.run_Nil)
next
  case (run_Cons s e s1 es s2)
  let ?P1 = "phys_step e (cr3 (kmm s)) (kmem (kmm s1)) P"
  have "pstep kb sc (P, s) e (?P1, s1)" using run_Cons.hyps by (simp add: pstep_def)
  moreover obtain P' where "run (pstep kb sc) (?P1, s1) es (P', s2)" using run_Cons.IH [of ?P1] by blast
  ultimately show ?case using run.run_Cons [where st = "pstep kb sc"] by blast
qed

lemma run_forget: "run (pstep kb sc) s es s' \<Longrightarrow> run (step kb sc) (snd s) es (snd s')"
proof (induction rule: run.induct)
  case (run_Nil s)
  show ?case by (rule run.run_Nil)
next
  case (run_Cons s e s1 es s2)
  then have "step kb sc (snd s) e (snd s1)" by (auto simp: pstep_def split: prod.splits)
  then show ?case using run_Cons.IH by (rule run.run_Cons)
qed

lemma run_lifts: "run (step kb sc) k es k' \<longleftrightarrow> (\<exists>P'. run (pstep kb sc) (P, k) es (P', k'))"
  using run_lift run_forget by fastforce

text \<open>What the invariant says of the memory.\<close>

lemma phys_inv_memory:
  assumes "phys_inv L kb sc (P, k)"
  shows "(\<forall>a pa. translate P (cr3 (kmm k)) a = Some pa \<longrightarrow> P pa = kmem (kmm k) a)
     \<and> (\<forall>a b pa. translate P (cr3 (kmm k)) a = Some pa \<and> translate P (cr3 (kmm k)) b = Some pa \<longrightarrow> a = b)"
proof -
  have I: "sys_inv L kb sc k" and F: "faithful P (cr3 (kmm k)) (kmem (kmm k))"
    and R: "private_frames (kmem (kmm k)) (cr3 (kmm k))" using assms by (simp_all add: phys_inv_def)
  have "translate P (cr3 (kmm k)) a = translate (kmem (kmm k)) (cr3 (kmm k)) a" for a
    using F by (intro translate_same [OF I]) (simp add: faithful_def)
  then show ?thesis using F translate_inj [OF R] by (auto simp: faithful_def)
qed

text \<open>Some physical memory is faithful to a given logical one.\<close>

lemma faithful_exists:
  assumes "sys_inv L kb sc k" "private_frames (kmem (kmm k)) (cr3 (kmm k))"
  shows "\<exists>P. faithful P (cr3 (kmm k)) (kmem (kmm k))"
proof -
  let ?m = "kmem (kmm k)" and ?dir = "cr3 (kmm k)"
  let ?P = "\<lambda>pa. if unat pa < 0x100000 then ?m pa else ?m (THE a. translate ?m ?dir a = Some pa)"
  have tr: "translate ?P ?dir a = translate ?m ?dir a" for a by (rule translate_same [OF assms(1)]) simp
  have "?P pa = ?m a" if t: "translate ?m ?dir a = Some pa" for a pa
  proof (cases "unat a < 0x100000")
    case True
    then show ?thesis using sys_inv_low [OF assms(1) True t] by simp
  next
    case False
    then have "\<not> unat pa < 0x100000" using translate_high [OF assms(2) _ t] by simp
    moreover have "(THE a. translate ?m ?dir a = Some pa) = a"
      using t translate_inj [OF assms(2) _ t] by (intro the_equality)
    ultimately show ?thesis by simp
  qed
  then show ?thesis unfolding faithful_def by (intro exI [of _ ?P]) (simp add: tr)
qed

end
