(* ===== verification/Zeos_Booted.thy ===== *)
theory Zeos_Booted
  imports Zeos_System Zeos_Physical
begin

text \<open>
  From \<open>main\<close> to the running system: the address space that \<open>init_mm\<close> and \<open>set_user_pages\<close>
  give to task 0, and the kernel state in which \<open>main\<close> leaves for ring 3 as a start of the
  runs of \<open>Zeos_Run\<close>.
\<close>

section \<open>Initial address space\<close>

text \<open>
  The address space of task 0 after \<open>init_mm\<close> and \<open>set_user_pages\<close>: identity-mapped
  kernel pages, code pages on the frames \<open>cs\<close>, data pages on the frames \<open>ds\<close>.
\<close>

definition task0_space :: "nat list \<Rightarrow> nat list \<Rightarrow> nat \<Rightarrow> (dword \<times> bool \<times> bool) option" where
  "task0_space cs ds p =
     (if 1 \<le> p \<and> p < 256 then Some (of_nat p, False, True)
      else if 256 \<le> p \<and> p < 276 then Some (of_nat (ds ! (p - 256)), True, True)
      else if 276 \<le> p \<and> p < 284 then Some (of_nat (cs ! (p - 276)), True, False)
      else None)"

definition dir_rest_clear :: "layout \<Rightarrow> mem \<Rightarrow> bool" where
  "dir_rest_clear L m \<longleftrightarrow> (\<forall>d. 0 < d \<and> d < 1024 \<longrightarrow> load32 m (tbl (l_dir_pages L) 0 d) = 0)"

lemma mmu_beyond:
  assumes "\<And>d. 0 < d \<Longrightarrow> d < 1024 \<Longrightarrow> load32 m (tbl dir 0 d) = 0" "1024 \<le> p" "p < 2 ^ 20"
  shows "mmu m dir p = None"
proof -
  have "0 < p div 1024" "p div 1024 < 1024" using assms(2,3) by (simp_all add: div_greater_zero_iff)
  then show ?thesis using assms(1) by (simp add: mmu_def pte_view_def)
qed

lemma initial_space:
  assumes L: "layout_ok L" and len: "length (phys_mem s0) = 1024" and z: "dir_rest_clear L (kmem s0)"
  obtains s1 s2 cs ds where
    "init_mm L s0 = Some s1" "set_user_pages (task_addr L 0) s1 = Some s2"
    "length cs = 8" "length ds = 20" "distinct (cs @ ds)" "\<forall>f\<in>set (cs @ ds). 256 \<le> f \<and> f < 1024"
    "task_ok L (kmem s2) 0" "cr3 s2 = l_dir_pages L" "dir_rest_clear L (kmem s2)"
    "\<And>p. p < 2 ^ 20 \<Longrightarrow> mmu (kmem s2) (l_dir_pages L) p = task0_space cs ds p"
proof -
  obtain m1 where m1: "init_mm L s0 = Some (s0\<lparr>kmem := m1, phys_mem := fresh_map, cr3 := tbl (l_dir_pages L) 0 0,
      cr0 := cr0 s0 OR 0x80000000\<rparr>)" "task_ok L m1 0" "inited L (kmem s0) m1"
    by (rule init_mm_spec [OF L len]) (rule that)
  let ?s1 = "s0\<lparr>kmem := m1, phys_mem := fresh_map, cr3 := tbl (l_dir_pages L) 0 0, cr0 := cr0 s0 OR 0x80000000\<rparr>"
  have room: "28 \<le> card (pool (phys_mem ?s1))" using card_even_frames by (simp add: pool_init)
  have t: "task_ok L (kmem ?s1) 0" "frames_ok (phys_mem ?s1)" using m1(2) frames_ok_init by simp_all
  obtain s2 cs ds where s2: "set_user_pages (task_addr L 0) ?s1 = Some s2"
    "length cs = 8" "length ds = 20" "distinct (cs @ ds)" "set (cs @ ds) \<subseteq> pool (phys_mem ?s1)"
    "\<And>p. p < 1024 \<Longrightarrow> mmu (kmem s2) (tbl (l_dir_pages L) 0 0) p =
       (if 256 \<le> p \<and> p < 276 then Some (of_nat (ds ! (p - 256)), True, True)
        else if 276 \<le> p \<and> p < 284 then Some (of_nat (cs ! (p - 276)), True, False)
        else mmu (kmem ?s1) (tbl (l_dir_pages L) 0 0) p)"
    "task_ok L (kmem s2) 0" "cr3 s2 = cr3 ?s1"
    "\<And>d. d < 1024 \<Longrightarrow> load32 (kmem s2) (tbl (l_dir_pages L) 0 d) = load32 (kmem ?s1) (tbl (l_dir_pages L) 0 d)"
    using set_user_pages_maps [OF L _ t room] t(1) by auto
  have fr: "\<forall>f\<in>set (cs @ ds). 256 \<le> f \<and> f < 1024" using s2(5) by (auto simp: pool_def)
  have clear: "dir_rest_clear L (kmem s2)"
    using z s2(9) inited_rest [OF L m1(3)] by (simp add: dir_rest_clear_def)
  have ident: "mmu m1 (tbl (l_dir_pages L) 0 0) p = (if 1 \<le> p \<and> p < 256 then Some (of_nat p, False, True) else None)"
    if "p < 1024" for p
    using that mmu_low [OF inited_dir [OF L m1(3), of 0] layout_rows(2) [OF L, of 0] that]
      inited_pt [OF L m1(3) _ that, of 0] by (simp add: tbl_row init_pte_def take_bit_frame)
  have "mmu (kmem s2) (l_dir_pages L) p = task0_space cs ds p" if p: "p < 2 ^ 20" for p
  proof (cases "p < 1024")
    case True
    then show ?thesis using s2(6) [OF True] ident [OF True] by (simp add: task0_space_def)
  next
    case False
    then show ?thesis using mmu_beyond [of "kmem s2" "l_dir_pages L" p] clear p
      by (simp add: task0_space_def dir_rest_clear_def)
  qed
  with that [OF m1(1) s2(1-4) fr s2(7) _ clear] s2(8) show thesis by simp
qed

lemma initial_protected:
  assumes "task_ok L (kmem s2) 0" "cr3 s2 = l_dir_pages L" "dir_rest_clear L (kmem s2)" "console_ok con"
    and "\<And>p. p < 2 ^ 20 \<Longrightarrow> mmu (kmem s2) (l_dir_pages L) p = task0_space cs ds p"
    and "length cs = 8" "length ds = 20" "\<forall>f\<in>set (cs @ ds). 256 \<le> f \<and> f < 1024"
  shows "protected L \<lparr>zeos_ticks = t, kcon = con, kmm = s2\<rparr>"
proof -
  have fr: "256 \<le> unat f" if "p < 1024" "task0_space cs ds p = Some (f, True, w)" for p f w
  proof -
    have "\<exists>g. f = of_nat g \<and> g \<in> set (cs @ ds)"
      using that assms(6,7) by (auto simp: task0_space_def split: if_splits)
    then obtain g where g: "f = of_nat g" "256 \<le> g" "g < 1024" using assms(8) by blast
    then show ?thesis by (simp add: unat_of_nat)
  qed
  have low: "task0_space cs ds p = (if p = 0 then None else Some (of_nat p, False, True))" if "p < 256" for p
    using that by (simp add: task0_space_def)
  show ?thesis
    using assms(1-4) fr low by (auto simp: protected_def Let_def dir_rest_clear_def assms(5))
qed

lemma initial_private:
  assumes "\<And>p. p < 2 ^ 20 \<Longrightarrow> mmu m dir p = task0_space cs ds p"
    and "length cs = 8" "length ds = 20" "distinct (cs @ ds)" "\<forall>f\<in>set (cs @ ds). 256 \<le> f \<and> f < 1024"
  shows "private_frames m dir"
proof -
  let ?fr = "\<lambda>p. if p < 256 then p else if p < 276 then ds ! (p - 256) else cs ! (p - 276)"
  have sp: "task0_space cs ds p = (if 1 \<le> p \<and> p < 284
      then Some (of_nat (?fr p), 256 \<le> p, p < 276) else None)" for p
    by (simp add: task0_space_def)
  have hi: "256 \<le> ?fr p \<and> ?fr p < 1024" if "256 \<le> p" "p < 284" for p using that assms(2,3,5) by simp
  have lt: "?fr p < 1024" if "p < 284" for p using hi [of p] that by (cases "p < 256") auto
  have "p = q" if "p < 284" "q < 284" "?fr p = ?fr q" for p q
  proof -
    consider "p < 256" "q < 256" | "256 \<le> p" "p < 276" "256 \<le> q" "q < 276" | "276 \<le> p" "276 \<le> q"
      | "256 \<le> p" "p < 276" "276 \<le> q" | "276 \<le> p" "256 \<le> q" "q < 276" | "p < 256" "256 \<le> q" | "256 \<le> p" "q < 256"
      by linarith
    then show ?thesis
    proof cases
      case 2
      then have "p - 256 = q - 256" using that(3) assms(3,4) by (simp add: nth_eq_iff_index_eq)
      then show ?thesis using 2 by simp
    next
      case 3
      then have "p - 276 = q - 276" using that assms(2,4) by (simp add: nth_eq_iff_index_eq)
      then show ?thesis using 3 by simp
    next
      case 4
      then have "p - 256 < length ds" "q - 276 < length cs" using that assms(2,3) by simp_all
      then have "ds ! (p - 256) \<in> set ds" "cs ! (q - 276) \<in> set cs" by (simp_all only: nth_mem)
      then show ?thesis using 4 that(3) assms(4) by auto
    next
      case 5
      then have "q - 256 < length ds" "p - 276 < length cs" using that assms(2,3) by simp_all
      then have "ds ! (q - 256) \<in> set ds" "cs ! (p - 276) \<in> set cs" by (simp_all only: nth_mem)
      then show ?thesis using 5 that(3) assms(4) by auto
    qed (use that hi [of p] hi [of q] in auto)
  qed
  note same = this
  have inj: "p = q" if "p < 284" "q < 284" "(of_nat (?fr p) :: dword) = of_nat (?fr q)" for p q
  proof (rule same [OF that(1,2)])
    have big: "(1024 :: nat) < 2 ^ 32" by simp
    have "?fr p < 2 ^ 32" "?fr q < 2 ^ 32"
      by (rule less_trans [OF lt [OF that(1)] big], rule less_trans [OF lt [OF that(2)] big])
    then show "?fr p = ?fr q" using that(3) by (rule iffD1 [OF of_nat_inj32])
  qed
  have "256 \<le> unat (of_nat (?fr p) :: dword)" if "256 \<le> p" "p < 284" for p
    using hi [OF that] by (subst unat_of_nat) simp
  note high = this
  define fr where "fr = ?fr"
  have f: "p < 284 \<and> f = of_nat (fr p)" if "p < 2 ^ 20" "mmu m dir p = Some (f, u, w)" for p f u w
    using that(2) unfolding assms(1) [OF that(1)] sp by (auto simp: fr_def split: if_split_asm)
  show ?thesis
    unfolding private_frames_def
  proof (intro conjI allI impI)
    fix p q :: nat
    assume b: "p < 2 ^ 20" "q < 2 ^ 20" and s: "mmu m dir p \<noteq> None" "map_option fst (mmu m dir p) = map_option fst (mmu m dir q)"
    then obtain f u w u' w' where e: "mmu m dir p = Some (f, u, w)" "mmu m dir q = Some (f, u', w')"
      by (cases "mmu m dir p"; cases "mmu m dir q") auto
    show "p = q"
      using f [OF b(1) e(1)] f [OF b(2) e(2)] by (intro inj) (auto simp: fr_def)
  next
    fix p f u w
    assume b: "p < (2 :: nat) ^ 20" "256 \<le> p" "mmu m dir p = Some (f, u, w)"
    show "256 \<le> unat f" using f [OF b(1,3)] high [OF b(2)] by (simp add: fr_def)
  qed
qed

section \<open>The layout that the linker gives\<close>

text \<open>
  The end of \<^verbatim>\<open>system.lds\<close>: after the other sections, which end at \<open>dot\<close>, the section
  \<open>.data.task\<close> starts at the next multiple of 4096. It has the array of \<^verbatim>\<open>sched.o\<close> and then
  the two of \<^verbatim>\<open>mm.o\<close>, in an order that the compiler chooses; each takes ten pages.
\<close>

definition align_up :: "nat \<Rightarrow> nat \<Rightarrow> nat" where
  "align_up n dot = (dot + (n - 1)) div n * n"

definition linked_layout :: "bool \<Rightarrow> nat \<Rightarrow> layout" where
  "linked_layout swapped dot =
     (let dot = align_up 4096 dot;
          task = dot;
          dot = dot + NR_TASKS * (4 * KERNEL_STACK_SIZE);
          first = dot;
          dot = dot + NR_TASKS * (4 * TOTAL_PAGES);
          second = dot
      in \<lparr>l_dir_pages = of_nat (if swapped then second else first),
          l_pagusr_table = of_nat (if swapped then first else second), l_task = of_nat task\<rparr>)"

lemma align_up_bounds: "dot \<le> align_up 4096 dot" "align_up 4096 dot < dot + 4096" "align_up 4096 dot mod 4096 = 0"
  unfolding align_up_def by simp_all

lemma linked_layout_ok:
  assumes "0x1000C \<le> dot" "align_up 4096 dot + 122880 \<le> 0x100000"
  shows "layout_ok (linked_layout swapped dot)"
    and "\<forall>a\<in>{l_dir_pages (linked_layout swapped dot), l_pagusr_table (linked_layout swapped dot), l_task (linked_layout swapped dot)}.
           0x1000C \<le> unat a \<and> unat a + 40960 \<le> align_up 4096 dot + 122880"
proof -
  let ?b = "align_up 4096 dot"
  have u: "unat (of_nat ?b :: dword) = ?b" "unat (of_nat (?b + 40960) :: dword) = ?b + 40960"
    "unat (of_nat (?b + 81920) :: dword) = ?b + 81920"
    using assms(2) by (simp_all only: unat_of_nat) simp_all
  then have u4: "unat (of_nat (81920 + ?b) :: dword) = ?b + 81920" by (metis add.commute)
  have m: "?b mod 4096 = 0" "(?b + 40960) mod 4096 = 0" "(?b + 81920) mod 4096 = 0"
    using align_up_bounds(3) [of dot] by (simp_all add: mod_add_eq [symmetric])
  show "layout_ok (linked_layout swapped dot)"
    using u u4 m assms(2) by (cases swapped) (simp_all add: layout_ok_def linked_layout_def Let_def apart_def del: of_nat_add)
  show "\<forall>a\<in>{l_dir_pages (linked_layout swapped dot), l_pagusr_table (linked_layout swapped dot), l_task (linked_layout swapped dot)}.
      0x1000C \<le> unat a \<and> unat a + 40960 \<le> ?b + 122880"
    using u u4 align_up_bounds(1) [of dot] assms(1)
    by (cases swapped) (simp_all add: linked_layout_def Let_def del: of_nat_add)
qed

text \<open>
  The two addresses of \<^verbatim>\<open>user.lds\<close>, for the data and the code of the user program,
  and the constants of the kernel.
\<close>

definition user_data_start :: dword where "user_data_start = 0x100000"
definition user_code_start :: dword where "user_code_start = 0x114000"

lemma user_script_agrees:
  "user_data_start = L_USER_START" "user_code_start = usr_main"
  "user_code_start = user_data_start + of_nat (NUM_PAG_DATA * PAGE_SIZE)"
  by (simp_all add: user_data_start_def user_code_start_def usr_main_def)

section \<open>The state after boot\<close>

text \<open>
  What the kernel relies on of \<open>monoprocess_init_addr_space\<close>: it gives task 0 its user pages
  and loads its directory, by the functions of \<^verbatim>\<open>mm.c\<close> and \<^verbatim>\<open>sched.c\<close> that the
  library imports.
\<close>

definition sets_user_pages :: "layout \<Rightarrow> (mm_state \<Rightarrow> mm_state) \<Rightarrow> bool" where
  "sets_user_pages L f \<longleftrightarrow> (\<forall>mm mm'. set_user_pages (task_addr L 0) mm = Some mm' \<longrightarrow>
     f mm = set_cr3 (get_DIR (kmem mm') (task_addr L 0)) mm')"

lemma sets_user_pages_keeps:
  assumes L: "layout_ok L" and f: "sets_user_pages L f"
  shows "keeps_image L f"
  unfolding keeps_image_def
proof (intro allI impI, elim conjE)
  fix mm :: mm_state and b assume mm: "task_ok L (kmem mm) 0" "phys_mem mm = fresh_map" and b: "outside L b"
  have "28 \<le> card (pool (phys_mem mm))" "frames_ok (phys_mem mm)"
    using card_even_frames frames_ok_init by (simp_all add: pool_init mm(2))
  then obtain s' where "set_user_pages (task_addr L 0) mm = Some s'" "\<forall>b. outside L b \<longrightarrow> kmem s' b = kmem mm b"
    using set_user_pages_maps [OF L _ mm(1)] by auto
  then show "kmem (f mm) b = kmem mm b" using f b by (simp add: sets_user_pages_def set_cr3_def)
qed

lemma above_frozen: "layout_ok L \<Longrightarrow> \<forall>b. unat b < 0x100000 \<longrightarrow> m' b = m b \<Longrightarrow> same_frozen L m m'"
  by (auto simp: same_frozen_def frozen_def layout_ok_def)

lemma user_writes_above:
  assumes "length bs \<le> 0x100000" "unat b < 0x100000"
  shows "store32 (write_bytes m 0x100000 bs) 0x113FFC v b = m b"
proof -
  have "unat (0x100000 + of_nat i :: dword) = 0x100000 + i" if "i < length bs" for i
    using unat_add_small [of "0x100000" i] assms(1) that by simp
  then have "write_bytes m 0x100000 bs b = m b" using assms(2) by (intro write_bytes_other) fastforce
  moreover have "b \<notin> entry_bytes (0x113FFC :: dword)" using assms(2) by (auto simp: entry_bytes_def)
  ultimately show ?thesis by (simp add: store32_outside)
qed

lemma boot_starts:
  fixes m :: mem
  assumes L: "layout_ok L" and I: "image_ok L m" and K: "sets_user_pages L mono_init" and z: "dir_rest_clear L m"
    and s: "kmem (kmm (knl s)) = m" "length (phys_mem (kmm (knl s))) = TOTAL_PAGES" "6 < length (gdt s)"
    and h: "length (set_handlers (idt s)) = IDT_ENTRIES" and con: "console_ok (kcon (knl s))"
  obtains s' cs ds where "boot_main L S set_handlers mono_init s = Some s'"
    "r_cs s' = USER_CS" "r_eip s' = 0x114000" "zeos_ticks (knl s') = 0" "protected L (knl s')"
    "length cs = 8" "length ds = 20" "distinct (cs @ ds)" "\<forall>f\<in>set (cs @ ds). 256 \<le> f \<and> f < 1024"
    "\<And>p. p < 2 ^ 20 \<Longrightarrow> snd (ks_obs (knl s')) p = task0_space cs ds p"
    "\<And>i. i < unat (load32 m p_usr_size) \<Longrightarrow> 0x14000 \<le> i \<Longrightarrow>
       kmem (kmm (knl s')) (0x100000 + of_nat i) = m (0x10000 + load32 m p_sys_size + of_nat i)"
proof -
  let ?bs = "read_bytes m (0x10000 + load32 m p_sys_size) (unat (load32 m p_usr_size))"
  have bd: "length ?bs \<le> 0x100000" using I by (simp add: image_ok_def)
  have len: "length (phys_mem (kmm (knl s))) = 1024" using s(2) by simp
  have z': "dir_rest_clear L (kmem (kmm (knl s)))" using z s(1) by simp
  obtain s1 s2 cs ds where i: "init_mm L (kmm (knl s)) = Some s1" "set_user_pages (task_addr L 0) s1 = Some s2"
    "length cs = 8" "length ds = 20" "distinct (cs @ ds)" "\<forall>f\<in>set (cs @ ds). 256 \<le> f \<and> f < 1024"
    "task_ok L (kmem s2) 0" "cr3 s2 = l_dir_pages L" "dir_rest_clear L (kmem s2)"
    "\<And>p. p < 2 ^ 20 \<Longrightarrow> mmu (kmem s2) (l_dir_pages L) p = task0_space cs ds p"
    by (rule initial_space [OF L len z']) (rule that)
  obtain mm s' where b: "init_mm L (kmm (knl s)) = Some mm" "boot_main L S set_handlers mono_init s = Some s'"
    "kmm (knl s') = (mono_init mm)\<lparr>kmem := store32 (write_bytes (kmem (mono_init mm)) 0x100000 ?bs) 0x113FFC (load32 m p_rdtr)\<rparr>"
    "zeos_ticks (knl s') = 0" "kcon (knl s') = fold printc boot_text (kcon (knl s))" "r_cs s' = USER_CS \<and> r_eip s' = 0x114000"
    by (rule boot_result [where set_handlers = set_handlers and mono_init = mono_init and S = S,
          OF L I sets_user_pages_keeps [OF L K] s h]) (rule that, assumption+, blast)
  have "mono_init mm = s2"
    using K i(1,2,7,8) b(1) by (simp add: sets_user_pages_def set_cr3_def task_ok_def)
  note k = b(3) [unfolded this]
  let ?k = "\<lparr>zeos_ticks = 0, kcon = kcon (knl s), kmm = s2\<rparr>"
  have P: "protected L ?k" by (rule initial_protected [OF i(7-9) con i(10) i(3,4,6)])
  have f: "same_frozen L (kmem (kmm ?k)) (kmem (kmm (knl s')))"
    using user_writes_above [OF bd] by (intro above_frozen [OF L]) (simp add: k)
  have c: "cr3 (kmm (knl s')) = cr3 (kmm ?k)" "console_ok (kcon (knl s'))"
    using con con.fold_put by (auto simp: k b(5))
  note Q = protected_frozen [OF L P f c]
  show thesis
  proof (rule that [OF b(2) _ _ b(4) Q(1) i(3-6)])
    show "r_cs s' = USER_CS" "r_eip s' = 0x114000" using b(6) by simp_all
    show "snd (ks_obs (knl s')) p = task0_space cs ds p" if "p < 2 ^ 20" for p
      using Q(2) that i(8,10) by (simp add: ks_obs_def)
    show "kmem (kmm (knl s')) (0x100000 + of_nat j) = m (0x10000 + load32 m p_sys_size + of_nat j)"
      if "j < unat (load32 m p_usr_size)" "0x14000 \<le> j" for j
      using user_image_kept [of "unat (load32 m p_usr_size)" j ?bs] bd that by (simp add: k)
  qed
qed

section \<open>The runs\<close>

lemma runs_keep_space:
  assumes inv: "sys_inv L kb show_clock k0" and sp: "\<And>p. p < 2 ^ 20 \<Longrightarrow> snd (ks_obs k0) p = task0_space cs ds p"
    and r: "run (step kb show_clock) k0 es k"
  shows "\<forall>p<2 ^ 20. mmu (kmem (kmm k)) (cr3 (kmm k)) p = task0_space cs ds p"
    and "zeos_ticks k = zeos_ticks k0 + of_nat (length (filter (\<lambda>e. e = Tick) es))" and "console_ok (kcon k)"
    and "Store a v \<in> set es \<Longrightarrow> 0x100000 \<le> unat a \<and> unat a < 0x114000"
proof -
  have o: "ks_obs k = (zeos_ticks k0 + of_nat (length (filter (\<lambda>e. e = Tick) es)), snd (ks_obs k0))"
    using ks.run_obs [OF r inv] by (simp add: fold_ks_upd ks_obs_def)
  show "\<forall>p<2 ^ 20. mmu (kmem (kmm k)) (cr3 (kmm k)) p = task0_space cs ds p"
  proof (intro allI impI)
    fix p :: nat assume p: "p < 2 ^ 20"
    have "snd (ks_obs k) p = task0_space cs ds p" using o sp [OF p] by simp
    then show "mmu (kmem (kmm k)) (cr3 (kmm k)) p = task0_space cs ds p" using p by (simp add: ks_obs_def)
  qed
  show "zeos_ticks k = zeos_ticks k0 + of_nat (length (filter (\<lambda>e. e = Tick) es))"
    using arg_cong [OF o, of fst] by (simp add: ks_obs_def)
  show "console_ok (kcon k)" using ks.run_inv [OF r inv] by (simp add: sys_inv_def protected_def Let_def)
  assume a: "Store a v \<in> set es"
  have "unat a div 4096 < 2 ^ 20" using unsigned_less [of a, where ?'a = nat] by simp
  then have "\<exists>f. task0_space cs ds (unat a div 4096) = Some (f, True, True)"
    using run_stores [OF r inv a] sp by simp
  then have "256 \<le> unat a div 4096" "unat a div 4096 < 276" by (auto simp: task0_space_def split: if_splits)
  then show "0x100000 \<le> unat a \<and> unat a < 0x114000" by linarith
qed

lemma runs_keep_code:
  assumes inv: "sys_inv L kb show_clock k0" and sp: "\<And>p. p < 2 ^ 20 \<Longrightarrow> snd (ks_obs k0) p = task0_space cs ds p"
    and r: "run (step kb show_clock) k0 es k" and a: "\<not> in_kbuf kb a" "unat a < 0x100000 \<or> 0x114000 \<le> unat a"
  shows "kmem (kmm k) a = kmem (kmm k0) a"
  using run_memory [OF r inv a(1)] fold_stored_other [of a es] runs_keep_space(4) [OF inv sp r, of a] a(2) by fastforce

lemma kbuf_below: "kstack_ok L kb \<Longrightarrow> layout_ok L \<Longrightarrow> in_kbuf kb a \<Longrightarrow> unat a < 0x100000"
proof -
  assume k: "kstack_ok L kb" "layout_ok L" and "in_kbuf kb a"
  then obtain i where i: "i < 128" "a = kb + of_nat i" by (auto simp: in_kbuf_def)
  then have "unat a = unat kb + i"
    using k kstack_kbuf [of L kb] unat_add_small [of kb i] by (simp add: kbuf_ok_def)
  then show "unat a < 0x100000" using i(1) k by (auto simp: kstack_ok_def layout_ok_def)
qed

lemma space_data_mapped:
  "(\<And>p. p < 2 ^ 20 \<Longrightarrow> snd (ks_obs k) p = task0_space cs ds p) \<Longrightarrow> data_mapped k"
  by (simp add: data_mapped_obs task0_space_def)

end
