(* ===== verification/Zeos_Machine.thy ===== *)
theory Zeos_Machine
  imports Zeos_Interrupt Zeos_Libc
begin

text \<open>
  The processor as the assembler files see it: the registers and tables of Zeos_Interrupt with
  the general registers and the count of end-of-interrupt commands, on top of the user and
  kernel state, whose memory holds the stacks. Here are the stack instructions, what the
  processor does on an interrupt, \<open>iret\<close>, \<open>sysenter\<close> and \<open>sysexit\<close>, and the calls of
  compiled C functions.

  A compiled function keeps EBX, ESI, EDI, EBP and ESP, returns its result in EAX, and leaves
  any values in ECX, EDX, the arithmetic flags, the stack below it and its own argument
  slots (the i386 calling convention). These values are the parameter \<open>clobber\<close>; \<open>lo\<close> is
  the lowest address of the stack. The theorems hold for all of them. A segment register is
  pushed with a zero upper half.
\<close>

record machine = tables +
  r_eax :: dword
  r_ebx :: dword
  r_ecx :: dword
  r_edx :: dword
  r_esi :: dword
  r_edi :: dword
  r_ebp :: dword
  eois :: nat
  mst :: user

abbreviation mmem :: "machine \<Rightarrow> mem" where
  "mmem M \<equiv> umem (mst M)"

section \<open>Stack instructions\<close>

definition push :: "dword \<Rightarrow> machine \<Rightarrow> machine" where
  "push v M = M\<lparr>r_esp := r_esp M - 4, mst := set_umem (store32 (mmem M) (r_esp M - 4) v) (mst M)\<rparr>"

definition pop :: "machine \<Rightarrow> dword \<times> machine" where
  "pop M = (load32 (mmem M) (r_esp M), M\<lparr>r_esp := r_esp M + 4\<rparr>)"

section \<open>Entering and leaving the kernel\<close>

text \<open>
  An interrupt or exception through gate \<open>v\<close>, with an error code for the exceptions that
  have one. From ring 3 the processor changes to the stack of the TSS and saves the old one;
  an interrupt gate (type 14) clears IF, and TF, NT, RF and VM are cleared always.
\<close>

definition int_entry :: "nat \<Rightarrow> dword option \<Rightarrow> machine \<Rightarrow> machine option" where
  "int_entry v err M = do {
     g \<leftarrow> rd (idt M) v;
     let saved = [eflags M, ucast (r_cs M), r_eip M] @ (case err of None \<Rightarrow> [] | Some e \<Rightarrow> [e]);
     let M1 = (if r_cs M AND 3 = 0 then fold push saved M
               else fold push ([ucast (r_ss M), r_esp M] @ saved)
                 (M\<lparr>r_ss := ss0 (tss M), r_esp := esp0 (tss M)\<rparr>));
     let off = (if g_flags g AND 0xF00 = 0xE00 then 0x34300 else 0x34100);
     Some (M1\<lparr>eflags := eflags M AND NOT off, r_cs := segmentSelector g, r_eip := gate_offset g\<rparr>) }"

definition iret :: "machine \<Rightarrow> machine" where
  "iret M =
     (let (eip, M1) = pop M; (cs, M1) = pop M1; (fl, M1) = pop M1;
          M1 = M1\<lparr>r_eip := eip, r_cs := ucast cs, eflags := fl\<rparr>
      in if r_cs M AND 3 < r_cs M1 AND 3
         then let (esp, M2) = pop M1; (ss, M2) = pop M2 in M2\<lparr>r_esp := esp, r_ss := ucast ss\<rparr>
         else M1)"

definition sysenter :: "machine \<Rightarrow> machine" where
  "sysenter M = M\<lparr>eflags := eflags M AND NOT 0x20200, r_cs := ucast (msr M 0x174) AND 0xFFFC,
     r_ss := ucast (msr M 0x174) + 8, r_esp := msr M 0x175, r_eip := msr M 0x176\<rparr>"

definition sysexit :: "machine \<Rightarrow> machine" where
  "sysexit M = M\<lparr>r_cs := (ucast (msr M 0x174) + 16) OR 3, r_ss := (ucast (msr M 0x174) + 24) OR 3,
     r_esp := r_ecx M, r_eip := r_edx M\<rparr>"

section \<open>Calls of compiled functions\<close>

record clobber =
  c_eax :: dword
  c_ecx :: dword
  c_edx :: dword
  c_flags :: dword
  c_stack :: mem

definition arith_flags :: "dword \<Rightarrow> dword \<Rightarrow> dword" where
  "arith_flags new old = (old AND NOT 0x8D5) OR (new AND 0x8D5)"

definition scratch :: "dword \<Rightarrow> dword \<Rightarrow> mem \<Rightarrow> mem \<Rightarrow> mem" where
  "scratch lo hi junk m = (\<lambda>a. if lo \<le> a \<and> a < hi then junk a else m a)"

text \<open>A comparison: only the arithmetic flags change.\<close>

definition cmpl :: "clobber \<Rightarrow> machine \<Rightarrow> machine" where
  "cmpl cl M = M\<lparr>eflags := arith_flags (c_flags cl) (eflags M)\<rparr>"

definition call_c ::
  "dword \<Rightarrow> clobber \<Rightarrow> nat \<Rightarrow> (user \<Rightarrow> (user \<times> dword) option) \<Rightarrow> machine \<Rightarrow> machine option" where
  "call_c lo cl args f M = do {
     (u, r) \<leftarrow> f (mst M);
     Some (M\<lparr>eflags := arith_flags (c_flags cl) (eflags M), r_eax := r, r_ecx := c_ecx cl, r_edx := c_edx cl,
       mst := set_umem (scratch lo (r_esp M + 4 * of_nat args) (c_stack cl) (umem u)) u\<rparr>) }"

section \<open>Lemmas\<close>

lemma set_umem_simps [simp]:
  "umem (set_umem m u) = m" "set_umem m (set_umem m' u) = set_umem m u" "set_umem (umem u) u = u"
  "kcon (set_umem m u) = kcon u" "zeos_ticks (set_umem m u) = zeos_ticks u" "errno (set_umem m u) = errno u"
  by (simp_all add: set_umem_def)

lemma push_fields:
  "r_esp (push v M) = r_esp M - 4" "r_eax (push v M) = r_eax M" "r_ebx (push v M) = r_ebx M"
  "r_ecx (push v M) = r_ecx M" "r_edx (push v M) = r_edx M" "r_ebp (push v M) = r_ebp M"
  by (simp_all add: push_def)

text \<open>The double words from an address upwards.\<close>

fun frame :: "mem \<Rightarrow> dword \<Rightarrow> dword list \<Rightarrow> bool" where
  "frame m a [] \<longleftrightarrow> True"
| "frame m a (w # ws) \<longleftrightarrow> load32 m a = w \<and> frame m (a + 4) ws"

definition mem_only :: "dword \<Rightarrow> dword \<Rightarrow> mem \<Rightarrow> mem \<Rightarrow> bool" where
  "mem_only lo hi m m' \<longleftrightarrow> (\<forall>a. a < lo \<or> hi \<le> a \<longrightarrow> m' a = m a)"

lemma mem_only_refl [simp]: "mem_only lo hi m m"
  by (simp add: mem_only_def)

lemma mem_only_trans: "mem_only lo hi m m1 \<Longrightarrow> mem_only lo hi m1 m2 \<Longrightarrow> mem_only lo hi m m2"
  by (simp add: mem_only_def)

lemma mem_only_mono:
  assumes "mem_only lo hi m m'" "lo' \<le> lo" "hi \<le> hi'"
  shows "mem_only lo' hi' m m'"
  unfolding mem_only_def
proof (intro allI impI)
  fix a assume "a < lo' \<or> hi' \<le> a"
  then have "a < lo \<or> hi \<le> a" using assms(2,3) order_less_le_trans order_trans by blast
  then show "m' a = m a" using assms(1) unfolding mem_only_def by blast
qed

lemma mem_only_scratch: "mem_only lo hi m (scratch lo hi j m)"
  by (auto simp: mem_only_def scratch_def)

lemma aligned4_iff: "aligned4 a \<longleftrightarrow> 4 dvd uint a"
proof -
  have "uint a = int (unat a)" by simp
  then show ?thesis unfolding aligned4_def by presburger
qed

lemma wrap_dvd4: "4 dvd (v :: int) mod 2 ^ LENGTH(32) \<longleftrightarrow> 4 dvd v"
  by (rule dvd_mod_iff) simp

lemma aligned4_plus: "aligned4 a \<Longrightarrow> aligned4 b \<Longrightarrow> aligned4 (a + b)"
  unfolding aligned4_iff uint_word_ariths wrap_dvd4 by (rule dvd_add)

lemma aligned4_minus: "aligned4 a \<Longrightarrow> aligned4 b \<Longrightarrow> aligned4 (a - b)"
  unfolding aligned4_iff uint_word_ariths wrap_dvd4 by (rule dvd_diff)

lemma aligned4_mult [simp]: "aligned4 (4 * of_nat n)"
  unfolding aligned4_iff uint_word_ariths wrap_dvd4 by simp

lemma aligned4_four [simp]: "aligned4 4"
  by (simp add: aligned4_def)

text \<open>Reading the frame depends on its own bytes only.\<close>

lemma entry_bytes_above:
  assumes "aligned4 a" "b \<in> entry_bytes a"
  shows "unat a \<le> unat b \<and> unat b < unat a + 4"
  using assms(2) aligned4_offsets [OF assms(1)] by (auto simp: entry_bytes_def)

lemma frame_cong:
  assumes "aligned4 a" "unat a + 4 * length ws \<le> 2 ^ 32"
    and "\<And>b. unat a \<le> unat b \<Longrightarrow> unat b < unat a + 4 * length ws \<Longrightarrow> m' b = m b"
  shows "frame m' a ws \<longleftrightarrow> frame m a ws"
  using assms
proof (induction ws arbitrary: a)
  case (Cons w ws)
  have "load32 m' a = load32 m a"
    using entry_bytes_above [OF Cons.prems(1)] Cons.prems(3) by (intro load32_cong) fastforce
  moreover have "frame m' (a + 4) ws = frame m (a + 4) ws"
  proof (cases ws)
    case (Cons v vs)
    then have "unat (a + 4) = unat a + 4" using unat_add_small [of a 4] Cons.prems(2) by simp
    then show ?thesis using Cons.prems by (intro Cons.IH) (simp_all add: aligned4_plus)
  qed simp
  ultimately show ?case by simp
qed simp

lemma unat_minus_small: "n \<le> unat a \<Longrightarrow> unat (a - of_nat n :: dword) = unat a - n"
  using unsigned_less [of a, where ?'a = nat]
  by (subst unat_sub) (simp_all add: word_le_nat_alt unat_of_nat)

lemma frame_store:
  assumes "aligned4 a" "4 \<le> unat a" "unat a + 4 * length ws \<le> 2 ^ 32" "frame m a ws"
  shows "frame (store32 m (a - 4) v) (a - 4) (v # ws)"
proof -
  have u: "unat (a - 4) = unat a - 4" using unat_minus_small [of 4 a] assms(2) by simp
  have "aligned4 (a - 4)" using assms(1) by (simp add: aligned4_minus)
  then have "frame (store32 m (a - 4) v) a ws = frame m a ws"
    using entry_bytes_above [of "a - 4"] u assms(2)
    by (intro frame_cong [OF assms(1,3)] store32_outside) fastforce
  then show ?thesis using assms(4) by simp
qed

lemma mem_only_store:
  assumes "aligned4 a" "4 \<le> unat a"
  shows "mem_only (a - 4) a m (store32 m (a - 4) v)"
  unfolding mem_only_def
proof (intro allI impI store32_outside)
  fix b assume "b < a - 4 \<or> a \<le> b"
  moreover have "unat (a - 4) = unat a - 4" using unat_minus_small [of 4 a] assms(2) by simp
  ultimately show "b \<notin> entry_bytes (a - 4)"
    using entry_bytes_above [of "a - 4" b] assms by (auto simp: aligned4_minus word_less_nat_alt word_le_nat_alt)
qed

lemma frame_outside:
  assumes "mem_only lo hi m m'" "aligned4 a" "hi \<le> a" "unat a + 4 * length ws \<le> 2 ^ 32"
  shows "frame m' a ws \<longleftrightarrow> frame m a ws"
  using assms(1,3) by (intro frame_cong [OF assms(2,4)]) (simp add: mem_only_def word_le_nat_alt)

lemma minus_le_self: "n \<le> unat a \<Longrightarrow> a - of_nat n \<le> (a :: dword)"
  by (simp add: word_le_nat_alt unat_minus_small)

text \<open>A sequence of pushes.\<close>

lemma fold_push:
  assumes "aligned4 (r_esp M)" "4 * length vs \<le> unat (r_esp M)"
  shows "\<exists>m'. fold push vs M = M\<lparr>r_esp := r_esp M - 4 * of_nat (length vs), mst := set_umem m' (mst M)\<rparr>
     \<and> (\<forall>ws. frame (mmem M) (r_esp M) ws \<and> unat (r_esp M) + 4 * length ws \<le> 2 ^ 32 \<longrightarrow>
          frame m' (r_esp M - 4 * of_nat (length vs)) (rev vs @ ws))
     \<and> mem_only (r_esp M - 4 * of_nat (length vs)) (r_esp M) (mmem M) m'"
  using assms
proof (induction vs arbitrary: M)
  case Nil
  then show ?case by (intro exI [of _ "mmem M"]) simp
next
  case (Cons v vs)
  let ?M = "push v M" and ?a = "r_esp M"
  have esp: "r_esp ?M = ?a - 4" and mem: "mmem ?M = store32 (mmem M) (?a - 4) v" by (simp_all add: push_def)
  have u: "unat (?a - 4) = unat ?a - 4" using unat_minus_small [of 4 ?a] Cons.prems(2) by simp
  have al: "aligned4 (?a - 4)" using Cons.prems(1) by (simp add: aligned4_minus)
  have room: "4 * length vs \<le> unat (?a - 4)" using Cons.prems(2) u by simp
  have sum: "?a - 4 - 4 * of_nat (length vs) = ?a - 4 * of_nat (length (v # vs))" by (simp add: algebra_simps)
  obtain m' where m': "fold push vs ?M = ?M\<lparr>r_esp := r_esp ?M - 4 * of_nat (length vs), mst := set_umem m' (mst ?M)\<rparr>"
    "\<forall>ws. frame (mmem ?M) (r_esp ?M) ws \<and> unat (r_esp ?M) + 4 * length ws \<le> 2 ^ 32 \<longrightarrow>
       frame m' (r_esp ?M - 4 * of_nat (length vs)) (rev vs @ ws)"
    "mem_only (r_esp ?M - 4 * of_nat (length vs)) (r_esp ?M) (mmem ?M) m'"
    using Cons.IH [of ?M, unfolded esp, OF al room] unfolding esp by blast
  have "fold push (v # vs) M = M\<lparr>r_esp := ?a - 4 * of_nat (length (v # vs)), mst := set_umem m' (mst M)\<rparr>"
    using m'(1) unfolding esp sum by (simp add: push_def)
  moreover have "frame m' (?a - 4 * of_nat (length (v # vs))) (rev (v # vs) @ ws)"
    if "frame (mmem M) ?a ws" "unat ?a + 4 * length ws \<le> 2 ^ 32" for ws
    using m'(2) [rule_format, of "v # ws"] frame_store [OF Cons.prems(1) _ that(2,1), of v] Cons.prems(2) that(2) u
    unfolding esp mem sum by simp
  moreover have "mem_only (?a - 4 * of_nat (length (v # vs))) ?a (mmem M) m'"
  proof (rule mem_only_trans)
    have "?a - 4 * of_nat (length (v # vs)) \<le> ?a - 4"
      using minus_le_self [of "4 * length vs" "?a - 4"] room unfolding sum [symmetric] by simp
    then show "mem_only (?a - 4 * of_nat (length (v # vs))) ?a (mmem M) (mmem ?M)"
      using Cons.prems unfolding mem by (intro mem_only_mono [OF mem_only_store]) simp_all
    have "?a - 4 \<le> ?a" using minus_le_self [of 4 ?a] Cons.prems(2) by simp
    with m'(3) show "mem_only (?a - 4 * of_nat (length (v # vs))) ?a (mmem ?M) m'"
      unfolding esp sum by (rule mem_only_mono [OF _ order_refl])
  qed
  ultimately show ?case by blast
qed

corollary fold_push_onto:
  assumes "aligned4 (r_esp M)" "4 * length vs \<le> unat (r_esp M)"
    and "frame (mmem M) (r_esp M) ws" "unat (r_esp M) + 4 * length ws \<le> 2 ^ 32"
  shows "\<exists>m'. fold push vs M = M\<lparr>r_esp := r_esp M - 4 * of_nat (length vs), mst := set_umem m' (mst M)\<rparr>
     \<and> frame m' (r_esp M - 4 * of_nat (length vs)) (rev vs @ ws)
     \<and> mem_only (r_esp M - 4 * of_nat (length vs)) (r_esp M) (mmem M) m'"
  using fold_push [OF assms(1,2)] assms(3,4) by blast

corollary fold_push_frame:
  assumes "aligned4 (r_esp M)" "4 * length vs \<le> unat (r_esp M)"
  shows "\<exists>m'. fold push vs M = M\<lparr>r_esp := r_esp M - 4 * of_nat (length vs), mst := set_umem m' (mst M)\<rparr>
     \<and> frame m' (r_esp M - 4 * of_nat (length vs)) (rev vs)
     \<and> mem_only (r_esp M - 4 * of_nat (length vs)) (r_esp M) (mmem M) m'"
  using fold_push_onto [OF assms, of "[]"] unsigned_less [of "r_esp M", where ?'a = nat] by simp

section \<open>Interrupts and their return\<close>

text \<open>What an interrupt saves, and where.\<close>

definition int_top :: "machine \<Rightarrow> dword" where
  "int_top M = (if r_cs M AND 3 = 0 then r_esp M else esp0 (tss M))"

definition int_frame :: "machine \<Rightarrow> dword list" where
  "int_frame M = [r_eip M, ucast (r_cs M), eflags M] @ (if r_cs M AND 3 = 0 then [] else [r_esp M, ucast (r_ss M)])"

definition int_size :: "machine \<Rightarrow> dword" where
  "int_size M = (if r_cs M AND 3 = 0 then 12 else 20)"

definition err_words :: "dword option \<Rightarrow> dword list" where
  "err_words err = (case err of None \<Rightarrow> [] | Some e \<Rightarrow> [e])"

definition int_size_err :: "dword option \<Rightarrow> machine \<Rightarrow> dword" where
  "int_size_err err M = int_size M + 4 * of_nat (length (err_words err))"

lemma ucast_16_32_16 [simp]: "ucast (ucast (w :: word16) :: dword) = w"
  by (rule bit_word_eqI) (auto simp: bit_simps dest: bit_imp_le_length)

lemma int_entry_spec:
  assumes "v < length (idt M)" "aligned4 (int_top M)" "24 \<le> unat (int_top M)"
  shows "\<exists>m' fl. int_entry v err M = Some (M\<lparr>eflags := fl, r_ss := if r_cs M AND 3 = 0 then r_ss M else ss0 (tss M),
        r_esp := int_top M - int_size_err err M, r_cs := segmentSelector (idt M ! v), r_eip := gate_offset (idt M ! v),
        mst := set_umem m' (mst M)\<rparr>)
     \<and> frame m' (int_top M - int_size_err err M) (err_words err @ int_frame M)
     \<and> mem_only (int_top M - int_size_err err M) (int_top M) (mmem M) m'"
proof -
  define M0 where "M0 = M\<lparr>r_ss := if r_cs M AND 3 = 0 then r_ss M else ss0 (tss M), r_esp := int_top M\<rparr>"
  define vs where "vs = rev (err_words err @ int_frame M)"
  define off :: dword where "off = (if g_flags (idt M ! v) AND 0xF00 = 0xE00 then 0x34300 else 0x34100)"
  have len: "4 * of_nat (length vs) = int_size_err err M" "length vs \<le> 6"
    by (simp_all add: vs_def int_frame_def int_size_def int_size_err_def err_words_def split: option.split)
  have e: "int_entry v err M = Some ((fold push vs M0)\<lparr>eflags := eflags M AND NOT off, r_cs := segmentSelector (idt M ! v),
      r_eip := gate_offset (idt M ! v)\<rparr>)"
    using assms(1) by (auto simp: int_entry_def M0_def vs_def off_def int_top_def int_frame_def err_words_def Let_def split: option.split)
  obtain m' where m': "fold push vs M0 = M0\<lparr>r_esp := int_top M - int_size_err err M, mst := set_umem m' (mst M)\<rparr>"
    "frame m' (int_top M - int_size_err err M) (rev vs)" "mem_only (int_top M - int_size_err err M) (int_top M) (mmem M) m'"
    using fold_push_frame [of M0 vs] assms(2,3) len by (auto simp: M0_def)
  have "int_entry v err M = Some (M\<lparr>eflags := eflags M AND NOT off, r_ss := if r_cs M AND 3 = 0 then r_ss M else ss0 (tss M),
        r_esp := int_top M - int_size_err err M, r_cs := segmentSelector (idt M ! v), r_eip := gate_offset (idt M ! v),
        mst := set_umem m' (mst M)\<rparr>)"
    unfolding e m'(1) option.inject by (rule machine.equality) (simp_all add: M0_def)
  with m'(2,3) show ?thesis unfolding vs_def rev_rev_ident by blast
qed

lemma iret_spec:
  assumes "frame (mmem M1) (r_esp M1) (int_frame M)" "r_cs M1 AND 3 = 0"
  shows "iret M1 = M1\<lparr>eflags := eflags M, r_ss := if r_cs M AND 3 = 0 then r_ss M1 else r_ss M,
      r_esp := if r_cs M AND 3 = 0 then r_esp M1 + 12 else r_esp M, r_cs := r_cs M, r_eip := r_eip M\<rparr>"
proof (cases "r_cs M AND 3 = 0")
  case True
  show ?thesis by (rule machine.equality) (use assms True in \<open>simp_all add: iret_def pop_def int_frame_def Let_def\<close>)
next
  case False
  then have "0 < r_cs M AND 3" by (simp add: word_gt_0)
  then show ?thesis
    by (intro machine.equality) (use assms False in \<open>simp_all add: iret_def pop_def int_frame_def Let_def add.assoc\<close>)
qed

text \<open>
  An interrupt and the \<open>iret\<close> that ends its handler: whatever the handler leaves in the
  registers it does not restore, the interrupted code continues where it was.
\<close>

lemma int_bracket:
  assumes v: "v < length (idt M)" "segmentSelector (idt M ! v) = KERNEL_CS"
    and top: "aligned4 (int_top M)" "unat lo + 20 \<le> unat (int_top M)"
      "24 \<le> unat (int_top M)"
  obtains M1 m1 where "int_entry v None M = Some M1" "r_eip M1 = gate_offset (idt M ! v)"
    "mst M1 = set_umem m1 (mst M)" "eois M1 = eois M" "r_eax M1 = r_eax M" "r_ebx M1 = r_ebx M" "r_ecx M1 = r_ecx M" "r_edx M1 = r_edx M"
    "aligned4 (r_esp M1)" "r_esp M1 = int_top M - int_size M" "unat (r_esp M1) = unat (int_top M) - unat (int_size M)"
    "mem_only lo (int_top M) (mmem M) m1"
    "\<And>fl a b c d n m' u. mem_only lo (r_esp M1) m1 m' \<Longrightarrow>
       iret (M1\<lparr>eflags := fl, r_eax := a, r_ebx := b, r_ecx := c, r_edx := d, eois := n, mst := set_umem m' u\<rparr>)
         = M\<lparr>r_eax := a, r_ebx := b, r_ecx := c, r_edx := d, eois := n, mst := set_umem m' u\<rparr>
       \<and> mem_only lo (int_top M) (mmem M) m'"
proof -
  let ?sz = "int_size M" and ?ss = "if r_cs M AND 3 = 0 then r_ss M else ss0 (tss M)"
  have sz: "int_size_err None M = ?sz" by (simp add: int_size_err_def err_words_def)
  obtain m1 fl0 where m1: "int_entry v None M = Some (M\<lparr>eflags := fl0, r_ss := ?ss, r_esp := int_top M - ?sz,
        r_cs := segmentSelector (idt M ! v), r_eip := gate_offset (idt M ! v), mst := set_umem m1 (mst M)\<rparr>)"
      (is "_ = Some ?M1")
    "frame m1 (int_top M - ?sz) (int_frame M)" "mem_only (int_top M - ?sz) (int_top M) (mmem M) m1"
    using int_entry_spec [OF v(1) top(1), of None] top(3) unfolding sz by (auto simp: err_words_def)
  obtain n where n: "?sz = 4 * of_nat n" "n \<le> 5" "length (int_frame M) = n" "unat ?sz = 4 * n"
    by (cases "r_cs M AND 3 = 0") (auto simp: int_size_def int_frame_def intro: that [of 3] that [of 5])
  have u: "unat (int_top M - ?sz) = unat (int_top M) - 4 * n"
    using unat_minus_small [of "4 * n" "int_top M"] top(3) n by simp
  have al: "aligned4 (int_top M - ?sz)" unfolding n(1) by (rule aligned4_minus [OF top(1) aligned4_mult])
  have le: "lo \<le> int_top M - ?sz" "int_top M - ?sz \<le> int_top M" using top(2) u n(2) by (simp_all add: word_le_nat_alt)
  have only: "mem_only lo (int_top M) (mmem M) m1" using mem_only_mono [OF m1(3) le(1) order_refl] .
  have iretM: "iret (?M1\<lparr>eflags := fl, r_eax := a, r_ebx := b, r_ecx := c, r_edx := d, eois := k, mst := set_umem m' w\<rparr>)
         = M\<lparr>r_eax := a, r_ebx := b, r_ecx := c, r_edx := d, eois := k, mst := set_umem m' w\<rparr>
       \<and> mem_only lo (int_top M) (mmem M) m'"
    if "mem_only lo (r_esp ?M1) m1 m'" for fl a b c d k m' w
  proof (rule conjI)
    have m': "mem_only lo (int_top M - ?sz) m1 m'" using that by simp
    then have "frame m' (int_top M - ?sz) (int_frame M)"
      using frame_outside [OF _ al order_refl, of lo m1 m' "int_frame M"] m1(2) u n top(3)
        unsigned_less [of "int_top M", where ?'a = nat] by simp
    then show "iret (?M1\<lparr>eflags := fl, r_eax := a, r_ebx := b, r_ecx := c, r_edx := d, eois := k, mst := set_umem m' w\<rparr>)
         = M\<lparr>r_eax := a, r_ebx := b, r_ecx := c, r_edx := d, eois := k, mst := set_umem m' w\<rparr>"
      using v(2) by (subst iret_spec [where M = M]) (auto simp: int_top_def int_size_def)
    show "mem_only lo (int_top M) (mmem M) m'"
      using mem_only_trans [OF only mem_only_mono [OF m' order_refl le(2)]] .
  qed
  show thesis by (rule that [OF m1(1) _ _ _ _ _ _ _ _ _ _ only iretM]) (use al u n(4) in simp_all)
qed

end
