(* ===== verification/Zeos_Entry.thy ===== *)
theory Zeos_Entry
  imports Zeos_Machine
begin

text \<open>
  The entry points of \<^verbatim>\<open>entry.S\<close> instruction by instruction: the macros
  \<open>SAVE_ALL\<close>, \<open>RESTORE_ALL\<close> and \<open>EOI\<close>, \<open>writeMsr\<close>, the two system call handlers, and the
  handlers of the page fault, keyboard and clock. \<open>kb\<close> is the address of the buffer of
  \<open>sys_write\<close> in its stack frame; \<open>page_fault_routine\<close> of \<^verbatim>\<open>libzeos.a\<close> is a
  parameter, with no result when it does not return.
\<close>

definition SAVE_ALL :: "machine \<Rightarrow> machine" where
  "SAVE_ALL M =
     (let M = push (ucast (r_gs M)) M;
          M = push (ucast (r_fs M)) M;
          M = push (ucast (r_es M)) M;
          M = push (ucast (r_ds M)) M;
          M = push (r_eax M) M;
          M = push (r_ebp M) M;
          M = push (r_edi M) M;
          M = push (r_esi M) M;
          M = push (r_ebx M) M;
          M = push (r_ecx M) M;
          M = push (r_edx M) M;
          M = M\<lparr>r_edx := ucast KERNEL_DS\<rparr>;
          M = M\<lparr>r_ds := ucast (r_edx M)\<rparr>
      in M\<lparr>r_es := ucast (r_edx M)\<rparr>)"

definition RESTORE_ALL :: "machine \<Rightarrow> machine" where
  "RESTORE_ALL M =
     (let (v, M) = pop M; M = M\<lparr>r_edx := v\<rparr>;
          (v, M) = pop M; M = M\<lparr>r_ecx := v\<rparr>;
          (v, M) = pop M; M = M\<lparr>r_ebx := v\<rparr>;
          (v, M) = pop M; M = M\<lparr>r_esi := v\<rparr>;
          (v, M) = pop M; M = M\<lparr>r_edi := v\<rparr>;
          (v, M) = pop M; M = M\<lparr>r_ebp := v\<rparr>;
          (v, M) = pop M; M = M\<lparr>r_eax := v\<rparr>;
          (v, M) = pop M; M = M\<lparr>r_ds := ucast v\<rparr>;
          (v, M) = pop M; M = M\<lparr>r_es := ucast v\<rparr>;
          (v, M) = pop M; M = M\<lparr>r_fs := ucast v\<rparr>;
          (v, M) = pop M
      in M\<lparr>r_gs := ucast v\<rparr>)"

definition EOI :: "machine \<Rightarrow> machine" where
  "EOI M = (let M = M\<lparr>r_eax := (r_eax M AND NOT 0xFF) OR 0x20\<rparr> in M\<lparr>eois := eois M + 1\<rparr>)"

text \<open>\<open>writeMsr\<close>, called with the number and the value on the stack.\<close>

definition writeMsr_code :: "machine \<Rightarrow> machine" where
  "writeMsr_code M =
     (let M = push (r_ebp M) M;
          M = M\<lparr>r_ebp := r_esp M\<rparr>;
          M = M\<lparr>r_ecx := load32 (mmem M) (r_ebp M + 8)\<rparr>;
          M = M\<lparr>r_eax := load32 (mmem M) (r_ebp M + 12)\<rparr>;
          M = M\<lparr>r_edx := 0\<rparr>;
          M = writeMsr (r_ecx M) (r_eax M) M;
          (v, M) = pop M; M = M\<lparr>r_ebp := v\<rparr>;
          (v, M) = pop M
      in M\<lparr>r_eip := v\<rparr>)"

text \<open>The bounds check, and the call of a routine with its arguments on the stack.\<close>

definition call_service :: "dword \<Rightarrow> dword \<Rightarrow> clobber \<Rightarrow> machine \<Rightarrow> machine option" where
  "call_service lo kb cl M =
     (let n = r_eax M; M = cmpl cl M
      in if sint n < 0 then Some (M\<lparr>r_eax := - 38\<rparr>)
         else if sint n > MAX_SYSCALL then Some (M\<lparr>r_eax := - 38\<rparr>)
         else do {
           f \<leftarrow> rd sys_call_table (unat n);
           case f of
             Sys_ni_syscall \<Rightarrow> call_c lo cl 0 (\<lambda>u. Some (u, word_of_int sys_ni_syscall)) M
           | Sys_write \<Rightarrow> call_c lo cl 3
               (\<lambda>u. let (u, r) = sys_write kb (sint (load32 (umem u) (r_esp M))) (load32 (umem u) (r_esp M + 4))
                          (sint (load32 (umem u) (r_esp M + 8))) u
                    in Some (u, word_of_int r)) M
           | Sys_gettime \<Rightarrow> call_c lo cl 0 (\<lambda>u. Some (u, word_of_int (sys_gettime u))) M })"

definition store_eax :: "machine \<Rightarrow> machine" where
  "store_eax M = M\<lparr>mst := set_umem (store32 (mmem M) (r_esp M + 0x18) (r_eax M)) (mst M)\<rparr>"

definition system_call_handler :: "dword \<Rightarrow> dword \<Rightarrow> clobber \<Rightarrow> machine \<Rightarrow> machine option" where
  "system_call_handler lo kb cl M = do {
     let M = SAVE_ALL M;
     M \<leftarrow> call_service lo kb cl M;
     let M = store_eax M;
     let M = RESTORE_ALL M;
     Some (iret M) }"

definition syscall_handler :: "dword \<Rightarrow> dword \<Rightarrow> clobber \<Rightarrow> machine \<Rightarrow> machine option" where
  "syscall_handler lo kb cl M = do {
     let M = push (ucast USER_DS) M;
     let M = push (r_ebp M) M;
     let M = push (eflags M) M;
     let M = push (ucast USER_CS) M;
     let M = push (load32 (mmem M) (r_ebp M + 4)) M;
     let M = SAVE_ALL M;
     M \<leftarrow> call_service lo kb cl M;
     let M = store_eax M;
     let M = RESTORE_ALL M;
     let M = M\<lparr>r_edx := load32 (mmem M) (r_esp M)\<rparr>;
     let M = M\<lparr>r_ecx := load32 (mmem M) (r_esp M + 12)\<rparr>;
     let M = M\<lparr>eflags := eflags M OR 0x200\<rparr>;
     Some (sysexit M) }"

definition keyboard_handler :: "byte \<Rightarrow> dword \<Rightarrow> clobber \<Rightarrow> machine \<Rightarrow> machine option" where
  "keyboard_handler event lo cl M = do {
     let M = SAVE_ALL M;
     M \<leftarrow> call_c lo cl 0 (\<lambda>u. do { con \<leftarrow> keyboard_routine event (kcon u); Some (u\<lparr>kcon := con\<rparr>, c_eax cl) }) M;
     let M = EOI M;
     let M = RESTORE_ALL M;
     Some (iret M) }"

definition clock_handler :: "(dword \<Rightarrow> console \<Rightarrow> console) \<Rightarrow> dword \<Rightarrow> clobber \<Rightarrow> machine \<Rightarrow> machine option" where
  "clock_handler zeos_show_clock lo cl M = do {
     let M = SAVE_ALL M;
     let M = EOI M;
     M \<leftarrow> call_c lo cl 0 (\<lambda>u. Some (clock_routine zeos_show_clock u, c_eax cl)) M;
     let M = RESTORE_ALL M;
     Some (iret M) }"

text \<open>\<open>buff\<close> is the uninitialised array of \<open>print_page_fault\<close>.\<close>

definition page_fault_handler2 ::
  "byte list \<Rightarrow> (user \<Rightarrow> user option) \<Rightarrow> dword \<Rightarrow> clobber \<Rightarrow> machine \<Rightarrow> machine option" where
  "page_fault_handler2 buff page_fault_routine lo cl M = do {
     let M = SAVE_ALL M;
     let M = push (load32 (mmem M) (r_esp M + 0x30)) M;
     M \<leftarrow> call_c lo cl 1 (\<lambda>u. do {
            con \<leftarrow> print_page_fault buff (load32 (umem u) (r_esp M)) (kcon u);
            Some (u\<lparr>kcon := con\<rparr>, c_eax cl) }) M;
     M \<leftarrow> call_c lo cl 0 (\<lambda>u. do { u \<leftarrow> page_fault_routine u; Some (u, c_eax cl) }) M;
     let M = EOI M;
     let M = RESTORE_ALL M;
     Some (iret M) }"

text \<open>
  \<open>cpu_idle\<close> of \<^verbatim>\<open>sched.c\<close> enables interrupts; then it spins in this state for ever.
\<close>

definition cpu_idle :: "machine \<Rightarrow> machine" where
  "cpu_idle M = M\<lparr>eflags := eflags M OR 0x200\<rparr>"

section \<open>Lemmas\<close>

definition saved_regs :: "machine \<Rightarrow> dword list" where
  "saved_regs M = [r_edx M, r_ecx M, r_ebx M, r_esi M, r_edi M, r_ebp M, r_eax M,
     ucast (r_ds M), ucast (r_es M), ucast (r_fs M), ucast (r_gs M)]"

lemma length_saved_regs [simp]: "length (saved_regs M) = 11"
  by (simp add: saved_regs_def)

lemma SAVE_ALL_eq: "SAVE_ALL M = (fold push (rev (saved_regs M)) M)
     \<lparr>r_edx := ucast KERNEL_DS, r_ds := KERNEL_DS, r_es := KERNEL_DS\<rparr>"
  by (simp add: SAVE_ALL_def saved_regs_def push_def Let_def)

lemma SAVE_ALL_spec:
  assumes "aligned4 (r_esp M)" "44 \<le> unat (r_esp M)"
  shows "\<exists>m'. SAVE_ALL M = M\<lparr>r_ds := KERNEL_DS, r_es := KERNEL_DS, r_esp := r_esp M - 44,
       r_edx := ucast KERNEL_DS, mst := set_umem m' (mst M)\<rparr>
     \<and> (\<forall>ws. frame (mmem M) (r_esp M) ws \<and> unat (r_esp M) + 4 * length ws \<le> 2 ^ 32 \<longrightarrow>
          frame m' (r_esp M - 44) (saved_regs M @ ws))
     \<and> mem_only (r_esp M - 44) (r_esp M) (mmem M) m'"
proof -
  obtain m' where m': "fold push (rev (saved_regs M)) M = M\<lparr>r_esp := r_esp M - 44, mst := set_umem m' (mst M)\<rparr>"
    "\<forall>ws. frame (mmem M) (r_esp M) ws \<and> unat (r_esp M) + 4 * length ws \<le> 2 ^ 32 \<longrightarrow>
       frame m' (r_esp M - 44) (saved_regs M @ ws)" "mem_only (r_esp M - 44) (r_esp M) (mmem M) m'"
    using fold_push [of M "rev (saved_regs M)"] assms by auto
  have "SAVE_ALL M = M\<lparr>r_ds := KERNEL_DS, r_es := KERNEL_DS, r_esp := r_esp M - 44,
       r_edx := ucast KERNEL_DS, mst := set_umem m' (mst M)\<rparr>"
    unfolding SAVE_ALL_eq m'(1) by (rule machine.equality) simp_all
  with m'(2,3) show ?thesis by blast
qed

lemma frame_saved:
  "frame m a (saved_regs M @ ws) \<longleftrightarrow>
     load32 m a = r_edx M \<and> load32 m (a + 4) = r_ecx M \<and> load32 m (a + 8) = r_ebx M \<and> load32 m (a + 12) = r_esi M
     \<and> load32 m (a + 16) = r_edi M \<and> load32 m (a + 20) = r_ebp M \<and> load32 m (a + 24) = r_eax M
     \<and> load32 m (a + 28) = ucast (r_ds M) \<and> load32 m (a + 32) = ucast (r_es M)
     \<and> load32 m (a + 36) = ucast (r_fs M) \<and> load32 m (a + 40) = ucast (r_gs M) \<and> frame m (a + 44) ws"
  by (simp add: saved_regs_def add.assoc)

text \<open>Restoring from a frame, whatever words it holds.\<close>

lemma RESTORE_ALL_spec:
  "RESTORE_ALL M = (let m = mmem M; a = r_esp M in M\<lparr>
     r_ds := ucast (load32 m (a + 28)), r_es := ucast (load32 m (a + 32)),
     r_fs := ucast (load32 m (a + 36)), r_gs := ucast (load32 m (a + 40)),
     r_esp := a + 44, r_eax := load32 m (a + 24), r_ebx := load32 m (a + 8), r_ecx := load32 m (a + 4),
     r_edx := load32 m a, r_esi := load32 m (a + 12), r_edi := load32 m (a + 16), r_ebp := load32 m (a + 20)\<rparr>)"
  by (rule machine.equality) (simp_all add: RESTORE_ALL_def pop_def Let_def add.commute)

text \<open>Code between \<open>SAVE_ALL\<close> and \<open>RESTORE_ALL\<close> that leaves the frame alone.\<close>

lemma save_restore:
  assumes al: "aligned4 (r_esp M)" and room: "unat lo + 44 \<le> unat (r_esp M)"
    and run: "r_esp M2 = r_esp M - 44" "mem_only lo (r_esp M - 44) (mmem (SAVE_ALL M)) (mmem M2)"
  shows "RESTORE_ALL M2 = M2\<lparr>r_ds := r_ds M, r_es := r_es M, r_fs := r_fs M, r_gs := r_gs M, r_esp := r_esp M,
      r_eax := r_eax M, r_ebx := r_ebx M, r_ecx := r_ecx M, r_edx := r_edx M, r_esi := r_esi M, r_edi := r_edi M,
      r_ebp := r_ebp M\<rparr>"
    and "mem_only lo (r_esp M) (mmem M) (mmem M2)"
proof -
  let ?a = "r_esp M - 44"
  have u: "unat ?a = unat (r_esp M) - 44" using unat_minus_small [of 44 "r_esp M"] room by simp
  have ala: "aligned4 ?a" using aligned4_minus [OF al aligned4_mult [of 11]] by simp
  obtain m' where m': "mmem (SAVE_ALL M) = m'" "frame m' ?a (saved_regs M)" "mem_only ?a (r_esp M) (mmem M) m'"
  proof -
    have "frame (mmem M) (r_esp M) [] \<and> unat (r_esp M) + 4 * length [] \<le> 2 ^ 32"
      using unsigned_less [of "r_esp M", where ?'a = nat] by simp
    then show thesis using SAVE_ALL_spec [OF al] room that by fastforce
  qed
  have "frame (mmem M2) ?a (saved_regs M)"
    using frame_outside [OF run(2) ala order_refl, of "saved_regs M"] m'(1,2) room u
      unsigned_less [of "r_esp M", where ?'a = nat] by simp
  then have fr: "frame (mmem M2) ?a (saved_regs M @ [])" by simp
  show "RESTORE_ALL M2 = M2\<lparr>r_ds := r_ds M, r_es := r_es M, r_fs := r_fs M, r_gs := r_gs M, r_esp := r_esp M,
      r_eax := r_eax M, r_ebx := r_ebx M, r_ecx := r_ecx M, r_edx := r_edx M, r_esi := r_esi M, r_edi := r_edi M,
      r_ebp := r_ebp M\<rparr>"
    using fr unfolding frame_saved by (simp add: RESTORE_ALL_spec run(1) Let_def)
  have lo: "lo \<le> ?a" using room u by (simp add: word_le_nat_alt)
  have "?a \<le> r_esp M" using u by (simp add: word_le_nat_alt)
  then show "mem_only lo (r_esp M) (mmem M) (mmem M2)"
    using mem_only_mono [OF m'(3) lo order_refl] mem_only_mono [OF run(2) order_refl] m'(1)
    by (auto intro: mem_only_trans)
qed

lemma SAVE_ALL_regs:
  assumes "aligned4 (r_esp M)" "44 \<le> unat (r_esp M)"
  shows "SAVE_ALL M = M\<lparr>r_ds := KERNEL_DS, r_es := KERNEL_DS, r_esp := r_esp M - 44,
       r_edx := ucast KERNEL_DS, mst := set_umem (mmem (SAVE_ALL M)) (mst M)\<rparr>"
  using SAVE_ALL_spec [OF assms] by auto

section \<open>Interrupt handlers\<close>

text \<open>
  An interrupt service routine: code that, on any stack, ends in \<open>iret\<close> with the registers as
  they were at its entry, after one end-of-interrupt command and the effect \<open>eff\<close> on the
  kernel, which does not look at the memory.
\<close>

locale isr =
  fixes handler :: "dword \<Rightarrow> clobber \<Rightarrow> machine \<Rightarrow> machine option"
    and eff :: "user \<Rightarrow> user option"
  assumes body: "aligned4 (r_esp M) \<Longrightarrow> unat lo + 44 \<le> unat (r_esp M) \<Longrightarrow> eff (mst M) = Some u \<Longrightarrow>
      \<exists>m' fl. handler lo cl M = Some (iret (M\<lparr>eflags := fl, eois := eois M + 1, mst := set_umem m' u\<rparr>))
        \<and> mem_only lo (r_esp M) (mmem M) m'"
    and eff_mem: "eff (set_umem m u) = map_option (set_umem m) (eff u)"
begin

lemma transparent:
  assumes v: "v < length (idt M)" "segmentSelector (idt M ! v) = KERNEL_CS"
    and top: "aligned4 (int_top M)" "unat lo + 64 \<le> unat (int_top M)"
    and eff: "eff (mst M) = Some u"
  shows "\<exists>M1 m'. int_entry v None M = Some M1 \<and> r_eip M1 = gate_offset (idt M ! v)
     \<and> handler lo cl M1 = Some (M\<lparr>eois := eois M + 1, mst := set_umem m' u\<rparr>)
     \<and> mem_only lo (int_top M) (mmem M) m'"
proof -
  have 24: "unat lo + 20 \<le> unat (int_top M)" "24 \<le> unat (int_top M)" using top(2) by simp_all
  obtain M1 m1 where M1: "int_entry v None M = Some M1" "r_eip M1 = gate_offset (idt M ! v)"
    "mst M1 = set_umem m1 (mst M)" "eois M1 = eois M" "r_eax M1 = r_eax M" "r_ebx M1 = r_ebx M" "r_ecx M1 = r_ecx M" "r_edx M1 = r_edx M"
    "aligned4 (r_esp M1)" "r_esp M1 = int_top M - int_size M" "unat (r_esp M1) = unat (int_top M) - unat (int_size M)"
    "mem_only lo (int_top M) (mmem M) m1"
    "\<And>fl a b c d n m' u. mem_only lo (r_esp M1) m1 m' \<Longrightarrow>
       iret (M1\<lparr>eflags := fl, r_eax := a, r_ebx := b, r_ecx := c, r_edx := d, eois := n, mst := set_umem m' u\<rparr>)
         = M\<lparr>r_eax := a, r_ebx := b, r_ecx := c, r_edx := d, eois := n, mst := set_umem m' u\<rparr>
       \<and> mem_only lo (int_top M) (mmem M) m'"
    by (rule int_bracket [OF v top(1) 24]) (rule that)
  have "unat lo + 44 \<le> unat (r_esp M1)" using M1(11) top(2) by (auto simp: int_size_def split: if_splits)
  moreover have "eff (mst M1) = Some (set_umem m1 u)" using eff eff_mem [of m1 "mst M"] M1(3) by simp
  ultimately obtain m' fl where b: "handler lo cl M1 = Some (iret (M1\<lparr>eflags := fl, eois := eois M + 1, mst := set_umem m' u\<rparr>))"
      "mem_only lo (r_esp M1) m1 m'"
    using body [OF M1(9), of lo "set_umem m1 u" cl] M1(3,4) by auto
  have "M1\<lparr>eflags := fl, eois := eois M + 1, mst := set_umem m' u\<rparr> = M1\<lparr>eflags := fl, r_eax := r_eax M, r_ebx := r_ebx M,
      r_ecx := r_ecx M, r_edx := r_edx M, eois := eois M + 1, mst := set_umem m' u\<rparr>"
    by (rule machine.equality) (use M1(5-8) in simp_all)
  then have "handler lo cl M1 = Some (M\<lparr>eois := eois M + 1, mst := set_umem m' u\<rparr>)"
    using b(1) M1(13) [OF b(2)] by simp
  then show ?thesis using M1(1,2) M1(13) [OF b(2)] by blast
qed

end

lemma isr_body:
  assumes "aligned4 (r_esp M)" "unat lo + 44 \<le> unat (r_esp M)"
  shows "\<exists>m'. RESTORE_ALL ((SAVE_ALL M)\<lparr>eflags := fl, r_eax := a, r_ecx := c, r_edx := d, eois := eois M + 1,
        mst := set_umem (scratch lo (r_esp M - 44) j (mmem (SAVE_ALL M))) u\<rparr>)
      = M\<lparr>eflags := fl, eois := eois M + 1, mst := set_umem m' u\<rparr>
    \<and> mem_only lo (r_esp M) (mmem M) m'"
proof -
  let ?m = "scratch lo (r_esp M - 44) j (mmem (SAVE_ALL M))"
  let ?M2 = "(SAVE_ALL M)\<lparr>eflags := fl, r_eax := a, r_ecx := c, r_edx := d, eois := eois M + 1, mst := set_umem ?m u\<rparr>"
  have r: "SAVE_ALL M = M\<lparr>r_ds := KERNEL_DS, r_es := KERNEL_DS, r_esp := r_esp M - 44,
       r_edx := ucast KERNEL_DS, mst := set_umem (mmem (SAVE_ALL M)) (mst M)\<rparr>"
    using assms by (intro SAVE_ALL_regs) simp_all
  have "r_esp ?M2 = r_esp M - 44" by (simp, subst r) simp
  note s = save_restore [OF assms this]
  have "mem_only lo (r_esp M - 44) (mmem (SAVE_ALL M)) (mmem ?M2)" by (simp add: mem_only_scratch)
  note s = s [OF this]
  have "RESTORE_ALL ?M2 = M\<lparr>eflags := fl, eois := eois M + 1, mst := set_umem ?m u\<rparr>"
    unfolding s(1) by (rule machine.equality; simp; subst r; simp)
  then show ?thesis using s(2) by auto
qed

definition clock_effect :: "(dword \<Rightarrow> console \<Rightarrow> console) \<Rightarrow> user \<Rightarrow> user option" where
  "clock_effect zeos_show_clock u = Some (clock_routine zeos_show_clock u)"

definition keyboard_effect :: "byte \<Rightarrow> user \<Rightarrow> user option" where
  "keyboard_effect event u = do { con \<leftarrow> keyboard_routine event (kcon u); Some (u\<lparr>kcon := con\<rparr>) }"

lemma SAVE_ALL_fields [simp]:
  "r_esp (SAVE_ALL M) = r_esp M - 44" "eois (SAVE_ALL M) = eois M" "eflags (SAVE_ALL M) = eflags M"
  "r_eax (SAVE_ALL M) = r_eax M" "r_ebx (SAVE_ALL M) = r_ebx M" "r_ebp (SAVE_ALL M) = r_ebp M"
  "r_cs (SAVE_ALL M) = r_cs M" "kcon (mst (SAVE_ALL M)) = kcon (mst M)" "zeos_ticks (mst (SAVE_ALL M)) = zeos_ticks (mst M)"
  by (simp_all add: SAVE_ALL_def push_def Let_def)

lemma SAVE_ALL_mst: "mst (SAVE_ALL M) = set_umem (mmem (SAVE_ALL M)) (mst M)"
  by (simp add: SAVE_ALL_def push_def Let_def)

lemma clock_routine_mem: "clock_routine f (set_umem m u) = set_umem m (clock_routine f u)"
  by (simp add: clock_routine_def set_umem_def Let_def)

lemma clock_handler_body:
  assumes "aligned4 (r_esp M)" "unat lo + 44 \<le> unat (r_esp M)"
  shows "\<exists>m' fl. clock_handler f lo cl M = Some (iret (M\<lparr>eflags := fl, eois := eois M + 1,
       mst := set_umem m' (clock_routine f (mst M))\<rparr>)) \<and> mem_only lo (r_esp M) (mmem M) m'"
proof -
  let ?fl = "arith_flags (c_flags cl) (eflags M)"
  have "clock_handler f lo cl M = Some (iret (RESTORE_ALL ((SAVE_ALL M)\<lparr>eflags := ?fl, r_eax := c_eax cl,
      r_ecx := c_ecx cl, r_edx := c_edx cl, eois := eois M + 1,
      mst := set_umem (scratch lo (r_esp M - 44) (c_stack cl) (mmem (SAVE_ALL M))) (clock_routine f (mst M))\<rparr>)))"
    unfolding clock_handler_def EOI_def call_c_def Let_def
    by (simp, intro arg_cong [where f = iret] arg_cong [where f = RESTORE_ALL] machine.equality)
      (simp_all, subst (1 2) SAVE_ALL_mst, simp add: clock_routine_mem)
  then show ?thesis using isr_body [OF assms] by metis
qed

lemma keyboard_handler_body:
  assumes "aligned4 (r_esp M)" "unat lo + 44 \<le> unat (r_esp M)" "keyboard_routine event (kcon (mst M)) = Some con"
  shows "\<exists>m' fl. keyboard_handler event lo cl M = Some (iret (M\<lparr>eflags := fl, eois := eois M + 1,
       mst := set_umem m' ((mst M)\<lparr>kcon := con\<rparr>)\<rparr>)) \<and> mem_only lo (r_esp M) (mmem M) m'"
proof -
  let ?fl = "arith_flags (c_flags cl) (eflags M)"
  have "keyboard_handler event lo cl M = Some (iret (RESTORE_ALL ((SAVE_ALL M)\<lparr>eflags := ?fl,
      r_eax := (c_eax cl AND NOT 0xFF) OR 0x20, r_ecx := c_ecx cl, r_edx := c_edx cl, eois := eois M + 1,
      mst := set_umem (scratch lo (r_esp M - 44) (c_stack cl) (mmem (SAVE_ALL M))) ((mst M)\<lparr>kcon := con\<rparr>)\<rparr>)))"
    unfolding keyboard_handler_def EOI_def call_c_def Let_def
    using assms(3) by (simp, intro arg_cong [where f = iret] arg_cong [where f = RESTORE_ALL] machine.equality)
      (simp_all, subst (2) SAVE_ALL_mst, simp add: set_umem_def)
  then show ?thesis using isr_body [OF assms(1,2)] by metis
qed

interpretation clock: isr "clock_handler f" "clock_effect f" for f
proof unfold_locales
  fix M :: machine and lo :: dword and cl u
  assume "aligned4 (r_esp M)" "unat lo + 44 \<le> unat (r_esp M)" "clock_effect f (mst M) = Some u"
  then show "\<exists>m' fl. clock_handler f lo cl M = Some (iret (M\<lparr>eflags := fl, eois := eois M + 1, mst := set_umem m' u\<rparr>))
      \<and> mem_only lo (r_esp M) (mmem M) m'"
    using clock_handler_body [of M lo f cl] by (simp add: clock_effect_def)
qed (simp add: clock_effect_def clock_routine_mem)

interpretation keyboard: isr "keyboard_handler event" "keyboard_effect event" for event
proof unfold_locales
  fix M :: machine and lo :: dword and cl u
  assume "aligned4 (r_esp M)" "unat lo + 44 \<le> unat (r_esp M)" "keyboard_effect event (mst M) = Some u"
  then show "\<exists>m' fl. keyboard_handler event lo cl M = Some (iret (M\<lparr>eflags := fl, eois := eois M + 1, mst := set_umem m' u\<rparr>))
      \<and> mem_only lo (r_esp M) (mmem M) m'"
    using keyboard_handler_body [of M lo event _ cl] by (auto simp: keyboard_effect_def bind_eq_Some_conv)
qed (auto simp: keyboard_effect_def set_umem_def split: bind_split)

section \<open>Page faults\<close>

text \<open>The frame of an exception with an error code, after \<open>SAVE_ALL\<close>.\<close>

lemma fault_frame:
  assumes v: "v < length (idt M)" and top: "aligned4 (int_top M)" "80 \<le> unat (int_top M)"
  obtains M1 a where "int_entry v (Some e) M = Some M1" "r_esp (SAVE_ALL M1) = a" "aligned4 a"
    "unat a = unat (int_top M) - unat (int_size M) - 48"
    "frame (mmem (SAVE_ALL M1)) a (saved_regs M @ e # int_frame M)"
    "kcon (mst M1) = kcon (mst M)" "zeos_ticks (mst M1) = zeos_ticks (mst M)"
proof -
  define b where "b = int_top M - int_size_err (Some e) M"
  obtain m1 fl where m1: "int_entry v (Some e) M = Some (M\<lparr>eflags := fl, r_ss := if r_cs M AND 3 = 0 then r_ss M else ss0 (tss M),
        r_esp := b, r_cs := segmentSelector (idt M ! v), r_eip := gate_offset (idt M ! v), mst := set_umem m1 (mst M)\<rparr>)"
      (is "_ = Some ?M1")
    "frame m1 b (e # int_frame M)"
    using int_entry_spec [OF v top(1), of "Some e"] top(2) unfolding b_def by (auto simp: err_words_def)
  obtain n where n: "int_size_err (Some e) M = 4 * of_nat n" "n \<le> 6" "length (int_frame M) + 1 = n" "unat (int_size M) + 4 = 4 * n"
    by (cases "r_cs M AND 3 = 0")
      (auto simp: int_size_err_def err_words_def int_size_def int_frame_def intro: that [of 4] that [of 6])
  have u: "unat b = unat (int_top M) - 4 * n" using unat_minus_small [of "4 * n" "int_top M"] top(2) n b_def by simp
  have al: "aligned4 b" unfolding b_def n(1) by (rule aligned4_minus [OF top(1) aligned4_mult])
  have room: "44 \<le> unat b" using u n(2) top(2) by simp
  have "unat b + 4 * length (e # int_frame M) \<le> 2 ^ 32"
    using u n(3) unsigned_less [of "int_top M", where ?'a = nat] top(2) n(2) by simp
  then have fr: "frame (mmem (SAVE_ALL ?M1)) (b - 44) (saved_regs ?M1 @ e # int_frame M)"
    using SAVE_ALL_spec [of ?M1] al room m1(2) by (auto simp del: frame.simps)
  have reg: "saved_regs ?M1 = saved_regs M" by (simp add: saved_regs_def)
  have "unat (b - 44) = unat (int_top M) - unat (int_size M) - 48"
    using unat_minus_small [of 44 b] room u n(4) by simp
  then show thesis
    using fr al aligned4_minus [OF al aligned4_mult [of 11]] unfolding reg
    by (intro that [OF m1(1), of "b - 44"]) simp_all
qed

lemma page_fault_returns:
  assumes v: "v < length (idt M)" and top: "aligned4 (int_top M)" "unat lo + 80 \<le> unat (int_top M)"
    and p: "print_page_fault buff (r_eip M) (kcon (mst M)) = Some con"
  shows "\<exists>M1 u1. int_entry v (Some e) M = Some M1 \<and> kcon u1 = con
     \<and> (page_fault_routine u1 = None \<longrightarrow> page_fault_handler2 buff page_fault_routine lo cl M1 = None)
     \<and> (\<forall>u2. page_fault_routine u1 = Some u2 \<and> umem u2 = umem u1 \<longrightarrow>
          (\<exists>M2. page_fault_handler2 buff page_fault_routine lo cl M1 = Some M2 \<and> r_eip M2 = ucast (r_gs M)
            \<and> r_cs M2 = ucast e \<and> eflags M2 = r_eip M \<and> r_ecx M2 = r_edx M \<and> r_ebx M2 = r_ecx M))"
proof -
  have "80 \<le> unat (int_top M)" using top(2) by simp
  then obtain M1 a where M1: "int_entry v (Some e) M = Some M1" "r_esp (SAVE_ALL M1) = a" "aligned4 a"
    "unat a = unat (int_top M) - unat (int_size M) - 48"
    "frame (mmem (SAVE_ALL M1)) a (saved_regs M @ e # int_frame M)"
    "kcon (mst M1) = kcon (mst M)" "zeos_ticks (mst M1) = zeos_ticks (mst M)"
    by (rule fault_frame [OF v top(1)]) (rule that)
  have sz: "unat (int_size M) \<in> {12, 20}" by (simp add: int_size_def)
  have len: "4 * length (saved_regs M @ e # int_frame M) = unat (int_size M) + 48"
    by (simp add: int_size_def int_frame_def)
  have ua: "unat lo + 4 \<le> unat a" "unat a + 4 * length (saved_regs M @ e # int_frame M) \<le> 2 ^ 32"
    using M1(4) top(2) sz unsigned_less [of "int_top M", where ?'a = nat] unfolding len by auto
  have a4: "unat (a - 4) = unat a - 4" using unat_minus_small [of 4 a] ua(1) by simp
  let ?S = "SAVE_ALL M1"
  let ?P = "push (r_eip M) ?S"
  have eip: "load32 (mmem ?S) (a + 0x30) = r_eip M"
    using M1(5) unfolding frame_saved by (simp add: int_frame_def add.assoc)
  have P: "r_esp ?P = a - 4" "mst ?P = set_umem (store32 (mmem ?S) (a - 4) (r_eip M)) (mst ?S)"
    using M1(2) by (simp_all add: push_def)
  have frP: "frame (mmem ?P) (a - 4) (r_eip M # saved_regs M @ e # int_frame M)"
    using frame_store [OF M1(3) _ ua(2) M1(5), of "r_eip M"] ua(1) unfolding P by (simp del: frame.simps)
  define u1 where "u1 = set_umem (scratch lo a (c_stack cl) (mmem ?P)) ((mst ?P)\<lparr>kcon := con\<rparr>)"
  define fl where "fl = arith_flags (c_flags cl) (eflags M1)"
  have handler: "page_fault_handler2 buff page_fault_routine lo cl M1 = do {
      M \<leftarrow> call_c lo cl 0 (\<lambda>u. do { u \<leftarrow> page_fault_routine u; Some (u, c_eax cl) })
        (?P\<lparr>eflags := fl, r_eax := c_eax cl, r_ecx := c_ecx cl, r_edx := c_edx cl, mst := u1\<rparr>);
      Some (iret (RESTORE_ALL (EOI M))) }"
  proof -
    have "print_page_fault buff (load32 (mmem ?P) (r_esp ?P)) (kcon (mst ?P)) = Some con"
      using p frP P M1(6) by simp
    moreover have "eflags ?P = eflags M1" "r_esp ?P + 4 = a" using P(1) by (simp_all add: push_def)
    ultimately show ?thesis
      unfolding page_fault_handler2_def Let_def M1(2) eip
      by (subst (1) call_c_def) (simp add: u1_def fl_def)
  qed
  have "frame (umem u1) a (saved_regs M @ e # int_frame M)"
  proof -
    have "mem_only lo a (mmem ?P) (umem u1)" by (simp add: u1_def mem_only_scratch)
    from frame_outside [OF this M1(3) order_refl ua(2)] frP show ?thesis by simp
  qed
  then have fr: "frame (scratch lo (a - 4) (c_stack cl) (umem u1)) a (saved_regs M @ e # int_frame M)"
  proof -
    have "a - 4 \<le> a" using a4 by (simp add: word_le_nat_alt)
    from frame_outside [OF mem_only_scratch M1(3) this ua(2)] \<open>frame (umem u1) a _\<close> show ?thesis by simp
  qed
  have "\<exists>M2. page_fault_handler2 buff page_fault_routine lo cl M1 = Some M2 \<and> r_eip M2 = ucast (r_gs M)
            \<and> r_cs M2 = ucast e \<and> eflags M2 = r_eip M \<and> r_ecx M2 = r_edx M \<and> r_ebx M2 = r_ecx M"
    if u2: "page_fault_routine u1 = Some u2" "umem u2 = umem u1" for u2
    using fr u2 unfolding handler frame_saved
    by (simp add: call_c_def P(1) EOI_def RESTORE_ALL_spec iret_def pop_def int_frame_def Let_def
        add.assoc add.commute [of "numeral _" a])
  moreover have "page_fault_handler2 buff page_fault_routine lo cl M1 = None" if "page_fault_routine u1 = None"
    unfolding handler using that by (simp add: call_c_def)
  moreover have "kcon u1 = con" by (simp add: u1_def)
  ultimately show ?thesis using M1(1) by (intro exI [of _ M1] exI [of _ u1]) simp
qed

text \<open>A processor in ring 3 on the user stack, with gates, TSS and MSRs set up.\<close>

definition example_machine :: machine where
  "example_machine = \<lparr>eflags = 0x202, r_ds = USER_DS, r_es = USER_DS, r_fs = 0, r_gs = 0, r_ss = USER_DS,
     r_esp = 0x113F00, r_cs = USER_CS, r_eip = 0x114100, idtr = \<lparr>r_limit = 0x7FF, r_base = 0x30000\<rparr>,
     gdtr = \<lparr>r_limit = 2048, r_base = GDT_START\<rparr>, ldtr = 0, tr = KERNEL_TSS,
     msr = (\<lambda>_. 0)(0x174 := 0x10, 0x175 := 0x36000, 0x176 := 0x20000), pic_mask = 0xFC,
     idt = replicate 256 \<lparr>lowOffset = 0x1000, segmentSelector = KERNEL_CS, g_flags = 0x8E00, highOffset = 0x2\<rparr>,
     idtR = \<lparr>r_limit = 0x7FF, r_base = 0x30000\<rparr>, gdt = gdt zero_tables, gdtR = \<lparr>r_limit = 2048, r_base = GDT_START\<rparr>,
     tss = (tss zero_tables)\<lparr>esp0 := 0x36000, ss0 := KERNEL_DS\<rparr>,
     r_eax = 10, r_ebx = 11, r_ecx = 12, r_edx = 13, r_esi = 14, r_edi = 15, r_ebp = 0x113E00, eois = 0,
     mst = \<lparr>zeos_ticks = 7, kcon = console_init (\<lambda>_. 0),
       kmm = \<lparr>kmem = (\<lambda>a. ucast a), phys_mem = replicate 1024 0, cr0 = 0, cr3 = 0\<rparr>, errno = 0\<rparr>\<rparr>"

definition example_clobber :: clobber where
  "example_clobber = \<lparr>c_eax = 0x55, c_ecx = 0x66, c_edx = 0x77, c_flags = 0x44, c_stack = (\<lambda>_. 0xCC)\<rparr>"

lemma example_machine_fields:
  "idt example_machine = replicate 256 \<lparr>lowOffset = 0x1000, segmentSelector = KERNEL_CS, g_flags = 0x8E00, highOffset = 0x2\<rparr>"
  "int_top example_machine = 0x36000" "esp0 (tss example_machine) = 0x36000"
  "r_cs example_machine = USER_CS" "r_ss example_machine = USER_DS" "r_eax example_machine = 10"
  "r_ebp example_machine = 0x113E00" "msr example_machine 0x174 = 0x10" "msr example_machine 0x175 = 0x36000"
  "msr example_machine 0x176 = 0x20000" "zeos_ticks (mst example_machine) = 7" "kcon (mst example_machine) = console_init (\<lambda>_. 0)"
  "r_esi example_machine = 14" "r_gs example_machine = 0" "r_eip example_machine = 0x114100"
  by (simp_all add: example_machine_def int_top_def)

section \<open>Properties\<close>

text \<open>
  C8. Clock and keyboard interrupts are invisible to the code they interrupt, in ring 3 and in
  ring 0 and whatever the compiled routines leave in the registers that they do not keep:
  execution resumes at the same instruction with every register, flag and segment as before.
  Exactly one end-of-interrupt command has been sent, the routine has had its effect on the
  clock or the console, and memory has changed only on the kernel stack below the
  interrupted code's.
\<close>

theorem interrupts_transparent:
  assumes "v < length (idt M)" "segmentSelector (idt M ! v) = KERNEL_CS"
    and "aligned4 (int_top M)" "unat lo + 64 \<le> unat (int_top M)"
  shows "(\<exists>M1 m'. int_entry v None M = Some M1
       \<and> clock_handler zeos_show_clock lo cl M1
           = Some (M\<lparr>eois := eois M + 1, mst := set_umem m' (clock_routine zeos_show_clock (mst M))\<rparr>)
       \<and> mem_only lo (int_top M) (mmem M) m')
     \<and> (\<forall>con. keyboard_routine event (kcon (mst M)) = Some con \<longrightarrow> (\<exists>M1 m'. int_entry v None M = Some M1
       \<and> keyboard_handler event lo cl M1 = Some (M\<lparr>eois := eois M + 1, mst := set_umem m' ((mst M)\<lparr>kcon := con\<rparr>)\<rparr>)
       \<and> mem_only lo (int_top M) (mmem M) m'))"
  using clock.transparent [OF assms, of zeos_show_clock _ cl] keyboard.transparent [OF assms, of event _ cl]
  by (force simp: clock_effect_def keyboard_effect_def)

theorem interrupts_transparent_witness:
  "\<exists>M1 M2. int_entry 32 None example_machine = Some M1 \<and> clock_handler (\<lambda>_ con. con) 0x35000 example_clobber M1 = Some M2
     \<and> r_eip M2 = 0x114100 \<and> r_esi M2 = 14 \<and> zeos_ticks (mst M2) = 8"
proof -
  have "aligned4 (int_top example_machine)" by (simp add: example_machine_fields aligned4_def)
  from interrupts_transparent [OF _ _ this, of 32 "0x35000" "\<lambda>_ con. con" example_clobber 0]
  show ?thesis by (auto simp: example_machine_fields clock_routine_def)
qed



text \<open>
  The assembler routine \<open>writeMsr\<close>, called with a register number and a value on the
  stack, writes the value to that register, keeps every other one, and returns to its caller
  with EBP and the stack pointer as they were.
\<close>

theorem writeMsr_code_correct:
  assumes "aligned4 (r_esp M)" "4 \<le> unat (r_esp M)" "unat (r_esp M) + 12 \<le> 2 ^ 32"
    and "frame (mmem M) (r_esp M) [ret, n, x]"
  shows "\<exists>m'. writeMsr_code M = M\<lparr>r_esp := r_esp M + 4, r_eip := ret, msr := (msr M)(n := x),
       r_eax := x, r_ecx := n, r_edx := 0, mst := set_umem m' (mst M)\<rparr>
     \<and> mem_only (r_esp M - 4) (r_esp M) (mmem M) m'"
proof -
  let ?m = "store32 (mmem M) (r_esp M - 4) (r_ebp M)"
  have "frame ?m (r_esp M - 4) [r_ebp M, ret, n, x]"
    using frame_store [OF assms(1,2) _ assms(4)] assms(3) by simp
  then have "writeMsr_code M = M\<lparr>r_esp := r_esp M + 4, r_eip := ret, msr := (msr M)(n := x),
       r_eax := x, r_ecx := n, r_edx := 0, mst := set_umem ?m (mst M)\<rparr>"
    by (intro machine.equality)
      (simp_all add: writeMsr_code_def writeMsr_def push_def pop_def Let_def add.commute)
  moreover have "mem_only (r_esp M - 4) (r_esp M) (mmem M) ?m" using assms(1,2) by (rule mem_only_store)
  ultimately show ?thesis by blast
qed

theorem writeMsr_code_correct_witness:
  "msr (writeMsr_code (example_machine\<lparr>r_esp := 0x35F00,
     mst := set_umem (store32 (store32 (\<lambda>_. 0) 0x35F04 0x175) 0x35F08 0x36000) (mst example_machine)\<rparr>)) 0x175 = 0x36000"
proof -
  let ?m = "store32 (store32 (\<lambda>_. 0) 0x35F04 0x175) 0x35F08 0x36000"
  let ?M = "example_machine\<lparr>r_esp := 0x35F00, mst := set_umem ?m (mst example_machine)\<rparr>"
  have "frame (mmem ?M) (r_esp ?M) [0, 0x175, 0x36000]"
    by (simp add: load32_store32_other aligned4_def) (simp add: load32_def store32_def)
  then show ?thesis using writeMsr_code_correct [of ?M 0 "0x175" "0x36000"] by (auto simp: aligned4_def)
qed

end
