(* ===== verification/Zeos_Gate.thy ===== *)
theory Zeos_Gate
  imports Zeos_Entry
begin

text \<open>
  System calls through the entry points of \<^verbatim>\<open>entry.S\<close>, from the user's instruction to
  the one after it: what the handlers of Zeos_Entry do is described by \<open>syscall_spec\<close>, for
  \<open>int 0x80\<close> and for \<open>sysenter\<close>. The locale \<open>syscall_gate\<close> is what the code of a caller
  relies on.
\<close>

section \<open>System calls\<close>

lemma service_write:
  assumes "rd sys_call_table (unat (n :: dword)) = Some Sys_write"
  shows "n = 4"
proof -
  have "unat n < 11" using assms by (simp add: rd_def sys_call_table_def split: if_splits)
  then have "unat n \<in> {0, 1, 2, 3, 4, 5, 6, 7, 8, 9, 10}" by (simp, presburger)
  then have "unat n = 4" using assms by (auto simp: sys_call_table_def)
  then show ?thesis by (simp add: word_unat_eq_iff)
qed

lemma arith_flags_idem [simp]: "arith_flags f (arith_flags f e) = arith_flags f e"
  by (rule bit_word_eqI) (auto simp: arith_flags_def bit_simps)

text \<open>How far up a routine may overwrite the stack: \<open>sys_write\<close> owns its three arguments.\<close>

definition arg_bytes :: "dword \<Rightarrow> dword" where
  "arg_bytes n = (if n = 4 then 12 else 0)"

lemma call_service_refines:
  assumes kb: "kbuf_ok kb" "lo \<le> kb" "unat kb + 128 \<le> unat (r_esp M)" and top: "unat (r_esp M) + 12 < 2 ^ 32"
    and args: "frame (mmem M) (r_esp M) (a # b # c # ws)"
    and spec: "syscall_spec (mmem M) (zeos_ticks (mst M)) (r_eax M) a b c = Some (t, r)"
  shows "\<exists>m' x y. call_service lo kb cl M = Some (M\<lparr>eflags := arith_flags (c_flags cl) (eflags M), r_eax := r,
        r_ecx := x, r_edx := y, mst := set_umem m' ((mst M)\<lparr>kcon := fold printc t (kcon (mst M))\<rparr>)\<rparr>)
     \<and> mem_only lo (r_esp M + arg_bytes (r_eax M)) (mmem M) m'"
proof -
  let ?n = "r_eax M" and ?u = "(mst M)\<lparr>kcon := fold printc t (kcon (mst M))\<rparr>"
  have ld: "load32 (mmem M) (r_esp M) = a" "load32 (mmem M) (r_esp M + 4) = b" "load32 (mmem M) (r_esp M + 8) = c"
    using args by (simp_all add: add.commute)
  obtain m1 where m1: "dispatch_syscall kb ?n a b c (mst M) = Some (set_umem m1 ?u, r)"
      "agree_outside kb 128 (mmem M) m1"
    using dispatch_refines [OF kb(1) spec] by (auto simp: set_umem_def)
  have hi: "r_esp M \<le> r_esp M + arg_bytes ?n"
    using top unat_add_small [of "r_esp M" 12] by (simp add: arg_bytes_def word_le_nat_alt)
  have ag: "mem_only lo (r_esp M) (mmem M) m1"
    unfolding mem_only_def
  proof (intro allI impI)
    fix x assume x: "x < lo \<or> r_esp M \<le> x"
    have "x \<noteq> kb + of_nat i" if "i < 128" for i
      using x that kb(2,3) unat_add_small [of kb i] unsigned_less [of "r_esp M", where ?'a = nat]
      by (auto simp: word_le_nat_alt word_less_nat_alt)
    then show "m1 x = mmem M x" using m1(2) by (simp add: agree_outside_def)
  qed
  have fin: "mem_only lo (r_esp M + arg_bytes ?n) (mmem M) (scratch lo (r_esp M + arg_bytes ?n) (c_stack cl) m1)"
    using mem_only_trans [OF mem_only_mono [OF ag order_refl hi] mem_only_scratch] .
  show ?thesis
  proof (cases "sint ?n < 0 \<or> sint ?n > MAX_SYSCALL")
    case True
    then have e: "Some (mst M, - 38) = Some (set_umem m1 ?u, r)" using m1(1) dispatch_refused by metis
    then have "set_umem m1 ?u = mst M" "r = - 38" by auto
    moreover have "call_service lo kb cl M = Some (M\<lparr>eflags := arith_flags (c_flags cl) (eflags M), r_eax := - 38\<rparr>)"
      using True unfolding call_service_def cmpl_def Let_def by presburger
    ultimately show ?thesis
      by (intro exI [of _ m1] exI [of _ "r_ecx M"] exI [of _ "r_edx M"]) (auto intro: mem_only_mono [OF ag order_refl hi])
  next
    case False
    then obtain f where f: "rd sys_call_table (unat ?n) = Some f"
      using m1(1) by (auto simp: dispatch_syscall_def bind_eq_Some_conv)
    have "call_service lo kb cl M = Some (M\<lparr>eflags := arith_flags (c_flags cl) (eflags M), r_eax := r, r_ecx := c_ecx cl,
        r_edx := c_edx cl, mst := set_umem (scratch lo (r_esp M + arg_bytes ?n) (c_stack cl) m1) ?u\<rparr>)"
    proof (cases f)
      case Sys_ni_syscall
      then have "?n \<noteq> 4" using f by (auto simp: sys_call_table_def)
      then show ?thesis using Sys_ni_syscall False f m1(1)
        by (simp add: call_service_def dispatch_syscall_def cmpl_def call_c_def arg_bytes_def Let_def)
          (metis set_umem_simps(1,2))
    next
      case Sys_write
      then have "?n = 4" using f service_write by simp
      then show ?thesis using Sys_write False f m1(1)
        by (simp add: call_service_def dispatch_syscall_def cmpl_def call_c_def arg_bytes_def Let_def ld split: prod.splits)
    next
      case Sys_gettime
      then have "?n \<noteq> 4" using f by (auto simp: sys_call_table_def)
      then show ?thesis using Sys_gettime False f m1(1)
        by (simp add: call_service_def dispatch_syscall_def cmpl_def call_c_def arg_bytes_def Let_def)
          (metis set_umem_simps(1,2))
    qed
    then show ?thesis using fin by blast
  qed
qed

lemma syscall_spec_cong:
  assumes "\<And>x. 0x100000 \<le> unat x \<Longrightarrow> m' x = m x"
  shows "syscall_spec m' ticks n a b c = syscall_spec m ticks n a b c"
proof -
  have "read_bytes m' b (unat c) = read_bytes m b (unat c)" if "0x100000 \<le> unat b" "unat b + unat c < 0x11D000"
    using that assms unat_add_small [of b] by (intro read_bytes_cong) auto
  then show ?thesis by (simp add: syscall_spec_def not_less not_le)
qed

text \<open>A kernel stack: its lowest address and its top, the buffer of \<open>sys_write\<close> inside it.\<close>

definition kernel_stack :: "dword \<Rightarrow> dword \<Rightarrow> dword \<Rightarrow> bool" where
  "kernel_stack lo kb esp \<longleftrightarrow> aligned4 esp \<and> unat esp \<le> 0x100000 \<and> lo \<le> kb \<and> unat kb + 172 \<le> unat esp"

lemma load32_far: "aligned4 a \<Longrightarrow> aligned4 i \<Longrightarrow> aligned4 j \<Longrightarrow> i \<noteq> j \<Longrightarrow>
    load32 (store32 m (a + i) v) (a + j) = load32 m (a + j)"
  by (intro load32_store32_other) (simp_all add: aligned4_plus)

lemma RESTORE_store_eax:
  assumes "aligned4 (r_esp M)"
  shows "RESTORE_ALL (store_eax M) = (let m = mmem M; a = r_esp M in M\<lparr>
     r_ds := ucast (load32 m (a + 28)), r_es := ucast (load32 m (a + 32)),
     r_fs := ucast (load32 m (a + 36)), r_gs := ucast (load32 m (a + 40)),
     r_esp := a + 44, r_ebx := load32 m (a + 8), r_ecx := load32 m (a + 4), r_edx := load32 m a,
     r_esi := load32 m (a + 12), r_edi := load32 m (a + 16), r_ebp := load32 m (a + 20),
     mst := set_umem (store32 m (a + 24) (r_eax M)) (mst M)\<rparr>)"
  unfolding RESTORE_ALL_spec store_eax_def Let_def
  by (rule machine.equality)
    (use load32_far [OF assms, of 24] load32_far [OF assms, of 24 0] in \<open>simp_all add: aligned4_def\<close>)

text \<open>The common part of the two handlers, from \<open>SAVE_ALL\<close> to \<open>RESTORE_ALL\<close>.\<close>

lemma service_body:
  assumes ks: "kernel_stack lo kb (r_esp M)"
    and sp: "syscall_spec (mmem M) (zeos_ticks (mst M)) (r_eax M) (r_edx M) (r_ecx M) (r_ebx M) = Some (t, r)"
  shows "\<exists>M1 m' ebx ecx edx. call_service lo kb cl (SAVE_ALL M) = Some M1
     \<and> RESTORE_ALL (store_eax M1) = M\<lparr>eflags := arith_flags (c_flags cl) (eflags M), r_eax := r, r_ebx := ebx,
          r_ecx := ecx, r_edx := edx, mst := set_umem m' ((mst M)\<lparr>kcon := fold printc t (kcon (mst M))\<rparr>)\<rparr>
     \<and> (r_eax M \<noteq> 4 \<longrightarrow> ebx = r_ebx M \<and> ecx = r_ecx M \<and> edx = r_edx M)
     \<and> mem_only lo (r_esp M) (mmem M) m'"
proof -
  let ?a = "r_esp M - 44" and ?S = "SAVE_ALL M" and ?n = "r_eax M"
  have al: "aligned4 (r_esp M)" and top: "unat (r_esp M) \<le> 0x100000" and kb: "lo \<le> kb" "unat kb + 128 \<le> unat (r_esp M) - 44"
    and room: "44 \<le> unat (r_esp M)"
    using ks by (auto simp: kernel_stack_def)
  have u: "unat ?a = unat (r_esp M) - 44" using unat_minus_small [of 44 "r_esp M"] room by simp
  have ala: "aligned4 ?a" using aligned4_minus [OF al aligned4_mult [of 11]] by simp
  obtain mS where S: "?S = M\<lparr>r_ds := KERNEL_DS, r_es := KERNEL_DS, r_esp := ?a, r_edx := ucast KERNEL_DS, mst := set_umem mS (mst M)\<rparr>"
    "frame mS ?a (saved_regs M @ [])" "mem_only ?a (r_esp M) (mmem M) mS"
    using SAVE_ALL_spec [OF al room] top by (elim exE conjE) (drule spec [of _ "[]"], simp)
  have mS: "mmem ?S = mS" using S(1) by simp
  have "mS x = mmem M x" if "0x100000 \<le> unat x" for x
    using S(3) that top by (simp add: mem_only_def word_le_nat_alt)
  then have spec': "syscall_spec (mmem ?S) (zeos_ticks (mst ?S)) (r_eax ?S) (r_edx M) (r_ecx M) (r_ebx M) = Some (t, r)"
    using sp syscall_spec_cong [of mS "mmem M"] unfolding mS by simp
  have args: "frame (mmem ?S) (r_esp ?S) (r_edx M # r_ecx M # r_ebx M # [])"
    using S(2) unfolding mS frame_saved by (simp add: add.commute)
  have "kbuf_ok kb" "unat kb + 128 \<le> unat (r_esp ?S)" "unat (r_esp ?S) + 12 < 2 ^ 32"
    using kb top u by (simp_all add: kbuf_ok_def)
  from call_service_refines [OF this(1) kb(1) this(2,3) args spec', of cl]
  obtain m1 x y where c: "call_service lo kb cl ?S = Some (?S\<lparr>eflags := arith_flags (c_flags cl) (eflags M), r_eax := r,
        r_ecx := x, r_edx := y, mst := set_umem m1 ((mst ?S)\<lparr>kcon := fold printc t (kcon (mst M))\<rparr>)\<rparr>)"
      "mem_only lo (?a + arg_bytes ?n) mS m1"
    unfolding mS by auto
  let ?M1 = "?S\<lparr>eflags := arith_flags (c_flags cl) (eflags M), r_eax := r,
        r_ecx := x, r_edx := y, mst := set_umem m1 ((mst ?S)\<lparr>kcon := fold printc t (kcon (mst M))\<rparr>)\<rparr>"
  let ?m2 = "store32 m1 (?a + 24) r"
  have "frame m1 (?a + 12) (drop 3 (saved_regs M))"
  proof -
    have "?a + arg_bytes ?n \<le> ?a + 12"
      using unat_add_small [of ?a 12] top u by (simp add: arg_bytes_def word_le_nat_alt)
    then show ?thesis
      using frame_outside [OF c(2), of "?a + 12" "drop 3 (saved_regs M)"] S(2) aligned4_plus [OF ala aligned4_mult [of 3]]
        unat_add_small [of ?a 12] top u by (simp add: saved_regs_def add.assoc)
  qed
  then have hi: "load32 m1 (?a + 12) = r_esi M" "load32 m1 (?a + 16) = r_edi M" "load32 m1 (?a + 20) = r_ebp M"
      "load32 m1 (?a + 28) = ucast (r_ds M)" "load32 m1 (?a + 32) = ucast (r_es M)"
      "load32 m1 (?a + 36) = ucast (r_fs M)" "load32 m1 (?a + 40) = ucast (r_gs M)"
    by (simp_all add: saved_regs_def add.assoc)
  have lo: "?n \<noteq> 4 \<Longrightarrow> load32 m1 ?a = r_edx M \<and> load32 m1 (?a + 4) = r_ecx M \<and> load32 m1 (?a + 8) = r_ebx M"
  proof -
    assume "?n \<noteq> 4"
    then have "frame m1 ?a (saved_regs M @ [])"
      using frame_outside [OF c(2) ala, of "saved_regs M @ []"] S(2) top u by (simp add: arg_bytes_def)
    then show ?thesis unfolding frame_saved by simp
  qed
  have "r_esp ?M1 = ?a" by simp
  then have r: "RESTORE_ALL (store_eax ?M1) = M\<lparr>eflags := arith_flags (c_flags cl) (eflags M), r_eax := r,
      r_ebx := load32 m1 (?a + 8), r_ecx := load32 m1 (?a + 4), r_edx := load32 m1 ?a,
      mst := set_umem ?m2 ((mst M)\<lparr>kcon := fold printc t (kcon (mst M))\<rparr>)\<rparr>"
    using ala by (subst RESTORE_store_eax, simp, unfold Let_def, intro machine.equality)
      (use hi S(1) in \<open>simp_all add: set_umem_def\<close>)
  have "mem_only lo (r_esp M) (mmem M) ?m2"
  proof -
    have le: "lo \<le> ?a" "?a \<le> r_esp M" "?a + arg_bytes ?n \<le> r_esp M" "lo \<le> ?a + 24" "?a + 28 \<le> r_esp M"
      using kb u room top unat_add_small [of ?a 12] unat_add_small [of ?a 24] unat_add_small [of ?a 28]
      by (auto simp: word_le_nat_alt arg_bytes_def)
    have "mem_only (?a + 24) (?a + 28) m1 ?m2"
      using mem_only_store [of "?a + 28" m1 r] aligned4_plus [OF ala aligned4_mult [of 7]] unat_add_small [of ?a 28] top u
      by (simp add: add.assoc)
    then show ?thesis
      using mem_only_mono [OF S(3) le(1) order_refl] mem_only_mono [OF c(2) order_refl le(3)] le(4,5)
      by (meson mem_only_mono mem_only_trans)
  qed
  with c(1) r lo show ?thesis by blast
qed

text \<open>The two ways into the kernel, from the user's instruction to the one after it.\<close>

definition int80_call :: "dword \<Rightarrow> dword \<Rightarrow> clobber \<Rightarrow> machine \<Rightarrow> machine option" where
  "int80_call lo kb cl M = do {
     M1 \<leftarrow> int_entry 0x80 None M;
     system_call_handler lo kb cl M1 }"

definition sysenter_call :: "dword \<Rightarrow> dword \<Rightarrow> dword \<Rightarrow> clobber \<Rightarrow> machine \<Rightarrow> machine option" where
  "sysenter_call addr lo kb cl M =
     (let M1 = sysenter M in if r_eip M1 = addr then syscall_handler lo kb cl M1 else None)"

definition int80_ready :: "dword \<Rightarrow> dword \<Rightarrow> machine \<Rightarrow> bool" where
  "int80_ready lo kb M \<longleftrightarrow> 0x80 < length (idt M) \<and> segmentSelector (idt M ! 0x80) = KERNEL_CS \<and> r_cs M AND 3 \<noteq> 0
     \<and> aligned4 (esp0 (tss M)) \<and> unat (esp0 (tss M)) \<le> 0x100000 \<and> lo \<le> kb \<and> unat kb + 192 \<le> unat (esp0 (tss M))"

definition sysenter_ready :: "dword \<Rightarrow> dword \<Rightarrow> dword \<Rightarrow> machine \<Rightarrow> bool" where
  "sysenter_ready addr lo kb M \<longleftrightarrow> msr M 0x174 = ucast KERNEL_CS \<and> msr M 0x176 = addr
     \<and> r_cs M = USER_CS \<and> r_ss M = USER_DS
     \<and> aligned4 (msr M 0x175) \<and> unat (msr M 0x175) \<le> 0x100000 \<and> lo \<le> kb \<and> unat kb + 192 \<le> unat (msr M 0x175)
     \<and> (\<forall>x\<in>entry_bytes (r_ebp M + 4). x < lo \<or> msr M 0x175 \<le> x)"

text \<open>
  The contract of a system call entry, for the code that calls it: it runs the call that
  \<open>syscall_spec\<close> describes, resumes the caller at the given instruction and stack pointer
  with the result in EAX, and changes memory only on the kernel stack. ECX, EDX and the flags
  are lost, and EBX too in the call whose routine owns its slot.
\<close>

locale syscall_gate =
  fixes enter :: "dword \<Rightarrow> dword \<Rightarrow> clobber \<Rightarrow> machine \<Rightarrow> machine option"
    and ready :: "dword \<Rightarrow> dword \<Rightarrow> machine \<Rightarrow> bool"
    and resume_eip :: "machine \<Rightarrow> dword"
    and resume_esp :: "machine \<Rightarrow> dword"
    and stack_top :: "machine \<Rightarrow> dword"
  assumes enters: "ready lo kb M \<Longrightarrow>
      syscall_spec (mmem M) (zeos_ticks (mst M)) (r_eax M) (r_edx M) (r_ecx M) (r_ebx M) = Some (t, r) \<Longrightarrow>
      \<exists>fl ebx ecx edx m'. enter lo kb cl M = Some (M\<lparr>eflags := fl, r_esp := resume_esp M, r_eip := resume_eip M,
          r_eax := r, r_ebx := ebx, r_ecx := ecx, r_edx := edx,
          mst := set_umem m' ((mst M)\<lparr>kcon := fold printc t (kcon (mst M))\<rparr>)\<rparr>)
        \<and> (r_eax M \<noteq> 4 \<longrightarrow> ebx = r_ebx M) \<and> mem_only lo (stack_top M) (mmem M) m'"
    and low: "ready lo kb M \<Longrightarrow> unat (stack_top M) \<le> 0x100000"
begin

lemma enters_user:
  assumes "ready lo kb M"
    and "syscall_spec (mmem M) (zeos_ticks (mst M)) (r_eax M) (r_edx M) (r_ecx M) (r_ebx M) = Some (t, r)"
  obtains M' where "enter lo kb cl M = Some M'" "r_eax M' = r" "r_eip M' = resume_eip M" "r_esp M' = resume_esp M"
    "kcon (mst M') = fold printc t (kcon (mst M))" "zeos_ticks (mst M') = zeos_ticks (mst M)"
    "errno (mst M') = errno (mst M)"
    "\<And>x. 0x100000 \<le> unat x \<Longrightarrow> mmem M' x = mmem M x"
proof -
  obtain fl ebx ecx edx m' where e: "enter lo kb cl M = Some (M\<lparr>eflags := fl, r_esp := resume_esp M, r_eip := resume_eip M,
          r_eax := r, r_ebx := ebx, r_ecx := ecx, r_edx := edx,
          mst := set_umem m' ((mst M)\<lparr>kcon := fold printc t (kcon (mst M))\<rparr>)\<rparr>)"
    "mem_only lo (stack_top M) (mmem M) m'"
    using enters [OF assms, of cl] by blast
  have "m' x = mmem M x" if "0x100000 \<le> unat x" for x
    using e(2) low [OF assms(1)] that by (simp add: mem_only_def word_le_nat_alt)
  with that [OF e(1)] show thesis by simp
qed

end

lemma int80_enters:
  assumes ready: "int80_ready lo kb M"
    and sp: "syscall_spec (mmem M) (zeos_ticks (mst M)) (r_eax M) (r_edx M) (r_ecx M) (r_ebx M) = Some (t, r)"
  shows "\<exists>ebx ecx edx m'. int80_call lo kb cl M = Some (M\<lparr>r_eax := r, r_ebx := ebx, r_ecx := ecx, r_edx := edx,
          mst := set_umem m' ((mst M)\<lparr>kcon := fold printc t (kcon (mst M))\<rparr>)\<rparr>)
        \<and> (r_eax M \<noteq> 4 \<longrightarrow> ebx = r_ebx M \<and> ecx = r_ecx M \<and> edx = r_edx M) \<and> mem_only lo (esp0 (tss M)) (mmem M) m'"
proof -
  have top: "int_top M = esp0 (tss M)" and sz: "unat (int_size M) = 20"
    using ready by (simp_all add: int80_ready_def int_top_def int_size_def)
  have r: "0x80 < length (idt M)" "segmentSelector (idt M ! 0x80) = KERNEL_CS" "aligned4 (int_top M)"
    "unat lo + 20 \<le> unat (int_top M)" "24 \<le> unat (int_top M)"
    using ready unfolding top by (auto simp: int80_ready_def word_le_nat_alt)
  obtain M1 m1 where M1: "int_entry 0x80 None M = Some M1" "r_eip M1 = gate_offset (idt M ! 0x80)"
    "mst M1 = set_umem m1 (mst M)" "eois M1 = eois M" "r_eax M1 = r_eax M" "r_ebx M1 = r_ebx M" "r_ecx M1 = r_ecx M" "r_edx M1 = r_edx M"
    "aligned4 (r_esp M1)" "r_esp M1 = int_top M - int_size M" "unat (r_esp M1) = unat (int_top M) - unat (int_size M)"
    "mem_only lo (int_top M) (mmem M) m1"
    "\<And>fl a b c d n m' u. mem_only lo (r_esp M1) m1 m' \<Longrightarrow>
       iret (M1\<lparr>eflags := fl, r_eax := a, r_ebx := b, r_ecx := c, r_edx := d, eois := n, mst := set_umem m' u\<rparr>)
         = M\<lparr>r_eax := a, r_ebx := b, r_ecx := c, r_edx := d, eois := n, mst := set_umem m' u\<rparr>
       \<and> mem_only lo (int_top M) (mmem M) m'"
    by (rule int_bracket [OF r]) (rule that)
  have ks: "kernel_stack lo kb (r_esp M1)"
    using ready M1(9,11) top sz by (auto simp: kernel_stack_def int80_ready_def)
  have "m1 x = mmem M x" if "0x100000 \<le> unat x" for x
    using M1(12) that ready top by (simp add: mem_only_def int80_ready_def word_le_nat_alt)
  then have "syscall_spec (mmem M1) (zeos_ticks (mst M1)) (r_eax M1) (r_edx M1) (r_ecx M1) (r_ebx M1) = Some (t, r)"
    using sp syscall_spec_cong [of m1 "mmem M"] M1(3,5-8) by simp
  from service_body [OF ks this, of cl] obtain M2 m' ebx ecx edx where
    s: "call_service lo kb cl (SAVE_ALL M1) = Some M2"
      "RESTORE_ALL (store_eax M2) = M1\<lparr>eflags := arith_flags (c_flags cl) (eflags M1), r_eax := r, r_ebx := ebx,
          r_ecx := ecx, r_edx := edx, mst := set_umem m' ((mst M1)\<lparr>kcon := fold printc t (kcon (mst M1))\<rparr>)\<rparr>"
      "r_eax M1 \<noteq> 4 \<longrightarrow> ebx = r_ebx M1 \<and> ecx = r_ecx M1 \<and> edx = r_edx M1" "mem_only lo (r_esp M1) (mmem M1) m'"
    by blast
  have s4: "mem_only lo (r_esp M1) m1 m'" using s(4) M1(3) by simp
  let ?u = "(mst M)\<lparr>kcon := fold printc t (kcon (mst M))\<rparr>"
  have "RESTORE_ALL (store_eax M2) = M1\<lparr>eflags := arith_flags (c_flags cl) (eflags M1), r_eax := r, r_ebx := ebx,
          r_ecx := ecx, r_edx := edx, eois := eois M, mst := set_umem m' ?u\<rparr>"
    unfolding s(2) by (rule machine.equality) (simp_all add: M1(3,4) set_umem_def)
  then have "int80_call lo kb cl M = Some (M\<lparr>r_eax := r, r_ebx := ebx, r_ecx := ecx, r_edx := edx, eois := eois M, mst := set_umem m' ?u\<rparr>)"
    using s(1) M1(1) M1(13) [OF s4] by (simp add: int80_call_def system_call_handler_def)
  then have "int80_call lo kb cl M = Some (M\<lparr>r_eax := r, r_ebx := ebx, r_ecx := ecx, r_edx := edx, mst := set_umem m' ?u\<rparr>)"
    by simp
  then show ?thesis using s(3) M1(5-8) M1(13) [OF s4] unfolding top by metis
qed

lemma ebp_word_outside:
  assumes "\<forall>x\<in>entry_bytes a. x < lo \<or> hi \<le> x" "mem_only lo hi m m'"
  shows "load32 m' a = load32 m a"
  using assms by (intro load32_cong) (auto simp: mem_only_def)

lemma sysenter_enters:
  assumes ready: "sysenter_ready addr lo kb M"
    and sp: "syscall_spec (mmem M) (zeos_ticks (mst M)) (r_eax M) (r_edx M) (r_ecx M) (r_ebx M) = Some (t, r)"
  shows "\<exists>ebx m'. sysenter_call addr lo kb cl M = Some (M\<lparr>
          eflags := arith_flags (c_flags cl) (eflags M AND NOT 0x20200) OR 0x200, r_esp := r_ebp M,
          r_eip := load32 (mmem M) (r_ebp M + 4), r_eax := r, r_ebx := ebx, r_ecx := r_ebp M,
          r_edx := load32 (mmem M) (r_ebp M + 4),
          mst := set_umem m' ((mst M)\<lparr>kcon := fold printc t (kcon (mst M))\<rparr>)\<rparr>)
        \<and> (r_eax M \<noteq> 4 \<longrightarrow> ebx = r_ebx M) \<and> mem_only lo (msr M 0x175) (mmem M) m'"
proof -
  let ?esp = "msr M 0x175" and ?ret = "load32 (mmem M) (r_ebp M + 4)" and ?M0 = "sysenter M"
  have al: "aligned4 ?esp" and top: "unat ?esp \<le> 0x100000" and kb: "lo \<le> kb" "unat kb + 192 \<le> unat ?esp"
    and m174: "msr M 0x174 = 0x10" and seg: "r_cs M = USER_CS" "r_ss M = USER_DS" and addr: "msr M 0x176 = addr"
    and out: "\<forall>x\<in>entry_bytes (r_ebp M + 4). x < lo \<or> ?esp \<le> x"
    using ready by (simp_all add: sysenter_ready_def)
  have lo: "unat lo \<le> unat kb" using kb by (simp add: word_le_nat_alt)
  have M0: "r_esp ?M0 = ?esp" "mst ?M0 = mst M" "r_ebp ?M0 = r_ebp M" by (simp_all add: sysenter_def)
  define four where "four = fold push [ucast USER_DS, r_ebp M, eflags ?M0, ucast USER_CS] ?M0"
  have "mem_only (?esp - 16) ?esp (mmem M) (mmem four)"
    using fold_push_frame [of ?M0 "[ucast USER_DS, r_ebp M, eflags ?M0, ucast USER_CS]"] al kb(2) unfolding four_def M0
    by auto
  moreover have "lo \<le> ?esp - 16" using unat_minus_small [of 16 ?esp] kb lo by (simp add: word_le_nat_alt)
  ultimately have ret: "load32 (mmem four) (r_ebp M + 4) = ?ret"
    using ebp_word_outside [OF out mem_only_mono [OF _ _ order_refl]] by metis
  obtain mp where P: "push ?ret four = ?M0\<lparr>r_esp := ?esp - 20, mst := set_umem mp (mst M)\<rparr>"
      "frame mp (?esp - 20) [?ret, ucast USER_CS, eflags ?M0, r_ebp M, ucast USER_DS]"
      "mem_only (?esp - 20) ?esp (mmem M) mp"
    using fold_push_frame [of ?M0 "[ucast USER_DS, r_ebp M, eflags ?M0, ucast USER_CS, ?ret]"] al kb(2)
    unfolding four_def M0 by auto
  let ?P = "?M0\<lparr>r_esp := ?esp - 20, mst := set_umem mp (mst M)\<rparr>"
  have u: "unat (?esp - 20) = unat ?esp - 20" using unat_minus_small [of 20 ?esp] kb(2) by simp
  have al20: "aligned4 (?esp - 20)" using aligned4_minus [OF al aligned4_mult [of 5]] by simp
  have ks: "kernel_stack lo kb (r_esp ?P)" using kb top al20 u by (auto simp: kernel_stack_def)
  have "mp x = mmem M x" if "0x100000 \<le> unat x" for x
    using P(3) that top by (simp add: mem_only_def word_le_nat_alt)
  then have "syscall_spec (mmem ?P) (zeos_ticks (mst ?P)) (r_eax ?P) (r_edx ?P) (r_ecx ?P) (r_ebx ?P) = Some (t, r)"
    using sp syscall_spec_cong [of mp "mmem M"] by (simp add: sysenter_def)
  from service_body [OF ks this, of cl] obtain M2 m' ebx ecx edx where
    s: "call_service lo kb cl (SAVE_ALL ?P) = Some M2"
      "RESTORE_ALL (store_eax M2) = ?P\<lparr>eflags := arith_flags (c_flags cl) (eflags ?P), r_eax := r, r_ebx := ebx,
          r_ecx := ecx, r_edx := edx, mst := set_umem m' ((mst ?P)\<lparr>kcon := fold printc t (kcon (mst ?P))\<rparr>)\<rparr>"
      "r_eax ?P \<noteq> 4 \<longrightarrow> ebx = r_ebx ?P \<and> ecx = r_ecx ?P \<and> edx = r_edx ?P" "mem_only lo (r_esp ?P) (mmem ?P) m'"
    by blast
  have s3: "r_eax M \<noteq> 4 \<longrightarrow> ebx = r_ebx M" and s4: "mem_only lo (?esp - 20) mp m'"
    using s(3,4) by (simp_all add: sysenter_def)
  have le: "lo \<le> ?esp - 20" "?esp - 20 \<le> ?esp" using kb lo u by (simp_all add: word_le_nat_alt)
  have fr: "frame m' (?esp - 20) [?ret, ucast USER_CS, eflags ?M0, r_ebp M, ucast USER_DS]"
    using frame_outside [OF s4 al20 order_refl] P(2) top u by (simp del: frame.simps)
  have only: "mem_only lo ?esp (mmem M) m'"
    using mem_only_trans [OF mem_only_mono [OF P(3) le(1) order_refl] mem_only_mono [OF s4 order_refl le(2)]] .
  let ?R = "RESTORE_ALL (store_eax M2)"
  have R: "load32 (mmem ?R) (r_esp ?R) = ?ret" "load32 (mmem ?R) (r_esp ?R + 12) = r_ebp M"
    unfolding s(2) using fr by simp_all
  have "sysenter_call addr lo kb cl M = Some (sysexit (?R\<lparr>r_edx := ?ret, r_ecx := r_ebp M, eflags := eflags ?R OR 0x200\<rparr>))"
  proof -
    have "r_eip ?M0 = addr" using addr by (simp add: sysenter_def)
    moreover have "four = push (ucast USER_CS) (push (eflags ?M0) (push (r_ebp M) (push (ucast USER_DS) ?M0)))"
      by (simp add: four_def)
    ultimately have "sysenter_call addr lo kb cl M = do {
        M \<leftarrow> call_service lo kb cl (SAVE_ALL (push (load32 (mmem four) (r_ebp M + 4)) four));
        let M = RESTORE_ALL (store_eax M);
        let M = M\<lparr>r_edx := load32 (mmem M) (r_esp M)\<rparr>;
        let M = M\<lparr>r_ecx := load32 (mmem M) (r_esp M + 12)\<rparr>;
        let M = M\<lparr>eflags := eflags M OR 0x200\<rparr>;
        Some (sysexit M) }"
      by (simp add: sysenter_call_def syscall_handler_def push_def sysenter_def Let_def)
    then show ?thesis unfolding ret P(1) s(1) using R by (simp add: Let_def)
  qed
  moreover have "sysexit (?R\<lparr>r_edx := ?ret, r_ecx := r_ebp M, eflags := eflags ?R OR 0x200\<rparr>)
    = M\<lparr>eflags := arith_flags (c_flags cl) (eflags M AND NOT 0x20200) OR 0x200, r_esp := r_ebp M,
          r_eip := ?ret, r_eax := r, r_ebx := ebx, r_ecx := r_ebp M, r_edx := ?ret,
          mst := set_umem m' ((mst M)\<lparr>kcon := fold printc t (kcon (mst M))\<rparr>)\<rparr>"
    unfolding s(2) by (rule machine.equality) (simp_all add: sysexit_def sysenter_def m174 seg set_umem_def)
  ultimately show ?thesis using s3 only by metis
qed

interpretation int80: syscall_gate int80_call int80_ready r_eip r_esp "\<lambda>M. esp0 (tss M)"
proof unfold_locales
  fix lo kb M t r cl
  assume "int80_ready lo kb M"
    "syscall_spec (mmem M) (zeos_ticks (mst M)) (r_eax M) (r_edx M) (r_ecx M) (r_ebx M) = Some (t, r)"
  from int80_enters [OF this, of cl]
  obtain ebx ecx edx m' where e: "int80_call lo kb cl M = Some (M\<lparr>r_eax := r, r_ebx := ebx, r_ecx := ecx, r_edx := edx,
          mst := set_umem m' ((mst M)\<lparr>kcon := fold printc t (kcon (mst M))\<rparr>)\<rparr>)"
    "r_eax M \<noteq> 4 \<longrightarrow> ebx = r_ebx M" "mem_only lo (esp0 (tss M)) (mmem M) m'" by blast
  have "int80_call lo kb cl M = Some (M\<lparr>eflags := eflags M, r_esp := r_esp M, r_eip := r_eip M, r_eax := r,
      r_ebx := ebx, r_ecx := ecx, r_edx := edx,
      mst := set_umem m' ((mst M)\<lparr>kcon := fold printc t (kcon (mst M))\<rparr>)\<rparr>)"
    using e(1) by simp
  with e(2,3) show "\<exists>fl ebx ecx edx m'. int80_call lo kb cl M = Some (M\<lparr>eflags := fl, r_esp := r_esp M, r_eip := r_eip M,
          r_eax := r, r_ebx := ebx, r_ecx := ecx, r_edx := edx,
          mst := set_umem m' ((mst M)\<lparr>kcon := fold printc t (kcon (mst M))\<rparr>)\<rparr>)
        \<and> (r_eax M \<noteq> 4 \<longrightarrow> ebx = r_ebx M) \<and> mem_only lo (esp0 (tss M)) (mmem M) m'"
    by blast
qed (simp add: int80_ready_def)

interpretation fast: syscall_gate "sysenter_call addr" "sysenter_ready addr" "\<lambda>M. load32 (mmem M) (r_ebp M + 4)" r_ebp
    "\<lambda>M. msr M 0x175" for addr
proof unfold_locales
  fix lo kb M t r cl
  assume "sysenter_ready addr lo kb M"
    "syscall_spec (mmem M) (zeos_ticks (mst M)) (r_eax M) (r_edx M) (r_ecx M) (r_ebx M) = Some (t, r)"
  from sysenter_enters [OF this, of cl]
  show "\<exists>fl ebx ecx edx m'. sysenter_call addr lo kb cl M = Some (M\<lparr>eflags := fl, r_esp := r_ebp M,
          r_eip := load32 (mmem M) (r_ebp M + 4), r_eax := r, r_ebx := ebx, r_ecx := ecx, r_edx := edx,
          mst := set_umem m' ((mst M)\<lparr>kcon := fold printc t (kcon (mst M))\<rparr>)\<rparr>)
        \<and> (r_eax M \<noteq> 4 \<longrightarrow> ebx = r_ebx M) \<and> mem_only lo (msr M 0x175) (mmem M) m'"
    by blast
qed (simp add: sysenter_ready_def)

lemma example_ready:
  "int80_ready 0x35000 0x35E00 example_machine" "sysenter_ready 0x20000 0x35000 0x35E00 example_machine"
  by (simp_all add: int80_ready_def sysenter_ready_def example_machine_fields aligned4_def entry_bytes_def)

section \<open>Properties\<close>

text \<open>
  C6. The system call entry through \<open>sysenter\<close> implements the abstract calls of \<open>syscall_spec\<close>:
  for every number but 11 and all arguments in EDX, ECX and EBX, the kernel prints exactly
  the bytes of the specification, and the user continues at the return address below its
  stack pointer, with that pointer, the specified value in EAX, and every register but EBX,
  ECX, EDX and the flags as it was; EBX is kept too unless the call is \<open>write\<close>, whose routine
  owns the stack slot EBX is restored from. Memory changes only on the kernel stack.
\<close>

theorem syscall_handler_refines:
  assumes "sysenter_ready addr lo kb M"
    and "syscall_spec (mmem M) (zeos_ticks (mst M)) (r_eax M) (r_edx M) (r_ecx M) (r_ebx M) = Some (t, r)"
  shows "\<exists>ebx m'. sysenter_call addr lo kb cl M = Some (M\<lparr>
          eflags := arith_flags (c_flags cl) (eflags M AND NOT 0x20200) OR 0x200, r_esp := r_ebp M,
          r_eip := load32 (mmem M) (r_ebp M + 4), r_eax := r, r_ebx := ebx, r_ecx := r_ebp M,
          r_edx := load32 (mmem M) (r_ebp M + 4),
          mst := set_umem m' ((mst M)\<lparr>kcon := fold printc t (kcon (mst M))\<rparr>)\<rparr>)
        \<and> (r_eax M \<noteq> 4 \<longrightarrow> ebx = r_ebx M) \<and> mem_only lo (msr M 0x175) (mmem M) m'"
  by (rule sysenter_enters [OF assms])

theorem syscall_handler_refines_witness:
  "\<exists>M'. sysenter_call 0x20000 0x35000 0x35E00 example_clobber example_machine = Some M'
     \<and> r_eax M' = 7 \<and> r_esp M' = 0x113E00 \<and> r_esi M' = 14"
proof -
  have "syscall_spec (mmem example_machine) (zeos_ticks (mst example_machine)) (r_eax example_machine)
     (r_edx example_machine) (r_ecx example_machine) (r_ebx example_machine) = Some ([], 7)"
    by (simp add: syscall_spec_def example_machine_fields)
  from syscall_handler_refines [OF example_ready(2) this, of example_clobber]
  show ?thesis by (auto simp: example_machine_fields)
qed





end
