(* ===== verification/Zeos_Wrappers.thy ===== *)
theory Zeos_Wrappers
  imports Zeos_Gate
begin

text \<open>
  The wrappers of \<^verbatim>\<open>libc_sys.S\<close> instruction by instruction, on the user stack and through
  the kernel entry of Zeos_Gate. They implement \<open>libc_write\<close> and \<open>gettime\<close> of Zeos_Libc and
  keep the C calling convention. \<open>enter\<close> is what \<open>sysenter\<close> does, \<open>sys_ret\<close> the address the
  assembler gives to the label after it, and \<open>ulo\<close> the lowest address of the user stack.
\<close>

definition CHECK_ERROR :: "dword \<Rightarrow> clobber \<Rightarrow> machine \<Rightarrow> machine option" where
  "CHECK_ERROR ulo cl M =
     (let M = cmpl cl M
      in if sint (r_eax M) \<ge> 0 then Some M
         else do {
           let M = push (r_eax M) M;
           M \<leftarrow> call_c ulo cl 1 (\<lambda>u. Some (set_errno (load32 (umem u) (r_esp M)) u, c_eax cl)) M;
           let M = M\<lparr>r_esp := r_esp M + 4\<rparr>;
           Some (M\<lparr>r_eax := - 1\<rparr>) })"

definition SYSCALL ::
  "(machine \<Rightarrow> machine option) \<Rightarrow> dword \<Rightarrow> dword \<Rightarrow> dword \<Rightarrow> clobber \<Rightarrow> machine \<Rightarrow> machine option" where
  "SYSCALL enter sysid sys_ret ulo cl M = do {
     let M = M\<lparr>r_eax := sysid\<rparr>;
     let M = push sys_ret M;
     let M = push (r_ebp M) M;
     let M = M\<lparr>r_ebp := r_esp M\<rparr>;
     M \<leftarrow> enter M;
     if r_eip M \<noteq> sys_ret then None
     else do {
       let (v, M) = pop M;
       let M = M\<lparr>r_ebp := v\<rparr>;
       let M = M\<lparr>r_esp := r_esp M + 4\<rparr>;
       CHECK_ERROR ulo cl M } }"

definition write_code ::
  "(machine \<Rightarrow> machine option) \<Rightarrow> dword \<Rightarrow> dword \<Rightarrow> clobber \<Rightarrow> machine \<Rightarrow> machine option" where
  "write_code enter sys_ret4 ulo cl M = do {
     let M = push (r_ebp M) M;
     let M = M\<lparr>r_ebp := r_esp M\<rparr>;
     let M = push (r_ebx M) M;
     let M = M\<lparr>r_edx := load32 (mmem M) (r_ebp M + 8)\<rparr>;
     let M = M\<lparr>r_ecx := load32 (mmem M) (r_ebp M + 12)\<rparr>;
     let M = M\<lparr>r_ebx := load32 (mmem M) (r_ebp M + 16)\<rparr>;
     M \<leftarrow> SYSCALL enter 4 sys_ret4 ulo cl M;
     let (v, M) = pop M;
     let M = M\<lparr>r_ebx := v\<rparr>;
     let (v, M) = pop M;
     let M = M\<lparr>r_ebp := v\<rparr>;
     let (v, M) = pop M;
     Some (M\<lparr>r_eip := v\<rparr>) }"

definition gettime_code ::
  "(machine \<Rightarrow> machine option) \<Rightarrow> dword \<Rightarrow> dword \<Rightarrow> clobber \<Rightarrow> machine \<Rightarrow> machine option" where
  "gettime_code enter sys_ret10 ulo cl M = do {
     let M = push (r_ebp M) M;
     let M = M\<lparr>r_ebp := r_esp M\<rparr>;
     M \<leftarrow> SYSCALL enter 10 sys_ret10 ulo cl M;
     let (v, M) = pop M;
     let M = M\<lparr>r_ebp := v\<rparr>;
     let (v, M) = pop M;
     Some (M\<lparr>r_eip := v\<rparr>) }"

section \<open>Lemmas\<close>

text \<open>The kernel's entry point is set up, and the caller is in ring 3.\<close>

definition fast_ready :: "dword \<Rightarrow> dword \<Rightarrow> dword \<Rightarrow> machine \<Rightarrow> bool" where
  "fast_ready addr lo kb M \<longleftrightarrow> msr M 0x174 = ucast KERNEL_CS \<and> msr M 0x176 = addr
     \<and> r_cs M = USER_CS \<and> r_ss M = USER_DS
     \<and> aligned4 (msr M 0x175) \<and> unat (msr M 0x175) \<le> 0x100000 \<and> lo \<le> kb \<and> unat kb + 192 \<le> unat (msr M 0x175)"

text \<open>Memory that changed only on the kernel stack and on the dead part of the user stack.\<close>

definition stacks_only :: "dword \<Rightarrow> dword \<Rightarrow> dword \<Rightarrow> dword \<Rightarrow> mem \<Rightarrow> mem \<Rightarrow> bool" where
  "stacks_only lo khi ulo uhi m m' \<longleftrightarrow>
     (\<forall>x. \<not> (lo \<le> x \<and> x < khi) \<and> \<not> (ulo \<le> x \<and> x < uhi) \<longrightarrow> m' x = m x)"

lemma stacks_only_trans:
  "stacks_only lo khi ulo uhi m m1 \<Longrightarrow> stacks_only lo khi ulo uhi m1 m2 \<Longrightarrow> stacks_only lo khi ulo uhi m m2"
  by (simp add: stacks_only_def)

lemma stacks_only_kernel: "mem_only lo khi m m' \<Longrightarrow> stacks_only lo khi ulo uhi m m'"
  by (auto simp: stacks_only_def mem_only_def not_le not_less)

lemma stacks_only_user: "mem_only ulo uhi m m' \<Longrightarrow> stacks_only lo khi ulo uhi m m'"
  by (auto simp: stacks_only_def mem_only_def not_le not_less)

lemma stacks_only_frame:
  assumes "stacks_only lo khi ulo uhi m m'" "unat khi \<le> 0x100000" "0x100000 \<le> unat a" "uhi \<le> a"
    and "aligned4 a" "unat a + 4 * length ws \<le> 2 ^ 32"
  shows "frame m' a ws \<longleftrightarrow> frame m a ws"
proof (rule frame_cong [OF assms(5,6)])
  fix b :: dword assume "unat a \<le> unat b"
  then show "m' b = m b" using assms(1-4) by (auto simp: stacks_only_def word_le_nat_alt word_less_nat_alt)
qed

lemma syscall_spec_live:
  assumes "syscall_spec m ticks n a b c = Some (t, r)"
    and "\<And>i. i < length t \<Longrightarrow> m' (b + of_nat i) = m (b + of_nat i)"
  shows "syscall_spec m' ticks n a b c = Some (t, r)"
proof -
  have "read_bytes m' b (unat c) = read_bytes m b (unat c)" if "t = read_bytes m b (unat c)"
    using assms(2) that by (intro read_bytes_cong) simp
  then show ?thesis using assms(1) by (auto simp: syscall_spec_def split: if_splits)
qed

text \<open>The value a wrapper returns and the \<open>errno\<close> it leaves.\<close>

definition ret_val :: "dword \<Rightarrow> dword" where
  "ret_val r = (if sint r < 0 then - 1 else r)"

definition after_call :: "byte list \<Rightarrow> dword \<Rightarrow> user \<Rightarrow> user" where
  "after_call t r u = u\<lparr>kcon := fold printc t (kcon u), errno := if sint r < 0 then - r else errno u\<rparr>"

lemma CHECK_ERROR_spec:
  assumes "aligned4 (r_esp M)" "unat ulo + 4 \<le> unat (r_esp M)"
  shows "\<exists>fl c d m'. CHECK_ERROR ulo cl M = Some (M\<lparr>eflags := fl, r_eax := ret_val (r_eax M), r_ecx := c, r_edx := d,
       mst := set_umem m' ((mst M)\<lparr>errno := if sint (r_eax M) < 0 then - r_eax M else errno (mst M)\<rparr>)\<rparr>)
     \<and> mem_only ulo (r_esp M) (mmem M) m'"
proof (cases "sint (r_eax M) < 0")
  case False
  then have "CHECK_ERROR ulo cl M = Some (M\<lparr>eflags := arith_flags (c_flags cl) (eflags M), r_eax := ret_val (r_eax M),
      r_ecx := r_ecx M, r_edx := r_edx M, mst := set_umem (mmem M) ((mst M)\<lparr>errno := errno (mst M)\<rparr>)\<rparr>)"
    by (simp add: CHECK_ERROR_def cmpl_def ret_val_def set_umem_def Let_def)
  then show ?thesis using False
    by (intro exI [of _ "arith_flags (c_flags cl) (eflags M)"] exI [of _ "r_ecx M"] exI [of _ "r_edx M"]
        exI [of _ "mmem M"]) simp
next
  case True
  let ?m = "store32 (mmem M) (r_esp M - 4) (r_eax M)"
  have "CHECK_ERROR ulo cl M = Some (M\<lparr>eflags := arith_flags (c_flags cl) (eflags M), r_eax := ret_val (r_eax M),
      r_ecx := c_ecx cl, r_edx := c_edx cl,
      mst := set_umem (scratch ulo (r_esp M) (c_stack cl) ?m) ((mst M)\<lparr>errno := - r_eax M\<rparr>)\<rparr>)"
    using True unfolding CHECK_ERROR_def cmpl_def Let_def
    by (simp add: push_def call_c_def Let_def) (rule machine.equality; simp add: ret_val_def set_errno_def set_umem_def)
  moreover have "mem_only ulo (r_esp M) (mmem M) (scratch ulo (r_esp M) (c_stack cl) ?m)"
  proof (rule mem_only_trans [OF _ mem_only_scratch])
    have "ulo \<le> r_esp M - 4" using assms(2) unat_minus_small [of 4 "r_esp M"] by (simp add: word_le_nat_alt)
    then show "mem_only ulo (r_esp M) (mmem M) ?m"
      using assms by (intro mem_only_mono [OF mem_only_store _ order_refl]) simp_all
  qed
  ultimately show ?thesis using True
    by (intro exI [of _ "arith_flags (c_flags cl) (eflags M)"] exI [of _ "c_ecx cl"] exI [of _ "c_edx cl"]
        exI [of _ "scratch ulo (r_esp M) (c_stack cl) ?m"]) simp
qed

definition printed_live :: "dword \<Rightarrow> dword \<Rightarrow> byte list \<Rightarrow> dword \<Rightarrow> bool" where
  "printed_live lo esp t b \<longleftrightarrow> (\<forall>i<length t. b + of_nat i < lo \<or> esp \<le> b + of_nat i)"

lemma SYSCALL_spec:
  assumes ready: "fast_ready addr lo kb M"
    and stk: "aligned4 (r_esp M)" "0x100000 \<le> unat ulo" "unat ulo + 8 \<le> unat (r_esp M)"
    and sp: "syscall_spec (mmem M) (zeos_ticks (mst M)) n (r_edx M) (r_ecx M) (r_ebx M) = Some (t, r)"
    and live: "printed_live (r_esp M - 8) (r_esp M) t (r_ecx M)"
  shows "\<exists>fl b c d m'. SYSCALL (sysenter_call addr lo kb kcl) n sys_ret ulo cl M = Some (M\<lparr>eflags := fl, r_eip := sys_ret, r_eax := ret_val r,
       r_ebx := b, r_ecx := c, r_edx := d, mst := set_umem m' (after_call t r (mst M))\<rparr>)
     \<and> (n \<noteq> 4 \<longrightarrow> b = r_ebx M) \<and> stacks_only lo (msr M 0x175) ulo (r_esp M) (mmem M) m'"
proof -
  let ?esp = "r_esp M" and ?M0 = "M\<lparr>r_eax := n\<rparr>"
  have khi: "unat (msr M 0x175) \<le> 0x100000" using ready by (simp add: fast_ready_def)
  have u8: "unat (?esp - 8) = unat ?esp - 8" using unat_minus_small [of 8 ?esp] stk(3) by simp
  have al8: "aligned4 (?esp - 8)" using aligned4_minus [OF stk(1) aligned4_mult [of 2]] by simp
  obtain m1 where P: "push (r_ebp M) (push sys_ret ?M0) = ?M0\<lparr>r_esp := ?esp - 8, mst := set_umem m1 (mst M)\<rparr>"
      "frame m1 (?esp - 8) [r_ebp M, sys_ret]" "mem_only (?esp - 8) ?esp (mmem M) m1"
    using fold_push_frame [of ?M0 "[sys_ret, r_ebp M]"] stk(1,3) by auto
  have ebp: "r_ebp (push sys_ret ?M0) = r_ebp M" by (simp add: push_def)
  let ?P = "?M0\<lparr>r_esp := ?esp - 8, mst := set_umem m1 (mst M), r_ebp := ?esp - 8\<rparr>"
  have ret: "load32 m1 (?esp - 4) = sys_ret" using P(2) by simp
  have rP: "sysenter_ready addr lo kb ?P"
  proof -
    have "aligned4 (?esp - 4)" using aligned4_minus [OF stk(1)] by simp
    moreover have "0x100000 \<le> unat (?esp - 4)" using unat_minus_small [of 4 ?esp] stk(2,3) by simp
    ultimately have "msr M 0x175 \<le> x" if "x \<in> entry_bytes (?esp - 4)" for x
      using entry_bytes_above [of "?esp - 4" x] that khi by (simp add: word_le_nat_alt)
    then show ?thesis using ready by (simp add: fast_ready_def sysenter_ready_def)
  qed
  have sP: "syscall_spec (mmem ?P) (zeos_ticks (mst ?P)) (r_eax ?P) (r_edx ?P) (r_ecx ?P) (r_ebx ?P) = Some (t, r)"
  proof -
    have "m1 (r_ecx M + of_nat i) = mmem M (r_ecx M + of_nat i)" if "i < length t" for i
      using live P(3) that unfolding printed_live_def mem_only_def by blast
    from syscall_spec_live [OF sp this] show ?thesis by simp
  qed
  obtain fl b c d m2 where K: "sysenter_call addr lo kb kcl ?P = Some (?P\<lparr>eflags := fl, r_esp := r_ebp ?P,
          r_eip := load32 (mmem ?P) (r_ebp ?P + 4), r_eax := r, r_ebx := b, r_ecx := c, r_edx := d,
          mst := set_umem m2 ((mst ?P)\<lparr>kcon := fold printc t (kcon (mst ?P))\<rparr>)\<rparr>)" (is "_ = Some ?K")
      "r_eax ?P \<noteq> 4 \<longrightarrow> b = r_ebx ?P" "mem_only lo (msr ?P 0x175) (mmem ?P) m2"
    using fast.enters [OF rP sP, of kcl] by (elim exE conjE) (rule that)
  have only2: "mem_only lo (msr M 0x175) m1 m2" using K(3) by simp
  have "frame m2 (?esp - 8) [r_ebp M, sys_ret]"
    using frame_outside [OF only2 al8, of "[r_ebp M, sys_ret]"] P(2) khi u8 stk(2,3)
      unsigned_less [of ?esp, where ?'a = nat] by (simp add: word_le_nat_alt del: frame.simps)
  then have popv: "load32 m2 (?esp - 8) = r_ebp M" by simp
  let ?u = "(mst M)\<lparr>kcon := fold printc t (kcon (mst M))\<rparr>"
  let ?Q = "M\<lparr>eflags := fl, r_eip := sys_ret, r_eax := r, r_ebx := b, r_ecx := c, r_edx := d, mst := set_umem m2 ?u\<rparr>"
  have E: "SYSCALL (sysenter_call addr lo kb kcl) n sys_ret ulo cl M = CHECK_ERROR ulo cl ?Q"
  proof -
    have "SYSCALL (sysenter_call addr lo kb kcl) n sys_ret ulo cl M = do {
        M \<leftarrow> sysenter_call addr lo kb kcl ?P;
        if r_eip M \<noteq> sys_ret then None
        else CHECK_ERROR ulo cl (M\<lparr>r_ebp := load32 (mmem M) (r_esp M), r_esp := r_esp M + 8\<rparr>) }"
      using P(1) ebp by (simp add: SYSCALL_def pop_def Let_def add.commute cong: if_cong)
    also have "\<dots> = CHECK_ERROR ulo cl (?K\<lparr>r_ebp := load32 (mmem ?K) (r_esp ?K), r_esp := r_esp ?K + 8\<rparr>)"
      unfolding K(1) using ret by simp
    also have "?K\<lparr>r_ebp := load32 (mmem ?K) (r_esp ?K), r_esp := r_esp ?K + 8\<rparr> = ?Q"
      by (rule machine.equality) (simp_all add: popv ret set_umem_def)
    finally show ?thesis .
  qed
  obtain fl' c' d' m' where C: "CHECK_ERROR ulo cl ?Q = Some (?Q\<lparr>eflags := fl', r_eax := ret_val (r_eax ?Q), r_ecx := c',
        r_edx := d', mst := set_umem m' ((mst ?Q)\<lparr>errno := if sint (r_eax ?Q) < 0 then - r_eax ?Q else errno (mst ?Q)\<rparr>)\<rparr>)"
      "mem_only ulo (r_esp ?Q) (mmem ?Q) m'"
  proof -
    have "aligned4 (r_esp ?Q)" "unat ulo + 4 \<le> unat (r_esp ?Q)" using stk by simp_all
    from CHECK_ERROR_spec [OF this, of cl] show thesis by (elim exE conjE) (rule that)
  qed
  have "SYSCALL (sysenter_call addr lo kb kcl) n sys_ret ulo cl M = Some (M\<lparr>eflags := fl', r_eip := sys_ret, r_eax := ret_val r,
       r_ebx := b, r_ecx := c', r_edx := d', mst := set_umem m' (after_call t r (mst M))\<rparr>)"
    unfolding E C(1) option.inject by (rule machine.equality) (simp_all add: after_call_def set_umem_def)
  moreover have "stacks_only lo (msr M 0x175) ulo ?esp (mmem M) m'"
  proof -
    have "ulo \<le> ?esp - 8" using stk(3) u8 by (simp add: word_le_nat_alt)
    then have "stacks_only lo (msr M 0x175) ulo ?esp (mmem M) m1"
      by (intro stacks_only_user mem_only_mono [OF P(3) _ order_refl])
    moreover have "stacks_only lo (msr M 0x175) ulo ?esp m2 m'" using C(2) by (intro stacks_only_user) simp
    ultimately show ?thesis using stacks_only_kernel [OF only2] stacks_only_trans by blast
  qed
  moreover have "n \<noteq> 4 \<longrightarrow> b = r_ebx M" using K(2) by simp
  ultimately show ?thesis by blast
qed

lemma printed_live_mono:
  assumes "printed_live lo hi t b" "lo \<le> lo'" "hi' \<le> hi"
  shows "printed_live lo' hi' t b"
  using assms order_less_le_trans order_trans unfolding printed_live_def by blast

lemma live_spec:
  assumes "syscall_spec m ticks n a b c = Some (t, r)" "printed_live lo hi t b" "mem_only lo hi m m'"
  shows "syscall_spec m' ticks n a b c = Some (t, r)"
proof (rule syscall_spec_live [OF assms(1)])
  fix i assume "i < length t"
  then show "m' (b + of_nat i) = m (b + of_nat i)"
    using assms(2,3) unfolding printed_live_def mem_only_def by blast
qed

text \<open>A function that pushes EBP or EBP and EBX, makes the call, and pops them again.\<close>

lemma stacks_only_extend:
  assumes "mem_only a hi m m1" "stacks_only lo khi ulo a m1 m2" "ulo \<le> a" "a \<le> hi"
  shows "stacks_only lo khi ulo hi m m2"
proof -
  have "stacks_only lo khi ulo hi m1 m2"
    using assms(2,4) order_less_le_trans unfolding stacks_only_def by blast
  moreover have "stacks_only lo khi ulo hi m m1"
    by (rule stacks_only_user [OF mem_only_mono [OF assms(1,3) order_refl]])
  ultimately show ?thesis using stacks_only_trans by blast
qed

lemma write_code_spec:
  assumes ready: "fast_ready addr lo kb M"
    and stk: "aligned4 (r_esp M)" "0x100000 \<le> unat ulo" "unat ulo + 16 \<le> unat (r_esp M)" "unat (r_esp M) + 16 \<le> 2 ^ 32"
    and args: "frame (mmem M) (r_esp M) [ret, fd, buf, sz]"
    and sp: "syscall_spec (mmem M) (zeos_ticks (mst M)) 4 fd buf sz = Some (t, r)"
    and live: "printed_live (r_esp M - 16) (r_esp M) t buf"
  shows "\<exists>fl c d m'. write_code (sysenter_call addr lo kb kcl) sys_ret ulo cl M = Some (M\<lparr>eflags := fl,
       r_esp := r_esp M + 4, r_eip := ret, r_eax := ret_val r, r_ecx := c, r_edx := d,
       mst := set_umem m' (after_call t r (mst M))\<rparr>)
     \<and> stacks_only lo (msr M 0x175) ulo (r_esp M) (mmem M) m'"
proof -
  let ?esp = "r_esp M"
  have khi: "unat (msr M 0x175) \<le> 0x100000" using ready by (simp add: fast_ready_def)
  have u8: "unat (?esp - 8) = unat ?esp - 8" using unat_minus_small [of 8 ?esp] stk(3) by simp
  have u16: "unat (?esp - 16) = unat ?esp - 16" using unat_minus_small [of 16 ?esp] stk(3) by simp
  have al8: "aligned4 (?esp - 8)" using aligned4_minus [OF stk(1) aligned4_mult [of 2]] by simp
  obtain m1 where P: "fold push [r_ebp M, r_ebx M] M = M\<lparr>r_esp := ?esp - 8, mst := set_umem m1 (mst M)\<rparr>"
      "frame m1 (?esp - 8) [r_ebx M, r_ebp M, ret, fd, buf, sz]" "mem_only (?esp - 8) ?esp (mmem M) m1"
    using fold_push_onto [of M "[r_ebp M, r_ebx M]" "[ret, fd, buf, sz]"] stk(1,3,4) args by auto
  have ld: "load32 m1 (?esp + 4) = fd" "load32 m1 (?esp + 8) = buf" "load32 m1 (?esp + 12) = sz"
    using P(2) by (simp_all add: add.assoc)
  let ?M1 = "M\<lparr>r_esp := ?esp - 8, r_ebp := ?esp - 4, mst := set_umem m1 (mst M), r_edx := fd, r_ecx := buf, r_ebx := sz\<rparr>"
  have start: "write_code (sysenter_call addr lo kb kcl) sys_ret ulo cl M = do {
      M \<leftarrow> SYSCALL (sysenter_call addr lo kb kcl) 4 sys_ret ulo cl ?M1;
      let m = mmem M;
      let a = r_esp M;
      Some (M\<lparr>r_ebx := load32 m a, r_ebp := load32 m (a + 4), r_esp := a + 12, r_eip := load32 m (a + 8)\<rparr>) }"
  proof -
    have "push (r_ebx M) ((push (r_ebp M) M)\<lparr>r_ebp := ?esp - 4\<rparr>) = M\<lparr>r_esp := ?esp - 8, r_ebp := ?esp - 4, mst := set_umem m1 (mst M)\<rparr>"
    proof -
      have "push (r_ebx M) ((push (r_ebp M) M)\<lparr>r_ebp := ?esp - 4\<rparr>) = (push (r_ebx M) (push (r_ebp M) M))\<lparr>r_ebp := ?esp - 4\<rparr>"
        by (simp add: push_def)
      then show ?thesis using P(1) by simp
    qed
    then show ?thesis unfolding write_code_def
      by (simp add: push_fields ld pop_def Let_def add.commute)
  qed
  have al1: "aligned4 (r_esp ?M1)" and room1: "unat ulo + 8 \<le> unat (r_esp ?M1)" and ready1: "fast_ready addr lo kb ?M1"
    using al8 u8 stk(3) ready by (simp_all add: fast_ready_def)
  have le: "?esp - 16 \<le> ?esp - 8" "?esp - 8 \<le> ?esp" "ulo \<le> ?esp - 8" using u8 u16 stk(3) by (simp_all add: word_le_nat_alt)
  have "syscall_spec m1 (zeos_ticks (mst M)) 4 fd buf sz = Some (t, r)"
    using live_spec [OF sp printed_live_mono [OF live le(1) order_refl] P(3)] .
  then have sp1: "syscall_spec (mmem ?M1) (zeos_ticks (mst ?M1)) 4 (r_edx ?M1) (r_ecx ?M1) (r_ebx ?M1) = Some (t, r)" by simp
  have live1: "printed_live (r_esp ?M1 - 8) (r_esp ?M1) t (r_ecx ?M1)"
    using printed_live_mono [OF live order_refl le(2)] by simp
  obtain fl b c d m' where S: "SYSCALL (sysenter_call addr lo kb kcl) 4 sys_ret ulo cl ?M1 = Some (?M1\<lparr>eflags := fl, r_eip := sys_ret,
        r_eax := ret_val r, r_ebx := b, r_ecx := c, r_edx := d, mst := set_umem m' (after_call t r (mst ?M1))\<rparr>)" (is "_ = Some ?M2")
      "4 \<noteq> (4 :: dword) \<longrightarrow> b = r_ebx ?M1" "stacks_only lo (msr ?M1 0x175) ulo (r_esp ?M1) (mmem ?M1) m'"
    using SYSCALL_spec [OF ready1 al1 stk(2) room1 sp1 live1, of kcl sys_ret cl] by (elim exE conjE) (rule that)
  have only: "stacks_only lo (msr M 0x175) ulo (?esp - 8) m1 m'" using S(3) by simp
  have "frame m' (?esp - 8) [r_ebx M, r_ebp M, ret, fd, buf, sz]"
    using stacks_only_frame [OF only khi, of "?esp - 8" "[r_ebx M, r_ebp M, ret, fd, buf, sz]"] P(2) al8 u8 stk
    by (simp del: frame.simps)
  then have fr: "load32 m' (?esp - 8) = r_ebx M" "load32 m' (?esp - 8 + 4) = r_ebp M" "load32 m' (?esp - 8 + 8) = ret"
    by (simp_all add: add.assoc)
  have "(let m = mmem ?M2; a = r_esp ?M2 in
      ?M2\<lparr>r_ebx := load32 m a, r_ebp := load32 m (a + 4), r_esp := a + 12, r_eip := load32 m (a + 8)\<rparr>)
    = M\<lparr>eflags := fl, r_esp := ?esp + 4, r_eip := ret, r_eax := ret_val r, r_ecx := c, r_edx := d,
       mst := set_umem m' (after_call t r (mst M))\<rparr>"
    using fr by (intro machine.equality) (simp_all add: after_call_def set_umem_def Let_def)
  then have "write_code (sysenter_call addr lo kb kcl) sys_ret ulo cl M = Some (M\<lparr>eflags := fl,
       r_esp := ?esp + 4, r_eip := ret, r_eax := ret_val r, r_ecx := c, r_edx := d,
       mst := set_umem m' (after_call t r (mst M))\<rparr>)"
    unfolding start S(1) by (simp add: Let_def)
  with stacks_only_extend [OF P(3) only le(3,2)] show ?thesis by blast
qed

lemma gettime_code_spec:
  assumes ready: "fast_ready addr lo kb M"
    and stk: "aligned4 (r_esp M)" "0x100000 \<le> unat ulo" "unat ulo + 12 \<le> unat (r_esp M)" "unat (r_esp M) + 4 \<le> 2 ^ 32"
    and ret: "load32 (mmem M) (r_esp M) = ret"
  shows "\<exists>fl c d m'. gettime_code (sysenter_call addr lo kb kcl) sys_ret ulo cl M = Some (M\<lparr>eflags := fl,
       r_esp := r_esp M + 4, r_eip := ret, r_eax := ret_val (zeos_ticks (mst M)), r_ecx := c, r_edx := d,
       mst := set_umem m' (after_call [] (zeos_ticks (mst M)) (mst M))\<rparr>)
     \<and> stacks_only lo (msr M 0x175) ulo (r_esp M) (mmem M) m'"
proof -
  let ?esp = "r_esp M" and ?r = "zeos_ticks (mst M)"
  have khi: "unat (msr M 0x175) \<le> 0x100000" using ready by (simp add: fast_ready_def)
  have u4: "unat (?esp - 4) = unat ?esp - 4" using unat_minus_small [of 4 ?esp] stk(3) by simp
  have al4: "aligned4 (?esp - 4)" using aligned4_minus [OF stk(1)] by simp
  obtain m1 where P: "push (r_ebp M) M = M\<lparr>r_esp := ?esp - 4, mst := set_umem m1 (mst M)\<rparr>"
      "frame m1 (?esp - 4) [r_ebp M, ret]" "mem_only (?esp - 4) ?esp (mmem M) m1"
    using fold_push_onto [of M "[r_ebp M]" "[ret]"] stk(1,3,4) ret by auto
  let ?M1 = "M\<lparr>r_esp := ?esp - 4, mst := set_umem m1 (mst M), r_ebp := ?esp - 4\<rparr>"
  have start: "gettime_code (sysenter_call addr lo kb kcl) sys_ret ulo cl M = do {
      M \<leftarrow> SYSCALL (sysenter_call addr lo kb kcl) 10 sys_ret ulo cl ?M1;
      let m = mmem M;
      let a = r_esp M;
      Some (M\<lparr>r_ebp := load32 m a, r_esp := a + 8, r_eip := load32 m (a + 4)\<rparr>) }"
    unfolding gettime_code_def by (simp add: P(1) pop_def Let_def add.commute)
  have al1: "aligned4 (r_esp ?M1)" and room1: "unat ulo + 8 \<le> unat (r_esp ?M1)" and ready1: "fast_ready addr lo kb ?M1"
    using al4 u4 stk(3) ready by (simp_all add: fast_ready_def)
  have sp1: "syscall_spec (mmem ?M1) (zeos_ticks (mst ?M1)) 10 (r_edx ?M1) (r_ecx ?M1) (r_ebx ?M1) = Some ([], ?r)"
    by (simp add: syscall_spec_def)
  have live1: "printed_live (r_esp ?M1 - 8) (r_esp ?M1) [] (r_ecx ?M1)" by (simp add: printed_live_def)
  obtain fl b c d m' where S: "SYSCALL (sysenter_call addr lo kb kcl) 10 sys_ret ulo cl ?M1 = Some (?M1\<lparr>eflags := fl, r_eip := sys_ret,
        r_eax := ret_val ?r, r_ebx := b, r_ecx := c, r_edx := d, mst := set_umem m' (after_call [] ?r (mst ?M1))\<rparr>)" (is "_ = Some ?M2")
      "10 \<noteq> (4 :: dword) \<longrightarrow> b = r_ebx ?M1" "stacks_only lo (msr ?M1 0x175) ulo (r_esp ?M1) (mmem ?M1) m'"
    using SYSCALL_spec [OF ready1 al1 stk(2) room1 sp1 live1, of kcl sys_ret cl] by (elim exE conjE) (rule that)
  have only: "stacks_only lo (msr M 0x175) ulo (?esp - 4) m1 m'" and b: "b = r_ebx M" using S(2,3) by simp_all
  have le: "?esp - 4 \<le> ?esp" "ulo \<le> ?esp - 4" using u4 stk(3) by (simp_all add: word_le_nat_alt)
  have "frame m' (?esp - 4) [r_ebp M, ret]"
    using stacks_only_frame [OF only khi, of "?esp - 4" "[r_ebp M, ret]"] P(2) al4 u4 stk
    by (simp del: frame.simps)
  then have fr: "load32 m' (?esp - 4) = r_ebp M" "load32 m' (?esp - 4 + 4) = ret" by simp_all
  have "(let m = mmem ?M2; a = r_esp ?M2 in
      ?M2\<lparr>r_ebp := load32 m a, r_esp := a + 8, r_eip := load32 m (a + 4)\<rparr>)
    = M\<lparr>eflags := fl, r_esp := ?esp + 4, r_eip := ret, r_eax := ret_val ?r, r_ecx := c, r_edx := d,
       mst := set_umem m' (after_call [] ?r (mst M))\<rparr>"
    using fr b by (intro machine.equality) (simp_all add: after_call_def set_umem_def Let_def)
  then have "gettime_code (sysenter_call addr lo kb kcl) sys_ret ulo cl M = Some (M\<lparr>eflags := fl,
       r_esp := ?esp + 4, r_eip := ret, r_eax := ret_val ?r, r_ecx := c, r_edx := d,
       mst := set_umem m' (after_call [] ?r (mst M))\<rparr>)"
    unfolding start S(1) by (simp add: Let_def)
  with stacks_only_extend [OF P(3) only le(2,1)] show ?thesis by blast
qed

text \<open>The functions of Zeos_Libc in the same terms.\<close>

lemma libc_write_after:
  assumes "kbuf_ok (e_kb E)" "syscall_spec (umem u) (zeos_ticks u) 4 fd buf sz = Some (t, r)"
  shows "\<exists>m'. libc_write E fd buf sz u = Some (set_umem m' (after_call t r u), ret_val r)"
proof -
  obtain m' where m': "dispatch_syscall (e_kb E) 4 fd buf sz u =
      Some (u\<lparr>kcon := fold printc t (kcon u), kmm := (kmm u)\<lparr>kmem := m'\<rparr>\<rparr>, r)"
    using dispatch_refines [OF assms] by blast
  have "check_error (u\<lparr>kcon := fold printc t (kcon u), kmm := (kmm u)\<lparr>kmem := m'\<rparr>\<rparr>, r)
      = (set_umem m' (after_call t r u), ret_val r)"
    by (simp add: check_error_def ret_val_def after_call_def set_umem_def set_errno_def)
  then show ?thesis using m' unfolding libc_write_def by auto
qed

lemma gettime_after:
  "gettime E a b c u = Some (after_call [] (zeos_ticks u) u, ret_val (zeos_ticks u))"
  by (simp add: gettime_def dispatch_syscall_gettime check_error_def ret_val_def after_call_def set_errno_def)

section \<open>Properties\<close>

text \<open>
  C7. The assembler wrapper \<open>write\<close>, called as a C function with three arguments on the user
  stack, implements \<open>libc_write\<close>: it returns to its caller with the stack pointer after the
  return address, with the value of \<open>libc_write\<close> in EAX and its effects on the console and
  on \<open>errno\<close>; EBX, ESI, EDI, EBP and the segments are kept through the kernel and back, as
  the calling convention asks, and memory has changed only on the kernel stack and below the
  caller's stack pointer. The hypothesis on the printed bytes says that they are not in the
  part of the stack that the wrapper overwrites.
\<close>

theorem write_wrapper_refines:
  assumes "fast_ready addr lo kb M" "kbuf_ok kb"
    and "aligned4 (r_esp M)" "0x100000 \<le> unat ulo" "unat ulo + 16 \<le> unat (r_esp M)" "unat (r_esp M) + 16 \<le> 2 ^ 32"
    and "frame (mmem M) (r_esp M) [ret, fd, buf, sz]"
    and "printed_live (r_esp M - 16) (r_esp M) (read_bytes (mmem M) buf (unat sz)) buf \<or> sint sz < 0 \<or> fd \<noteq> 1"
  shows "\<exists>fl c d m' u' r. libc_write \<lparr>e_kb = kb, e_char = e1, e_buff = e2\<rparr> fd buf sz (mst M) = Some (u', r)
     \<and> write_code (sysenter_call addr lo kb kcl) sys_ret ulo cl M = Some (M\<lparr>eflags := fl,
          r_esp := r_esp M + 4, r_eip := ret, r_eax := r, r_ecx := c, r_edx := d, mst := set_umem m' u'\<rparr>)
     \<and> stacks_only lo (msr M 0x175) ulo (r_esp M) (mmem M) m'"
proof -
  obtain t r where sp: "syscall_spec (mmem M) (zeos_ticks (mst M)) 4 fd buf sz = Some (t, r)"
    using syscall_spec_total [of 4 "mmem M" "zeos_ticks (mst M)" fd buf sz] by auto
  then have "t = [] \<or> t = read_bytes (mmem M) buf (unat sz) \<and> fd = 1 \<and> 0 \<le> sint sz"
    by (auto simp: syscall_spec_def split: if_splits)
  then have live: "printed_live (r_esp M - 16) (r_esp M) t buf" using assms(8) by (auto simp: printed_live_def)
  obtain m1 where m1: "libc_write \<lparr>e_kb = kb, e_char = e1, e_buff = e2\<rparr> fd buf sz (mst M)
      = Some (set_umem m1 (after_call t r (mst M)), ret_val r)"
    using libc_write_after [of "\<lparr>e_kb = kb, e_char = e1, e_buff = e2\<rparr>" "mst M", OF _ sp] assms(2) by auto
  obtain fl c d m' where "write_code (sysenter_call addr lo kb kcl) sys_ret ulo cl M = Some (M\<lparr>eflags := fl,
       r_esp := r_esp M + 4, r_eip := ret, r_eax := ret_val r, r_ecx := c, r_edx := d,
       mst := set_umem m' (set_umem m1 (after_call t r (mst M)))\<rparr>)"
     "stacks_only lo (msr M 0x175) ulo (r_esp M) (mmem M) m'"
    using write_code_spec [OF assms(1,3-7) sp live, of kcl sys_ret cl] by auto
  with m1 show ?thesis by blast
qed

text \<open>A caller of \<open>write\<close> in ring 3, with the arguments 1, 0x100000 and 5 on its stack.\<close>

definition example_caller :: machine where
  "example_caller = example_machine\<lparr>mst := set_umem
     (store32 (store32 (store32 (store32 (\<lambda>a. ucast a) 0x113F00 0x114200) 0x113F04 1) 0x113F08 0x100000) 0x113F0C 5)
     (mst example_machine)\<rparr>"

lemma example_caller_ready: "fast_ready 0x20000 0x35000 0x35E00 example_caller" "r_esp example_caller = 0x113F00"
  by (simp_all add: fast_ready_def example_caller_def example_machine_fields aligned4_def)
    (simp add: example_machine_def)

lemma example_caller_frame: "frame (mmem example_caller) 0x113F00 [0x114200, 1, 0x100000, 5]"
  by (simp add: example_caller_def load32_store32_other aligned4_def)

lemma example_caller_live: "printed_live 0x113EF0 0x113F00 (read_bytes m 0x100000 5) 0x100000"
  unfolding printed_live_def
proof (intro allI impI)
  fix i assume "i < length (read_bytes m 0x100000 5)"
  then have "unat (0x100000 + of_nat i :: dword) < 0x113EF0" using unat_add_small [of "0x100000" i] by simp
  then show "0x100000 + of_nat i < (0x113EF0 :: dword) \<or> 0x113F00 \<le> (0x100000 + of_nat i :: dword)"
    by (simp add: word_less_nat_alt)
qed

theorem write_wrapper_refines_witness:
  "\<exists>M'. write_code (sysenter_call 0x20000 0x35000 0x35E00 example_clobber) 0x114300 0x113000 example_clobber example_caller
      = Some M' \<and> r_eip M' = 0x114200 \<and> r_esp M' = 0x113F04 \<and> r_ebx M' = r_ebx example_caller
    \<and> r_ebp M' = r_ebp example_caller"
proof -
  have "frame (mmem example_caller) (r_esp example_caller) [0x114200, 1, 0x100000, 5]"
    "printed_live (r_esp example_caller - 16) (r_esp example_caller) (read_bytes (mmem example_caller) 0x100000 (unat (5 :: dword))) 0x100000
       \<or> sint (5 :: dword) < 0 \<or> (1 :: dword) \<noteq> 1"
    using example_caller_frame example_caller_live by (simp_all add: example_caller_ready(2) del: frame.simps)
  from write_wrapper_refines [OF example_caller_ready(1) _ _ _ _ _ this, of "0x113000" 0 0 example_clobber "0x114300" example_clobber]
  show ?thesis by (auto simp: example_caller_ready(2) kbuf_ok_def aligned4_def)
qed

text \<open>
  The assembler wrapper \<open>gettime\<close> implements \<open>gettime\<close> of the library in the same way:
  it returns to its caller with the ticks, or -1 once they are negative, keeps EBX, ESI, EDI
  and EBP although it saves only EBP, and changes memory only on the two stacks.
\<close>

theorem gettime_wrapper_refines:
  assumes "fast_ready addr lo kb M"
    and "aligned4 (r_esp M)" "0x100000 \<le> unat ulo" "unat ulo + 12 \<le> unat (r_esp M)" "unat (r_esp M) + 4 \<le> 2 ^ 32"
  shows "\<exists>fl c d m' u' r. gettime E (r_edx M) (r_ecx M) (r_ebx M) (mst M) = Some (u', r)
     \<and> gettime_code (sysenter_call addr lo kb kcl) sys_ret ulo cl M = Some (M\<lparr>eflags := fl,
          r_esp := r_esp M + 4, r_eip := load32 (mmem M) (r_esp M), r_eax := r, r_ecx := c, r_edx := d,
          mst := set_umem m' u'\<rparr>)
     \<and> stacks_only lo (msr M 0x175) ulo (r_esp M) (mmem M) m'"
  using gettime_code_spec [OF assms refl, of kcl sys_ret cl] gettime_after [of E _ _ _ "mst M"] by blast

theorem gettime_wrapper_refines_witness:
  "\<exists>M'. gettime_code (sysenter_call 0x20000 0x35000 0x35E00 example_clobber) 0x114300 0x113000 example_clobber example_caller
      = Some M' \<and> r_eip M' = 0x114200 \<and> r_eax M' = 7 \<and> r_ebx M' = r_ebx example_caller"
proof -
  have "load32 (mmem example_caller) 0x113F00 = 0x114200" using example_caller_frame by simp
  moreover have "zeos_ticks (mst example_caller) = 7" by (simp add: example_caller_def example_machine_fields)
  ultimately show ?thesis
    using gettime_wrapper_refines [OF example_caller_ready(1), of "0x113000" \<open>\<lparr>e_kb = 0, e_char = 0, e_buff = 0\<rparr>\<close>
        example_clobber "0x114300" example_clobber] gettime_after [of _ _ _ _ "mst example_caller"]
    by (auto simp: example_caller_ready(2) aligned4_def ret_val_def)
qed

end
