(* ===== verification/Zeos_Compose.thy ===== *)
theory Zeos_Compose
  imports Zeos_Run Zeos_Wrappers
begin

text \<open>
  The steps of the running system (Zeos_Run) against the instruction-level handlers: what
  the processor and the code of \<^verbatim>\<open>entry.S\<close> do on an interrupt or a system call is the
  one step of the abstract system, up to the contents of the kernel stack.
\<close>

definition kernel_of :: "user \<Rightarrow> kernel" where
  "kernel_of u = \<lparr>zeos_ticks = zeos_ticks u, kcon = kcon u, kmm = kmm u\<rparr>"

text \<open>The same kernel state but for the memory from \<open>lo\<close> up to \<open>hi\<close>.\<close>

definition same_outside :: "dword \<Rightarrow> dword \<Rightarrow> kernel \<Rightarrow> kernel \<Rightarrow> bool" where
  "same_outside lo hi k k' \<longleftrightarrow> k' = k\<lparr>kmm := (kmm k)\<lparr>kmem := kmem (kmm k')\<rparr>\<rparr> \<and> mem_only lo hi (kmem (kmm k)) (kmem (kmm k'))"

lemma kernel_of_simps [simp]:
  "zeos_ticks (kernel_of u) = zeos_ticks u" "kcon (kernel_of u) = kcon u" "kmm (kernel_of u) = kmm u"
  by (simp_all add: kernel_of_def)

lemma same_outside_set_umem:
  "mem_only lo hi (kmem (kmm (kernel_of u))) m \<Longrightarrow> same_outside lo hi (kernel_of u) (kernel_of (set_umem m u))"
  by (simp add: same_outside_def kernel_of_def set_umem_def)

lemma clock_routine_kernel: "clock_routine f (kernel_of u) = kernel_of (clock_routine f u)"
  by (simp add: clock_routine_def kernel_of_def Let_def)

lemma clock_routine_umem: "umem (clock_routine f u) = umem u"
  by (simp add: clock_routine_def Let_def)

lemma agree_mem_only:
  assumes "agree_outside kb 128 m m'" "lo \<le> kb" "unat kb + 128 \<le> unat hi"
  shows "mem_only lo hi m m'"
  unfolding mem_only_def
proof (intro allI impI)
  fix x assume x: "x < lo \<or> hi \<le> x"
  have "x \<noteq> kb + of_nat i" if "i < 128" for i
    using x that assms(2,3) unat_add_small [of kb i] unsigned_less [of hi, where ?'a = nat]
    by (auto simp: word_le_nat_alt word_less_nat_alt)
  then show "m' x = m x" using assms(1) by (simp add: agree_outside_def)
qed

lemma mem_only_sym_trans: "mem_only lo hi m m1 \<Longrightarrow> mem_only lo hi m m2 \<Longrightarrow> mem_only lo hi m1 m2"
  by (simp add: mem_only_def)

lemma clock_refines:
  assumes "v < length (idt M)" "segmentSelector (idt M ! v) = KERNEL_CS"
    and "aligned4 (int_top M)" "unat lo + 64 \<le> unat (int_top M)"
  shows "\<exists>M1 M2 k'. int_entry v None M = Some M1 \<and> clock_handler f lo cl M1 = Some M2
     \<and> step kb f (kernel_of (mst M)) Tick k' \<and> same_outside lo (int_top M) k' (kernel_of (mst M2))"
proof -
  obtain M1 m' where c: "int_entry v None M = Some M1"
      "clock_handler f lo cl M1 = Some (M\<lparr>eois := eois M + 1, mst := set_umem m' (clock_routine f (mst M))\<rparr>)" (is "_ = Some ?M2")
      "mem_only lo (int_top M) (mmem M) m'"
    using clock.transparent [OF assms, of f _ cl] by (auto simp: clock_effect_def)
  have "step kb f (kernel_of (mst M)) Tick (clock_routine f (kernel_of (mst M)))" by (rule step.tick)
  then have "step kb f (kernel_of (mst M)) Tick (kernel_of (clock_routine f (mst M)))" by (simp add: clock_routine_kernel)
  moreover have "same_outside lo (int_top M) (kernel_of (clock_routine f (mst M))) (kernel_of (mst ?M2))"
    using same_outside_set_umem [of lo "int_top M" "clock_routine f (mst M)" m'] c(3) by (simp add: clock_routine_umem)
  ultimately show ?thesis using c(1,2) by blast
qed

lemma keyboard_refines:
  assumes "v < length (idt M)" "segmentSelector (idt M ! v) = KERNEL_CS"
    and "aligned4 (int_top M)" "unat lo + 64 \<le> unat (int_top M)" "answered (Key e)"
  shows "\<exists>M1 M2 k'. int_entry v None M = Some M1 \<and> keyboard_handler e lo cl M1 = Some M2
     \<and> step kb f (kernel_of (mst M)) (Key e) k' \<and> same_outside lo (int_top M) k' (kernel_of (mst M2))"
proof -
  obtain con where con: "keyboard_routine e (kcon (mst M)) = Some con"
    using assms(5) keyboard_answers [of e "kcon (mst M)"] by auto
  let ?u = "(mst M)\<lparr>kcon := con\<rparr>"
  obtain M1 m' where c: "int_entry v None M = Some M1"
      "keyboard_handler e lo cl M1 = Some (M\<lparr>eois := eois M + 1, mst := set_umem m' ?u\<rparr>)" (is "_ = Some ?M2")
      "mem_only lo (int_top M) (mmem M) m'"
    using keyboard.transparent [OF assms(1-4), of e ?u cl] con by (auto simp: keyboard_effect_def)
  have "step kb f (kernel_of (mst M)) (Key e) ((kernel_of (mst M))\<lparr>kcon := con\<rparr>)"
    using con by (intro step.key) simp
  moreover have "(kernel_of (mst M))\<lparr>kcon := con\<rparr> = kernel_of ?u" by (simp add: kernel_of_def)
  moreover have "same_outside lo (int_top M) (kernel_of ?u) (kernel_of (mst ?M2))"
    using same_outside_set_umem [of lo "int_top M" ?u m'] c(3) by simp
  ultimately show ?thesis using c(1,2) by metis
qed

lemma syscall_refines:
  assumes "sysenter_ready addr lo kb M" "r_eax M \<noteq> 11"
  shows "\<exists>M2 k'. sysenter_call addr lo kb cl M = Some M2
     \<and> step kb f (kernel_of (mst M)) (Syscall (r_eax M) (r_edx M) (r_ecx M) (r_ebx M)) k'
     \<and> same_outside lo (msr M 0x175) k' (kernel_of (mst M2))"
proof -
  obtain t r where sp: "syscall_spec (mmem M) (zeos_ticks (mst M)) (r_eax M) (r_edx M) (r_ecx M) (r_ebx M) = Some (t, r)"
    using syscall_spec_total [OF assms(2)] by blast
  let ?k = "kernel_of (mst M)" and ?u = "(mst M)\<lparr>kcon := fold printc t (kcon (mst M))\<rparr>"
  have r: "kbuf_ok kb" "lo \<le> kb" "unat kb + 128 \<le> unat (msr M 0x175)"
    using assms(1) by (auto simp: sysenter_ready_def kbuf_ok_def)
  obtain ebx m' where s: "sysenter_call addr lo kb cl M = Some (M\<lparr>
          eflags := arith_flags (c_flags cl) (eflags M AND NOT 0x20200) OR 0x200, r_esp := r_ebp M,
          r_eip := load32 (mmem M) (r_ebp M + 4), r_eax := r, r_ebx := ebx, r_ecx := r_ebp M,
          r_edx := load32 (mmem M) (r_ebp M + 4), mst := set_umem m' ?u\<rparr>)" (is "_ = Some ?M2")
      "mem_only lo (msr M 0x175) (mmem M) m'"
    using sysenter_enters [OF assms(1) sp, of cl] by blast
  have "syscall_spec (kmem (kmm ?k)) (zeos_ticks ?k) (r_eax M) (r_edx M) (r_ecx M) (r_ebx M) = Some (t, r)" using sp by simp
  from dispatch_refines [OF r(1) this] obtain m1 where d: "dispatch_syscall kb (r_eax M) (r_edx M) (r_ecx M) (r_ebx M) ?k =
      Some (?k\<lparr>kcon := fold printc t (kcon ?k), kmm := (kmm ?k)\<lparr>kmem := m1\<rparr>\<rparr>, r)" (is "_ = Some (?k', _)")
      "agree_outside kb 128 (kmem (kmm ?k)) m1" by blast
  have "mem_only lo (msr M 0x175) m1 m'"
    using mem_only_sym_trans [OF agree_mem_only [OF d(2) r(2,3)]] s(2) by simp
  then have "same_outside lo (msr M 0x175) ?k' (kernel_of (mst ?M2))"
    by (simp add: same_outside_def kernel_of_def set_umem_def)
  then show ?thesis using s(1) step.syscall [OF d(1), of f] by blast
qed

section \<open>Properties\<close>

text \<open>
  C3. The running system is what the handlers do: from every processor state in which the
  gates, the TSS and the MSRs are set up, a clock interrupt, a keyboard interrupt with a
  key code in the table, and \<open>sysenter\<close> with any number but 11, each run through their
  assembler handler to the end, and leave the kernel in the state of the corresponding
  single step of the running system, except for the contents of the kernel stack.
\<close>

theorem handlers_refine_steps:
  assumes "32 < length (idt M)" "segmentSelector (idt M ! 32) = KERNEL_CS"
    and "33 < length (idt M)" "segmentSelector (idt M ! 33) = KERNEL_CS"
    and "aligned4 (int_top M)" "unat lo + 64 \<le> unat (int_top M)"
    and "sysenter_ready addr lo kb M" "answered (Key e)" "r_eax M \<noteq> 11"
  shows "(\<exists>M1 M2 k'. int_entry 32 None M = Some M1 \<and> clock_handler f lo cl M1 = Some M2
       \<and> step kb f (kernel_of (mst M)) Tick k' \<and> same_outside lo (int_top M) k' (kernel_of (mst M2)))
     \<and> (\<exists>M1 M2 k'. int_entry 33 None M = Some M1 \<and> keyboard_handler e lo cl M1 = Some M2
       \<and> step kb f (kernel_of (mst M)) (Key e) k' \<and> same_outside lo (int_top M) k' (kernel_of (mst M2)))
     \<and> (\<exists>M2 k'. sysenter_call addr lo kb cl M = Some M2
       \<and> step kb f (kernel_of (mst M)) (Syscall (r_eax M) (r_edx M) (r_ecx M) (r_ebx M)) k'
       \<and> same_outside lo (msr M 0x175) k' (kernel_of (mst M2)))"
  using clock_refines [OF assms(1,2,5,6)] keyboard_refines [OF assms(3-6,8)] syscall_refines [OF assms(7,9)] by metis

theorem handlers_refine_steps_witness:
  "\<exists>M2 k'. sysenter_call 0x20000 0x35000 0x35E00 example_clobber example_machine = Some M2
     \<and> step 0x35E00 (\<lambda>_ con. con) (kernel_of (mst example_machine)) (Syscall 10 13 12 11) k'
     \<and> same_outside 0x35000 0x36000 k' (kernel_of (mst M2))"
proof -
  have "aligned4 (int_top example_machine)" by (simp add: example_machine_fields aligned4_def)
  from handlers_refine_steps [OF _ _ _ _ this _ example_ready(2), of 0 "\<lambda>_ con. con" example_clobber]
  show ?thesis by (simp add: example_machine_fields) (simp add: example_machine_def)
qed

end
