(* ===== verification/Spec2Isabelle.thy ===== *)
theory Spec2Isabelle
  imports Zeos_List Zeos_Utils Zeos_Text Zeos_Io Zeos_Devices Zeos_Frames Zeos_AddressSpace
    Zeos_Interrupt Zeos_Sys Zeos_Libc Zeos_Errno Zeos_System Zeos_BootChain Zeos_Booted Zeos_Compose
begin

text \<open>
  ZeOS is a small operating system kernel for the IA-32 architecture, written for teaching: it
  boots, sets up segmentation, interrupts and paging, copies one user program into the user
  region and runs it; the user program calls the kernel to print and to read the clock. This
  development models the C code of the repository (under \<^verbatim>\<open>src/\<close>) and its assembler,
  from the boot sector to the system call wrappers, and proves it correct, or states exactly
  where it is not.

  \<^bold>\<open>Parts and theories.\<close> Each theory models the files it names, one definition per
  function, in the order of the code.

  \<^item> \<open>Zeos_Prelude\<close>: C integers as words, checked array accesses (\<open>rd\<close>, \<open>wr\<close>: an access
    outside an array gives \<^const>\<open>None\<close>), counting loops with a total-correctness rule.
  \<^item> \<open>Zeos_Memory\<close>: the byte memory that pointers reach, double words, ranges, and the loops
    that write disjoint sets of entries.
  \<^item> \<open>Zeos_List\<close>: \<^verbatim>\<open>list.c\<close> and the macros of \<^verbatim>\<open>list.h\<close> on a store of list
    heads. The locale \<open>intrusive_queue\<close> is the contract of the list for its clients.
  \<^item> \<open>Zeos_Types\<close>: the constants and structures of \<^verbatim>\<open>mm_address.h\<close>,
    \<^verbatim>\<open>segment.h\<close>, \<^verbatim>\<open>sched.h\<close> and \<^verbatim>\<open>types.h\<close>; page table entries as double
    words with bit fields.
  \<^item> \<open>Zeos_Utils\<close>: \<^verbatim>\<open>utils.c\<close>: copies between address ranges, the check of user
    ranges, the 64-bit division by two \<open>divl\<close>.
  \<^item> \<open>Zeos_Text\<close>: the number printers \<open>itoa\<close> (\<^verbatim>\<open>libc.c\<close>), \<open>__itoa\<close>
    (\<^verbatim>\<open>io.c\<close>) and \<open>itox\<close> (\<^verbatim>\<open>utils.c\<close>), instances of the locale
    \<open>radix_printer\<close>, with their values read back.
  \<^item> \<open>Zeos_Io\<close>: the console of \<^verbatim>\<open>io.c\<close>, a refinement of an abstract terminal (locale
    \<open>char_device\<close>).
  \<^item> \<open>Zeos_Devices\<close>: \<^verbatim>\<open>keyboard.c\<close>, \<^verbatim>\<open>clock.c\<close>, \<^verbatim>\<open>devices.c\<close>.
  \<^item> \<open>Zeos_Frames\<close>: the frame allocator of \<^verbatim>\<open>mm.c\<close>, an instance of the locale
    \<open>frame_pool\<close>.
  \<^item> \<open>Zeos_Paging\<close> and \<open>Zeos_AddressSpace\<close>: the paging part of \<^verbatim>\<open>mm.c\<close> and the task
    accessors of \<^verbatim>\<open>sched.c\<close> on the byte memory, and what the tables mean to the paging
    unit (\<open>mmu\<close>).
  \<^item> \<open>Zeos_Interrupt\<close>: \<^verbatim>\<open>hardware.c\<close>, \<^verbatim>\<open>interrupt.c\<close>, \<open>setGdt\<close> and \<open>setTSS\<close>.
  \<^item> \<open>Zeos_Sys\<close>: \<^verbatim>\<open>sys.c\<close>, the table of \<^verbatim>\<open>sys_call_table.S\<close>, the dispatch of
    \<^verbatim>\<open>entry.S\<close> as a function, and \<open>syscall_spec\<close>, what each call promises.
  \<^item> \<open>Zeos_Machine\<close>: the general registers and the processor's pushes, pops, interrupt entry,
    \<open>iret\<close>, \<open>sysenter\<close> and \<open>sysexit\<close>.
  \<^item> \<open>Zeos_Entry\<close>: the handlers of \<^verbatim>\<open>entry.S\<close> and \<open>cpu_idle\<close> instruction by instruction; the
    locale \<open>isr\<close> is what the clock and keyboard handlers have in common.
  \<^item> \<open>Zeos_Gate\<close>: the two ways into the system calls, \<open>int 0x80\<close> and \<open>sysenter\<close>, both
    instances of the locale \<open>syscall_gate\<close>.
  \<^item> \<open>Zeos_Wrappers\<close>: the wrappers of \<^verbatim>\<open>libc_sys.S\<close> instruction by instruction.
  \<^item> \<open>Zeos_Libc\<close>: the user side, \<^verbatim>\<open>libc_sys.S\<close>, \<^verbatim>\<open>libc.c\<close> and \<^verbatim>\<open>user.c\<close>; the
    locale \<open>output_channel\<close> is what the library relies on of the \<open>write\<close> call.
  \<^item> \<open>Zeos_Errno\<close>: the codes of \<^verbatim>\<open>errno.h\<close>.
  \<^item> \<open>Zeos_System\<close>: \<open>main\<close> of \<^verbatim>\<open>system.c\<close>.
  \<^item> \<open>Zeos_Build\<close>: \<^verbatim>\<open>build.c\<close>, which makes the disk image on the host.
  \<^item> \<open>Zeos_Loader\<close>, \<open>Zeos_A20\<close> and \<open>Zeos_Bootsect\<close>: the load loop of \<^verbatim>\<open>bootsect.S\<close>, its
    dialogue with the keyboard controller to open A20, and the boot sector as a whole with its
    tables and the interrupt controllers.
  \<^item> \<open>Zeos_BootChain\<close>: the builder's image as the boot sector finds it.
  \<^item> \<open>Zeos_Run\<close>: the running system as a step relation over clock, keyboard, system calls and
    user stores; the locale \<open>observed_system\<close> carries invariants over all runs.
  \<^item> \<open>Zeos_Physical\<close>: the logical memory of the model as the paging unit's view of physical memory.
  \<^item> \<open>Zeos_Booted\<close>: the state in which \<open>main\<close> ends as a start of the runs, and the layout that the
    linker scripts give.
  \<^item> \<open>Zeos_Compose\<close>: the handlers of \<open>Zeos_Entry\<close> and \<open>Zeos_Gate\<close> as steps of \<open>Zeos_Run\<close>.

  \<^bold>\<open>State.\<close> Record extension follows the use: \<open>devices\<close> (tick counter, console) is extended
  by \<open>kernel\<close> (memory management state \<open>kmm\<close>: memory, byte map of frames, CR0 and CR3), and
  that by \<open>user\<close> (\<open>errno\<close>); \<open>cpu\<close> (registers) is extended by \<open>tables\<close> (IDT, GDT, TSS), and
  that by \<open>system\<close>, which holds the kernel, and by \<open>machine\<close>, which holds the general registers
  and the user state; \<open>loader\<close> has the registers and variables of the load loop. Arrays and structures that the code reaches only
  by name are fields; what it reaches by pointers (page tables, tasks, user buffers, the
  kernel buffer of \<open>sys_write\<close>, locals whose address is passed on) is in the memory.

  \<^bold>\<open>What the lemmas show.\<close> The list operations implement a sequence (queue, stack, removal,
  traversal also under deletion). The copies, the range check, the division and the number
  printers are exact, with the bounds of their buffers. The console refines a terminal and
  stays on the screen. The allocator gives the least free even frame. \<open>init_mm\<close> builds the
  identity map, \<open>set_user_pages\<close> maps private frames and nothing else, and this stays so
  in every run (\<open>running_system_isolated\<close>), also from the state in which \<open>main\<close> leaves the
  kernel; only the user program's stores change the memory, and never its code
  (\<open>booted_system_runs\<close>). Every run of admissible events is possible
  (\<open>running_system_progress\<close>), and runs the same on physical memory behind the page tables
  (\<open>physical_memory_refines\<close>). \<open>sys_write\<close> prints exactly the user's bytes or
  returns the right error without effect; on top of it the library functions and the user
  program print exactly their text. At the level of instructions, interrupts leave the
  interrupted code as it was, both gates run the call of \<open>syscall_spec\<close> and agree, the
  wrappers implement the library's \<open>write\<close> and \<open>gettime\<close>, and each handler is one step of the
  running system. The boot sector loads the disk for every image size it can hold and enters
  the kernel with the right segments and vectors; boot ends in ring 3 with the user image in
  place, and the user file that the builder was given is the one that runs
  (\<open>build_boot_roundtrip\<close>). The properties that end in a defect of the code say so: the
  permissive range check, frame 256 that is never freed, the frame 0xFFFFF mapped when memory
  runs out, key codes past \<open>char_map\<close>, system call number 11, negative numbers, the page fault
  message and the return of its handler, the GDT limit, the clock after 2^31 ticks, the kernel
  word that \<open>sysenter\<close> discloses, the image size that nothing checks.

  \<^bold>\<open>Termination.\<close> There is no fuel. Loops are total functions with a measure, except
  \<open>strlen\<close>, the list traversals, the load loop of the boot sector and its wait for A20, which
  may not end on malformed data or devices: those are partial functions, and the theorems prove that they return.

  \<^bold>\<open>Parameters and hypotheses.\<close> The library \<^verbatim>\<open>libzeos.a\<close> comes without source:
  \<open>set_handlers\<close>, \<open>monoprocess_init_addr_space\<close> and \<open>zeos_show_clock\<close> are arguments, of which
  the theorems assume that the table keeps its length, that the kernel image is left alone
  outside the page tables (\<open>keeps_image\<close>) or that the user pages are set up with the functions
  that the library imports for it (\<open>sets_user_pages\<close>), and that the cursor stays on the screen. Hardware reads (the
  keyboard port, the time stamp counter) are arguments. The disk service of the BIOS is one too;
  \<open>reads_disk\<close> is its documented behaviour inside one track and one 64 KB page. The devices
  that the boot sector polls are functions of its accesses to the ports so far; \<open>opens_a20\<close> is
  what it needs of them: a keyboard controller that gets free within the polls, and that opens
  A20 some time after it has been told to. What compiled
  code leaves in the registers it may use, in the flags and on the stack is the arbitrary
  argument \<open>clobber\<close>. Addresses chosen by the compiler and the linker are arguments:
  \<open>layout_ok\<close> is what \<^verbatim>\<open>system.lds\<close> gives for the page tables and tasks (\<open>linked_layout_ok\<close>), \<open>image_ok\<close> adds
  that they are inside the kernel image, \<open>kbuf_ok\<close>, \<open>kstack_ok\<close> and \<open>env_ok\<close> place buffers on
  their stacks, and the \<open>ready\<close> predicates of \<open>Zeos_Gate\<close> say that the stacks have room.
  \<open>boot_file\<close> says that the boot file has the data of \<^verbatim>\<open>bootsect.S\<close> where its \<open>.org\<close> puts it.
  \<open>clear_directory\<close> and \<open>dir_rest_clear\<close> say that the linker leaves zeros in the directory of
  task 0, of which the kernel only sets the first entry.

  \<^bold>\<open>Not modelled.\<close> The console services of the BIOS and the stack in the boot sector, timing, the endless loops of \<open>cpu_idle\<close> and at the end of the user's \<open>main\<close>, stack
  overflow, and page faults of kernel code (\<open>print_page_fault\<close> and its handler are modelled).
  The scheduling functions that \<^verbatim>\<open>sched.h\<close> declares have no body in the repository, and the
  binary libraries have no source. The memory of the model is indexed by logical addresses;
  \<open>physical_memory_refines\<close> justifies this for the running system, whose pages have frames of
  their own. When frames run out, \<open>set_user_pages\<close> puts several pages on one frame, and such
  pages are not identified with each other.
\<close>

section \<open>Properties that span components\<close>

text \<open>The directory of task 0 is zero in the kernel file, as the linker leaves it.\<close>

definition clear_directory :: "layout \<Rightarrow> byte list \<Rightarrow> bool" where
  "clear_directory L sys \<longleftrightarrow> (\<forall>i<4096. sys ! (unat (l_dir_pages L) - 0x10000 + i) = 0)"

lemma clear_directory_loaded:
  assumes L: "layout_ok L" "0x1000C \<le> unat (l_dir_pages L)" "unat (l_dir_pages L) + 40960 \<le> 0x10000 + length sys"
    and z: "clear_directory L sys"
    and m: "\<And>i. 12 \<le> i \<Longrightarrow> i < length sys \<Longrightarrow> m (0x10000 + of_nat i) = sys ! i"
  shows "dir_rest_clear L m"
proof -
  let ?D = "unat (l_dir_pages L)"
  have zero: "m b = 0" if b: "?D \<le> unat b" "unat b < ?D + 4096" for b
  proof -
    have "m (0x10000 + of_nat (unat b - 0x10000)) = sys ! (unat b - 0x10000)" using b L by (intro m) linarith+
    moreover have "(0x10000 :: dword) + of_nat (unat b - 0x10000) = b"
      using b L(2) unat_add_small [of "0x10000" "unat b - 0x10000"] unsigned_less [of b, where ?'a = nat]
      by (simp add: word_unat_eq_iff)
    moreover have "sys ! (?D - 0x10000 + (unat b - ?D)) = 0" using b by (intro z [unfolded clear_directory_def, rule_format]) linarith
    ultimately show ?thesis using b L(2) by simp
  qed
  have "load32 m (tbl (l_dir_pages L) 0 d) = 0" if "d < 1024" for d
  proof -
    have "page_aligned (l_dir_pages L)" using L(1) by (simp add: layout_ok_def page_aligned_def)
    then have "m b = 0" if "b \<in> entry_bytes (tbl (l_dir_pages L) 0 d)" for b
      using entry_bytes_page [OF _ \<open>d < 1024\<close> that] zero by blast
    then show ?thesis using load32_cong [of "tbl (l_dir_pages L) 0 d" m "\<lambda>_. 0"] by (simp add: load32_def)
  qed
  then show ?thesis by (simp add: dir_rest_clear_def)
qed

text \<open>Every run from the state in which \<open>main\<close> leaves an image of the builder keeps the user's code.\<close>

lemma image_runs:
  assumes bf: "boot_file hdr bs" and size: "length sys + length usr \<le> 0x7FFF0"
    and disk: "reads_disk d (b_int13 B)" "opens_a20 B"
    and L: "layout_ok L" "\<forall>a\<in>{l_dir_pages L, l_pagusr_table L, l_task L}.
        0x1000C \<le> unat a \<and> unat a + 40960 \<le> 0x10000 + length sys"
    and K: "sets_user_pages L mono_init" and z: "clear_directory L sys"
    and s: "length (phys_mem (kmm (knl s))) = TOTAL_PAGES" "length (set_handlers (idt s)) = IDT_ENTRIES"
      "console_ok (kcon (knl s))"
    and k: "kstack_ok L kb" "show_ok show_clock"
    and on_disk: "\<forall>i<length (disk_image bs sys usr). d i = disk_image bs sys usr ! i"
    and first: "read_bytes (kmem (kmm (knl s))) 0x7C00 512 = take 512 (disk_image bs sys usr)"
    and s1: "bootsect_main B (master, slave, s) = Some (master', slave', s1)"
    and s2: "boot_main L S set_handlers mono_init s1 = Some s2"
    and r: "run (step kb show_clock) (knl s2) es k" and i: "i < length usr" "0x14000 \<le> i"
  shows "kmem (kmm k) (0x100000 + of_nat i) = usr ! i"
proof -
  let ?m = "kmem (kmm (knl s1))"
  obtain master1 slave1 t where t: "bootsect_main B (master, slave, s) = Some (master1, slave1, t)"
    "6 < length (gdt t)" "idt t = idt s" "phys_mem (kmm (knl t)) = phys_mem (kmm (knl s))"
    "kcon (knl t) = kcon (knl s)" "image_ok L (kmem (kmm (knl t)))"
    "load32 (kmem (kmm (knl t))) p_sys_size = of_nat (length sys)"
    "load32 (kmem (kmm (knl t))) p_usr_size = of_nat (length usr)"
    "\<And>i. i < length usr \<Longrightarrow> kmem (kmm (knl t)) (0x10000 + of_nat (length sys) + of_nat i) = usr ! i"
    "\<And>i. 12 \<le> i \<Longrightarrow> i < length sys \<Longrightarrow> kmem (kmm (knl t)) (0x10000 + of_nat i) = sys ! i"
    by (rule image_enters [where master = master and slave = slave, OF bf size disk L(2) on_disk first]) (rule that)
  have eq: "t = s1" using t(1) s1 by simp
  note e = t(2-10) [unfolded eq]
  have D: "0x1000C \<le> unat (l_dir_pages L)" "unat (l_dir_pages L) + 40960 \<le> 0x10000 + length sys" using L(2) by simp_all
  have g: "length (phys_mem (kmm (knl s1))) = TOTAL_PAGES" "length (set_handlers (idt s1)) = IDT_ENTRIES"
    "console_ok (kcon (knl s1))" using e(2-4) s by simp_all
  have Z: "dir_rest_clear L ?m" by (rule clear_directory_loaded [OF L(1) D z]) (rule e(9))
  obtain s3 cs ds where b: "boot_main L S set_handlers mono_init s1 = Some s3" "protected L (knl s3)"
    and sp: "\<And>p. p < 2 ^ 20 \<Longrightarrow> snd (ks_obs (knl s3)) p = task0_space cs ds p"
    and code: "\<And>i. i < unat (load32 ?m p_usr_size) \<Longrightarrow> 0x14000 \<le> i \<Longrightarrow>
       kmem (kmm (knl s3)) (0x100000 + of_nat i) = ?m (0x10000 + load32 ?m p_sys_size + of_nat i)"
    by (rule boot_starts [where set_handlers = set_handlers and mono_init = mono_init and S = S,
          OF L(1) e(5) K Z refl g(1) e(1) g(2,3)]) (rule that)
  have s3: "s3 = s2" using b(1) s2 by simp
  have inv: "sys_inv L kb show_clock (knl s2)" using L(1) k b(2) s3 by (simp add: sys_inv_def)
  have u: "unat (load32 ?m p_usr_size) = length usr" using e(7) size by (simp add: unat_of_nat)
  have h: "unat (0x100000 + of_nat i :: dword) = 0x100000 + i" using unat_add_small [of "0x100000" i] i(1) size by simp
  then have "\<not> in_kbuf kb (0x100000 + of_nat i)" using kbuf_below [OF k(1) L(1), of "0x100000 + of_nat i"] by auto
  then have "kmem (kmm k) (0x100000 + of_nat i) = kmem (kmm (knl s2)) (0x100000 + of_nat i)"
    using runs_keep_code [OF inv sp [unfolded s3] r] h i(2) by simp
  also have "\<dots> = usr ! i" using code [unfolded s3 u, OF i] e(6) e(8) [OF i(1)] by simp
  finally show ?thesis .
qed


text \<open>The library call as its imports show it.\<close>

definition example_mono_init :: "mm_state \<Rightarrow> mm_state" where
  "example_mono_init mm = (case set_user_pages (task_addr example_layout 0) mm of
     Some mm' \<Rightarrow> set_cr3 (get_DIR (kmem mm') (task_addr example_layout 0)) mm' | None \<Rightarrow> mm)"

lemma example_mono_init: "sets_user_pages example_layout example_mono_init"
  by (simp add: sets_user_pages_def example_mono_init_def)



text \<open>An image of zeros, with a user program of bytes 9.\<close>

definition example_boot_mem :: mem where
  "example_boot_mem = store32 (store32 (\<lambda>a. if unat a < 0x40000 then 0 else 9) 0x10000 0x30000) 0x10004 0x15000"

definition example_booting :: system where
  "example_booting = example_system\<lparr>knl := \<lparr>zeos_ticks = 5, kcon = console_init (\<lambda>_. 0),
     kmm = \<lparr>kmem = example_boot_mem, phys_mem = replicate 1024 0, cr0 = 0x11, cr3 = 0\<rparr>\<rparr>\<rparr>"

lemma example_boot_words:
  "load32 example_boot_mem 0x10000 = 0x30000" "load32 example_boot_mem 0x10004 = 0x15000"
  by (simp_all add: example_boot_mem_def load32_store32_other aligned4_def)

lemma example_boot_clear: "dir_rest_clear example_layout example_boot_mem"
proof -
  have "load32 example_boot_mem (tbl 0x20000 0 d) = 0" if d: "d < 1024" for d
  proof -
    have "example_boot_mem b = 0" if "b \<in> entry_bytes (tbl 0x20000 0 d)" for b
    proof -
      have "0x20000 \<le> unat b" "unat b < 0x21000"
        using entry_bytes_page [OF _ d that] by (simp_all add: page_aligned_def)
      moreover from this have "b \<notin> entry_bytes 0x10000" "b \<notin> entry_bytes 0x10004" by (auto simp: entry_bytes_def)
      ultimately show ?thesis by (simp add: example_boot_mem_def store32_outside)
    qed
    then show ?thesis using load32_cong [of "tbl 0x20000 0 d" example_boot_mem "\<lambda>_. 0"] by (simp add: load32_def)
  qed
  then show ?thesis by (simp add: dir_rest_clear_def example_layout_def)
qed


text \<open>
  Protection, for every interleaving of clock ticks, key presses, system calls with any
  arguments and stores by the user program: after \<open>init_mm\<close> and \<open>set_user_pages\<close> the
  address space of the user program stays as it was set up. The kernel's pages stay mapped
  to themselves and closed to it, the code pages read-only, the data pages on their own
  frames outside the kernel, and nothing else is mapped; the clock has counted exactly the
  ticks, and the console cursor is on the screen.
\<close>

theorem running_system_isolated:
  assumes "layout_ok L" "kstack_ok L kb" "show_ok show_clock" "console_ok con"
    and "length (phys_mem s0) = TOTAL_PAGES" "dir_rest_clear L (kmem s0)"
  shows "\<exists>s1 s2 cs ds. init_mm L s0 = Some s1 \<and> set_user_pages (task_addr L 0) s1 = Some s2
     \<and> length cs = 8 \<and> length ds = 20 \<and> distinct (cs @ ds) \<and> (\<forall>f\<in>set (cs @ ds). 256 \<le> f \<and> f < 1024)
     \<and> (\<forall>t es k. run (step kb show_clock) \<lparr>zeos_ticks = t, kcon = con, kmm = s2\<rparr> es k \<longrightarrow>
          (\<forall>p<2 ^ 20. mmu (kmem (kmm k)) (cr3 (kmm k)) p = task0_space cs ds p)
          \<and> zeos_ticks k = t + of_nat (length (filter (\<lambda>e. e = Tick) es)) \<and> console_ok (kcon k))"
proof -
  have len: "length (phys_mem s0) = 1024" using assms(5) by simp
  obtain s1 s2 cs ds where i: "init_mm L s0 = Some s1" "set_user_pages (task_addr L 0) s1 = Some s2"
    "length cs = 8" "length ds = 20" "distinct (cs @ ds)" "\<forall>f\<in>set (cs @ ds). 256 \<le> f \<and> f < 1024"
    "task_ok L (kmem s2) 0" "cr3 s2 = l_dir_pages L" "dir_rest_clear L (kmem s2)"
    "\<And>p. p < 2 ^ 20 \<Longrightarrow> mmu (kmem s2) (l_dir_pages L) p = task0_space cs ds p"
    by (rule initial_space [OF assms(1) len assms(6)]) (rule that)
  have "(\<forall>p<2 ^ 20. mmu (kmem (kmm k)) (cr3 (kmm k)) p = task0_space cs ds p)
          \<and> zeos_ticks k = t + of_nat (length (filter (\<lambda>e. e = Tick) es)) \<and> console_ok (kcon k)"
    if r: "run (step kb show_clock) \<lparr>zeos_ticks = t, kcon = con, kmm = s2\<rparr> es k" for t es k
  proof -
    let ?k0 = "\<lparr>zeos_ticks = t, kcon = con, kmm = s2\<rparr>"
    have inv: "sys_inv L kb show_clock ?k0"
      using initial_protected [OF i(7-9) assms(4) i(10) i(3,4,6)] assms(1-3) by (simp add: sys_inv_def)
    have sp: "snd (ks_obs ?k0) p = task0_space cs ds p" if "p < 2 ^ 20" for p
      using i(8,10) that by (simp add: ks_obs_def)
    show ?thesis using runs_keep_space(1-3) [OF inv sp r] by simp
  qed
  with i(1-6) show ?thesis by blast
qed

theorem running_system_isolated_witness:
  "\<exists>s1 s2 cs ds. init_mm example_layout \<lparr>kmem = \<lambda>_. 0, phys_mem = replicate 1024 0, cr0 = 0, cr3 = 0\<rparr> = Some s1
     \<and> set_user_pages (task_addr example_layout 0) s1 = Some s2
     \<and> (let k = clock_routine (\<lambda>_ con. con) \<lparr>zeos_ticks = 7, kcon = console_init (\<lambda>_. 0), kmm = s2\<rparr>
        in mmu (kmem (kmm k)) (cr3 (kmm k)) 260 = task0_space cs ds 260 \<and> zeos_ticks k = 8)"
proof -
  let ?s0 = "\<lparr>kmem = \<lambda>_. 0, phys_mem = replicate 1024 0, cr0 = 0, cr3 = 0\<rparr> :: mm_state"
  have a: "kstack_ok example_layout 0x35100" "show_ok (\<lambda>_ con. con)" "console_ok (console_init (\<lambda>_. 0))"
      "length (phys_mem ?s0) = TOTAL_PAGES" "dir_rest_clear example_layout (kmem ?s0)"
    by (simp_all add: kstack_ok_def example_layout_def show_ok_def console_ok_init dir_rest_clear_def load32_def)
  obtain s1 s2 cs ds where i: "init_mm example_layout ?s0 = Some s1" "set_user_pages (task_addr example_layout 0) s1 = Some s2"
    "\<forall>t es k. run (step 0x35100 (\<lambda>_ con. con)) \<lparr>zeos_ticks = t, kcon = console_init (\<lambda>_. 0), kmm = s2\<rparr> es k \<longrightarrow>
       (\<forall>p<2 ^ 20. mmu (kmem (kmm k)) (cr3 (kmm k)) p = task0_space cs ds p)
       \<and> zeos_ticks k = t + of_nat (length (filter (\<lambda>e. e = Tick) es)) \<and> console_ok (kcon k)"
    using running_system_isolated [OF example_layout_ok a] by blast
  let ?k = "\<lparr>zeos_ticks = 7, kcon = console_init (\<lambda>_. 0), kmm = s2\<rparr>"
  have r: "run (step 0x35100 (\<lambda>_ con. con)) ?k [Tick] (clock_routine (\<lambda>_ con. con) ?k)"
    by (rule run_Cons [where st = "step 0x35100 (\<lambda>_ con. con)"], rule tick, rule run_Nil)
  have p: "(260 :: nat) < 2 ^ 20" by simp
  have "mmu (kmem (kmm (clock_routine (\<lambda>_ con. con) ?k))) (cr3 (kmm (clock_routine (\<lambda>_ con. con) ?k))) 260 = task0_space cs ds 260"
    "zeos_ticks (clock_routine (\<lambda>_ con. con) ?k) = 7 + of_nat (length (filter (\<lambda>e. e = Tick) [Tick]))"
    using i(3) [rule_format, OF r] p by blast+
  then show ?thesis using i(1,2) by (intro exI conjI) (auto simp: Let_def)
qed



text \<open>
  C4. The flat memory of the model is what the paging unit shows. From the state that
  \<open>init_mm\<close> and \<open>set_user_pages\<close> leave, every run on logical memory is a run on physical memory,
  in which each store of the user program writes the one byte that the walk through the page
  tables in physical memory leads to, and the other way round; and after every run each mapped
  logical address shows, at its physical address, the byte that the model has there, with no
  two logical addresses on one physical address.
\<close>

theorem physical_memory_refines:
  assumes "layout_ok L" "kstack_ok L kb" "show_ok show_clock" "console_ok con"
    and "length (phys_mem s0) = TOTAL_PAGES" "dir_rest_clear L (kmem s0)"
  shows "\<exists>s1 s2. init_mm L s0 = Some s1 \<and> set_user_pages (task_addr L 0) s1 = Some s2
     \<and> (\<exists>P. faithful P (cr3 s2) (kmem s2))
     \<and> (\<forall>P t es k. run (step kb show_clock) \<lparr>zeos_ticks = t, kcon = con, kmm = s2\<rparr> es k \<longleftrightarrow>
          (\<exists>P'. run (pstep kb show_clock) (P, \<lparr>zeos_ticks = t, kcon = con, kmm = s2\<rparr>) es (P', k)))
     \<and> (\<forall>P t es P' k. faithful P (cr3 s2) (kmem s2)
          \<and> run (pstep kb show_clock) (P, \<lparr>zeos_ticks = t, kcon = con, kmm = s2\<rparr>) es (P', k) \<longrightarrow>
          (\<forall>a pa. translate P' (cr3 (kmm k)) a = Some pa \<longrightarrow> P' pa = kmem (kmm k) a)
          \<and> (\<forall>a b pa. translate P' (cr3 (kmm k)) a = Some pa \<and> translate P' (cr3 (kmm k)) b = Some pa \<longrightarrow> a = b))"
proof -
  have len: "length (phys_mem s0) = 1024" using assms(5) by simp
  obtain s1 s2 cs ds where i: "init_mm L s0 = Some s1" "set_user_pages (task_addr L 0) s1 = Some s2"
    "length cs = 8" "length ds = 20" "distinct (cs @ ds)" "\<forall>f\<in>set (cs @ ds). 256 \<le> f \<and> f < 1024"
    "task_ok L (kmem s2) 0" "cr3 s2 = l_dir_pages L" "dir_rest_clear L (kmem s2)"
    "\<And>p. p < 2 ^ 20 \<Longrightarrow> mmu (kmem s2) (l_dir_pages L) p = task0_space cs ds p"
    by (rule initial_space [OF assms(1) len assms(6)]) (rule that)
  let ?k = "\<lambda>t. \<lparr>zeos_ticks = t, kcon = con, kmm = s2\<rparr>"
  have inv: "sys_inv L kb show_clock (?k t)" for t
    using initial_protected [OF i(7-9) assms(4) i(10) i(3,4,6)] assms(1-3) by (simp add: sys_inv_def)
  have priv: "private_frames (kmem s2) (cr3 s2)"
    unfolding i(8) by (rule initial_private [OF i(10) i(3-6)])
  have "\<exists>P. faithful P (cr3 s2) (kmem s2)" using faithful_exists [OF inv [of 0]] priv by simp
  moreover have "run (step kb show_clock) (?k t) es k \<longleftrightarrow> (\<exists>P'. run (pstep kb show_clock) (P, ?k t) es (P', k))" for P t es k
    by (rule run_lifts)
  moreover have "(\<forall>a pa. translate P' (cr3 (kmm k)) a = Some pa \<longrightarrow> P' pa = kmem (kmm k) a)
      \<and> (\<forall>a b pa. translate P' (cr3 (kmm k)) a = Some pa \<and> translate P' (cr3 (kmm k)) b = Some pa \<longrightarrow> a = b)"
    if F: "faithful P (cr3 s2) (kmem s2)" and r: "run (pstep kb show_clock) (P, ?k t) es (P', k)" for P t es P' k
  proof -
    have "phys_inv L kb show_clock (P', k)"
      using ps.run_inv [OF r, of L] inv [of t] F priv by (simp add: phys_inv_def)
    then show ?thesis by (rule phys_inv_memory)
  qed
  ultimately show ?thesis using i(1,2) by blast
qed

theorem physical_memory_refines_witness:
  "\<exists>s1 s2 P P' k. init_mm example_layout \<lparr>kmem = \<lambda>_. 0, phys_mem = replicate 1024 0, cr0 = 0, cr3 = 0\<rparr> = Some s1
     \<and> set_user_pages (task_addr example_layout 0) s1 = Some s2
     \<and> run (pstep 0x35100 (\<lambda>_ con. con)) (P, \<lparr>zeos_ticks = 7, kcon = console_init (\<lambda>_. 0), kmm = s2\<rparr>) [Tick] (P', k)
     \<and> (\<forall>a pa. translate P' (cr3 (kmm k)) a = Some pa \<longrightarrow> P' pa = kmem (kmm k) a)"
proof -
  let ?s0 = "\<lparr>kmem = \<lambda>_. 0, phys_mem = replicate 1024 0, cr0 = 0, cr3 = 0\<rparr> :: mm_state"
  have a: "kstack_ok example_layout 0x35100" "show_ok (\<lambda>_ con. con)" "console_ok (console_init (\<lambda>_. 0))"
      "length (phys_mem ?s0) = TOTAL_PAGES" "dir_rest_clear example_layout (kmem ?s0)"
    by (simp_all add: kstack_ok_def example_layout_def show_ok_def console_ok_init dir_rest_clear_def load32_def)
  let ?k = "\<lambda>s2. \<lparr>zeos_ticks = 7, kcon = console_init (\<lambda>_. 0), kmm = s2\<rparr>"
  obtain s1 s2 P where i: "init_mm example_layout ?s0 = Some s1" "set_user_pages (task_addr example_layout 0) s1 = Some s2"
    "faithful P (cr3 s2) (kmem s2)"
    "\<forall>P t es k. run (step 0x35100 (\<lambda>_ con. con)) \<lparr>zeos_ticks = t, kcon = console_init (\<lambda>_. 0), kmm = s2\<rparr> es k \<longleftrightarrow>
       (\<exists>P'. run (pstep 0x35100 (\<lambda>_ con. con)) (P, \<lparr>zeos_ticks = t, kcon = console_init (\<lambda>_. 0), kmm = s2\<rparr>) es (P', k))"
    "\<forall>P t es P' k. faithful P (cr3 s2) (kmem s2)
       \<and> run (pstep 0x35100 (\<lambda>_ con. con)) (P, \<lparr>zeos_ticks = t, kcon = console_init (\<lambda>_. 0), kmm = s2\<rparr>) es (P', k) \<longrightarrow>
       (\<forall>a pa. translate P' (cr3 (kmm k)) a = Some pa \<longrightarrow> P' pa = kmem (kmm k) a)
       \<and> (\<forall>a b pa. translate P' (cr3 (kmm k)) a = Some pa \<and> translate P' (cr3 (kmm k)) b = Some pa \<longrightarrow> a = b)"
    using physical_memory_refines [OF example_layout_ok a] by (elim exE conjE) (rule that)
  have "run (step 0x35100 (\<lambda>_ con. con)) (?k s2) [Tick] (clock_routine (\<lambda>_ con. con) (?k s2))"
    by (rule run_Cons [where st = "step 0x35100 (\<lambda>_ con. con)"], rule tick, rule run_Nil)
  then obtain P' where r: "run (pstep 0x35100 (\<lambda>_ con. con)) (P, ?k s2) [Tick] (P', clock_routine (\<lambda>_ con. con) (?k s2))"
    using i(4) by blast
  then show ?thesis using i(1-3,5) by blast
qed

end
